(* ===== verification/Watchd_Prelude.thy ===== *)
theory Watchd_Prelude
  imports Main "HOL-Library.Word" "HOL-Library.AList"
begin

text \<open>
  Shared vocabulary of the watchd development: the machine types of the Go source, results that
  may be an error, Go maps as association lists, and the generic lemmas the component theories use.

  \<^item> \<open>lsn\<close> is \<open>pglogrepl.LSN\<close> (a \<open>uint64\<close>), \<open>xid\<close> a PostgreSQL 32-bit transaction id and
    \<open>xid8\<close> its 64-bit form with epoch; Go's \<open>int\<close> is \<open>int\<close> (no bound of the code is near
    \<open>2 ^ 63\<close>), and \<open>gotime\<close> counts from the zero \<open>time.Time\<close>, which is \<open>0\<close>.
  \<^item> a function returning \<open>(T, error)\<close> returns \<open>'e + 'a\<close>, with \<open>Inl\<close> for a non-nil error;
    \<open>rbind\<close> is the \<open>if err != nil { return err }\<close> sequence.
  \<^item> a Go map is an association list without repeated keys: \<open>gm_get\<close> reads with the zero value as
    default, \<open>AList.update\<close> and \<open>AList.delete\<close> write.
\<close>

section \<open>Types\<close>

type_synonym lsn = "64 word"
type_synonym xid = "32 word"
type_synonym xid8 = "64 word"
type_synonym oid = "32 word"
type_synonym gotime = int
type_synonym ('k, 'v) gomap = "('k \<times> 'v) list"

named_theorems hub_simps
named_theorems decoder_simps

section \<open>Results that may be an error\<close>

definition rbind :: "'e + 'a \<Rightarrow> ('a \<Rightarrow> 'e + 'b) \<Rightarrow> 'e + 'b" where
  "rbind m f = (case m of Inl e \<Rightarrow> Inl e | Inr x \<Rightarrow> f x)"

definition is_ok :: "'e + 'a \<Rightarrow> bool" where
  "is_ok m = (case m of Inl _ \<Rightarrow> False | Inr _ \<Rightarrow> True)"

lemma rbind_simps [simp]:
  "rbind (Inl e) f = Inl e"
  "rbind (Inr x) f = f x"
  by (simp_all add: rbind_def)

lemma is_ok_simps [simp]:
  "\<not> is_ok (Inl e)"
  "is_ok (Inr x)"
  by (simp_all add: is_ok_def)

lemma rbind_Inr_iff: "rbind m f = Inr y \<longleftrightarrow> (\<exists>x. m = Inr x \<and> f x = Inr y)"
  by (cases m) auto

lemma rbind_Inl_iff: "rbind m f = Inl e \<longleftrightarrow> m = Inl e \<or> (\<exists>x. m = Inr x \<and> f x = Inl e)"
  by (cases m) auto

lemma is_ok_iff: "is_ok m \<longleftrightarrow> (\<exists>x. m = Inr x)"
  by (cases m) auto

text \<open>A Go loop that maps every element and stops at the first error.\<close>

fun rmap :: "('a \<Rightarrow> 'e + 'b) \<Rightarrow> 'a list \<Rightarrow> 'e + 'b list" where
  "rmap f [] = Inr []"
| "rmap f (x # xs) = rbind (f x) (\<lambda>y. rbind (rmap f xs) (\<lambda>ys. Inr (y # ys)))"

lemma rmap_Inr_iff: "rmap f xs = Inr ys \<longleftrightarrow> list_all2 (\<lambda>x y. f x = Inr y) xs ys"
  by (induction xs arbitrary: ys)
    (auto simp: rbind_Inr_iff list_all2_Cons1)

lemma rmap_ok: "(\<And>x. x \<in> set xs \<Longrightarrow> f x = Inr (g x)) \<Longrightarrow> rmap f xs = Inr (map g xs)"
  by (induction xs) auto

text \<open>A Go loop that threads a state through the elements and stops at the first error.\<close>

fun rfold :: "('s \<Rightarrow> 'a \<Rightarrow> 'e + 's) \<Rightarrow> 's \<Rightarrow> 'a list \<Rightarrow> 'e + 's" where
  "rfold f s [] = Inr s"
| "rfold f s (x # xs) = rbind (f s x) (\<lambda>s'. rfold f s' xs)"

lemma rfold_append: "rfold f s (xs @ ys) = rbind (rfold f s xs) (\<lambda>s'. rfold f s' ys)"
proof (induction xs arbitrary: s)
  case (Cons x xs)
  then show ?case by (cases "f s x") auto
qed simp

lemma rfold_invariant:
  "rfold f s xs = Inr s' \<Longrightarrow> P s \<Longrightarrow> (\<And>s x s'. P s \<Longrightarrow> x \<in> set xs \<Longrightarrow> f s x = Inr s' \<Longrightarrow> P s') \<Longrightarrow> P s'"
proof (induction xs arbitrary: s)
  case (Cons x xs)
  obtain s1 where s1: "f s x = Inr s1" "rfold f s1 xs = Inr s'"
    using Cons.prems(1) by (auto simp: rbind_Inr_iff)
  have "P s1" by (rule Cons.prems(3) [OF Cons.prems(2) _ s1(1)]) simp
  with s1(2) show ?case
  proof (rule Cons.IH)
    fix t y t' assume "P t" "y \<in> set xs" "f t y = Inr t'"
    then show "P t'" using Cons.prems(3) [of t y t'] by simp
  qed
qed simp

section \<open>Go maps\<close>

definition gm_get :: "('k, 'v) gomap \<Rightarrow> 'k \<Rightarrow> 'v \<Rightarrow> 'v" where
  "gm_get m k d = (case map_of m k of None \<Rightarrow> d | Some v \<Rightarrow> v)"

lemma gm_get_Nil [simp]: "gm_get [] k d = d"
  by (simp add: gm_get_def)

lemma gm_get_update [simp]:
  "gm_get (AList.update k v m) k' d = (if k' = k then v else gm_get m k' d)"
  by (simp add: gm_get_def update_conv')

lemma gm_get_delete [simp]:
  "gm_get (AList.delete k m) k' d = (if k' = k then d else gm_get m k' d)"
  by (simp add: gm_get_def delete_conv')

section \<open>Lists\<close>

lemma filter_filter_eq: "filter P (filter Q xs) = filter (\<lambda>x. Q x \<and> P x) xs"
  by simp

lemma sorted_wrt_snocI:
  "sorted_wrt P xs \<Longrightarrow> (\<And>x. x \<in> set xs \<Longrightarrow> P x y) \<Longrightarrow> sorted_wrt P (xs @ [y])"
  by (simp add: sorted_wrt_append)

section \<open>Byte strings\<close>

text \<open>\<open>strings.HasPrefix\<close>, \<open>strings.Contains\<close>, \<open>strings.ToLower\<close> (on ASCII letters, all the
  source compares with), \<open>strings.Split\<close> and \<open>strings.Cut\<close> on a one-character separator.\<close>

fun has_prefix :: "string \<Rightarrow> string \<Rightarrow> bool" where
  "has_prefix s [] = True"
| "has_prefix [] (p # ps) = False"
| "has_prefix (c # cs) (p # ps) = (c = p \<and> has_prefix cs ps)"

fun contains :: "string \<Rightarrow> string \<Rightarrow> bool" where
  "contains [] p = (p = [])"
| "contains (c # cs) p = (has_prefix (c # cs) p \<or> contains cs p)"

definition to_lower_char :: "char \<Rightarrow> char" where
  "to_lower_char c = (let n = of_char c :: nat in
     if 65 \<le> n \<and> n \<le> 90 then char_of (n + 32) else c)"

definition to_lower :: "string \<Rightarrow> string" where
  "to_lower = map to_lower_char"

fun split_on :: "char \<Rightarrow> string \<Rightarrow> string list" where
  "split_on sep [] = [[]]"
| "split_on sep (c # cs) =
     (if c = sep then [] # split_on sep cs
      else case split_on sep cs of
             [] \<Rightarrow> [[c]]
           | w # ws \<Rightarrow> (c # w) # ws)"

fun cut_on :: "char \<Rightarrow> string \<Rightarrow> (string \<times> string) option" where
  "cut_on sep [] = None"
| "cut_on sep (c # cs) =
     (if c = sep then Some ([], cs)
      else case cut_on sep cs of
             None \<Rightarrow> None
           | Some (a, b) \<Rightarrow> Some (c # a, b))"

fun join_on :: "char \<Rightarrow> string list \<Rightarrow> string" where
  "join_on sep [] = []"
| "join_on sep [w] = w"
| "join_on sep (w # ws) = w @ sep # join_on sep ws"

lemma has_prefix_iff: "has_prefix s p \<longleftrightarrow> (\<exists>t. s = p @ t)"
  by (induction s p rule: has_prefix.induct) auto

lemma contains_iff: "contains s p \<longleftrightarrow> (\<exists>a b. s = a @ p @ b)"
proof (induction s)
  case Nil
  show ?case by simp
next
  case (Cons c cs)
  have "(\<exists>a b. c # cs = a @ p @ b) \<longleftrightarrow>
      (\<exists>b. c # cs = p @ b) \<or> (\<exists>a b. cs = a @ p @ b)" (is "?L \<longleftrightarrow> ?R")
  proof
    assume ?L
    then obtain a b where ab: "c # cs = a @ p @ b" by blast
    show ?R
      using ab by (cases a) auto
  next
    assume ?R
    then show ?L
    proof
      assume "\<exists>b. c # cs = p @ b"
      then obtain b where "c # cs = [] @ p @ b" by auto
      then show ?L by blast
    next
      assume "\<exists>a b. cs = a @ p @ b"
      then obtain a b where "c # cs = (c # a) @ p @ b" by auto
      then show ?L by blast
    qed
  qed
  with Cons show ?case by (simp add: has_prefix_iff)
qed

lemma cut_on_append [simp]: "sep \<notin> set a \<Longrightarrow> cut_on sep (a @ sep # b) = Some (a, b)"
  by (induction a) auto

lemma cut_on_Some: "cut_on sep s = Some (a, b) \<longleftrightarrow> s = a @ sep # b \<and> sep \<notin> set a"
proof
  show "cut_on sep s = Some (a, b) \<Longrightarrow> s = a @ sep # b \<and> sep \<notin> set a"
    by (induction s arbitrary: a) (auto split: option.splits if_splits)
qed simp

lemma cut_on_None: "cut_on sep s = None \<longleftrightarrow> sep \<notin> set s"
  by (induction s) (auto split: option.splits)

lemma split_on_nonempty [simp]: "split_on sep s \<noteq> []"
  by (induction s) (auto split: list.splits)

lemma split_on_join_on:
  "ws \<noteq> [] \<Longrightarrow> (\<And>w. w \<in> set ws \<Longrightarrow> sep \<notin> set w) \<Longrightarrow> split_on sep (join_on sep ws) = ws"
proof (induction sep ws rule: join_on.induct)
  case (1 sep)
  then show ?case by simp
next
  case (2 sep w)
  then have "sep \<notin> set w" by simp
  then show ?case by (induction w) auto
next
  case (3 sep w v vs)
  then have IH: "split_on sep (join_on sep (v # vs)) = v # vs" and w: "sep \<notin> set w"
    by simp_all
  from w have "split_on sep (w @ sep # join_on sep (v # vs)) = w # split_on sep (join_on sep (v # vs))"
    by (induction w) auto
  with IH show ?case by simp
qed

lemma join_on_inject:
  assumes "length ws = length vs"
    and "\<And>w. w \<in> set ws \<Longrightarrow> sep \<notin> set w" and "\<And>v. v \<in> set vs \<Longrightarrow> sep \<notin> set v"
    and "join_on sep ws = join_on sep vs"
  shows "ws = vs"
proof (cases "ws = []")
  case True
  with assms(1) show ?thesis by simp
next
  case False
  with assms(1) have "vs \<noteq> []" by auto
  then have "split_on sep (join_on sep vs) = vs"
    using assms(3) by (rule split_on_join_on)
  moreover have "split_on sep (join_on sep ws) = ws"
    using False assms(2) by (rule split_on_join_on)
  ultimately show ?thesis using assms(4) by simp
qed

end
