(* ===== verification/Errors.thy ===== *)
theory Errors
  imports Watchd_Prelude
begin

text \<open>
  Errors of \<open>internal/cdc\<close> (\<open>errors.go\<close>, the sentinels of \<open>types.go\<close>, \<open>decoder.go\<close>,
  \<open>source.go\<close>, \<open>cdc.go\<close>, \<open>relation.go\<close>, \<open>retention_policy.go\<close>; and the sentinels of
  the other packages) and their classification.

  A Go error is modelled by what \<open>errors.Is\<close> and \<open>errors.AsType\<close> can see of it: the package
  sentinels, the errors a \<open>fmt.Errorf\<close> wraps with \<open>%w\<close> (in order; the empty list for an error
  that wraps nothing), a \<open>classifiedError\<close> and a server error \<open>pgconn.PgError\<close> with its SQLSTATE
  and message. Message texts are not modelled. \<open>RuntimePanic\<close> is no error value: it is the outcome of
  an index out of range, so that a model can show its code never panics.
\<close>

section \<open>Errors and their chains\<close>

datatype sentinel =
    ErrNoCursors | ErrInvalidCursor
  | ErrTransactionInProgress | ErrNoTransaction | ErrUnknownRelation
  | ErrUnsupportedPGOutputMessage | ErrTransactionTooLarge | ErrTransactionTooManyChanges
  | ErrPrimaryKeyChangeUnsupported | ErrUnsupportedColumnEncoding | ErrValueTooLarge
  | ErrInvalidReaderConfig | ErrMalformedReplicationData | ErrUnexpectedReplicationMessage
  | ErrReplicationEnded | ErrSlotInvalidated | ErrSlotInUse | ErrSinkRejected
  | ErrRetryExhausted | ErrPostgresServer | ErrSourceUnavailable | ErrInsufficientPrivileges
  | ErrBootstrapSlotExists | ErrSlotNotFound | ErrSnapshotWindowClosed | ErrSnapshotSinkRequired
  | ErrDatabaseURLRequired | ErrInvalidDatabaseURL
  | ErrSourceNotStarted | ErrSourceAlreadyStarted | ErrSourceStopped
  | ErrRetainedWALBudgetExceeded
  | ErrInvalidHubConfig | ErrUnknownProjection
  | ErrInvalidServerConfig | ErrMissingKey
  | ErrInvalidConfig | ErrSource | ErrInvalidEnvironment
  | ContextCanceled | ContextDeadlineExceeded
  | RuntimePanic

datatype goerror =
    Sentinel sentinel
  | Errorf "goerror list"
  | ClassifiedError goerror bool string
  | PgError string string

fun errors_is :: "goerror \<Rightarrow> sentinel \<Rightarrow> bool" where
  "errors_is (Sentinel s) t = (s = t)"
| "errors_is (Errorf es) t = (\<exists>e \<in> set es. errors_is e t)"
| "errors_is (ClassifiedError kind r st) t = errors_is kind t"
| "errors_is (PgError st msg) t = False"

text \<open>\<open>errors.AsType[*classifiedError]\<close> and \<open>errors.AsType[*pgconn.PgError]\<close>: the first match of
  a depth-first walk of the chain.\<close>

fun as_classified :: "goerror \<Rightarrow> (goerror \<times> bool \<times> string) option"
  and as_classified_any :: "goerror list \<Rightarrow> (goerror \<times> bool \<times> string) option" where
  "as_classified (Sentinel s) = None"
| "as_classified (Errorf es) = as_classified_any es"
| "as_classified (ClassifiedError kind r st) = Some (kind, r, st)"
| "as_classified (PgError st msg) = None"
| "as_classified_any [] = None"
| "as_classified_any (e # es) =
     (case as_classified e of Some c \<Rightarrow> Some c | None \<Rightarrow> as_classified_any es)"

fun as_pg_error :: "goerror \<Rightarrow> (string \<times> string) option"
  and as_pg_error_any :: "goerror list \<Rightarrow> (string \<times> string) option" where
  "as_pg_error (Sentinel s) = None"
| "as_pg_error (Errorf es) = as_pg_error_any es"
| "as_pg_error (ClassifiedError kind r st) = as_pg_error kind"
| "as_pg_error (PgError st msg) = Some (st, msg)"
| "as_pg_error_any [] = None"
| "as_pg_error_any (e # es) =
     (case as_pg_error e of Some c \<Rightarrow> Some c | None \<Rightarrow> as_pg_error_any es)"

text \<open>A slice index: out of range, Go panics.\<close>

definition at_index :: "'a list \<Rightarrow> nat \<Rightarrow> goerror + 'a" where
  "at_index xs i = (if i < length xs then Inr (xs ! i) else Inl (Sentinel RuntimePanic))"

lemma at_index_Inr [simp]: "i < length xs \<Longrightarrow> at_index xs i = Inr (xs ! i)"
  by (simp add: at_index_def)

lemma at_index_Inr_iff: "at_index xs i = Inr x \<longleftrightarrow> i < length xs \<and> x = xs ! i"
  by (auto simp: at_index_def)

section \<open>Classification\<close>

definition terminalSentinels :: "sentinel list" where
  "terminalSentinels =
    [ErrInvalidReaderConfig, ErrInvalidDatabaseURL, ErrMalformedReplicationData,
     ErrUnexpectedReplicationMessage, ErrSlotInvalidated, ErrPostgresServer,
     ErrTransactionTooLarge, ErrTransactionTooManyChanges, ErrUnsupportedPGOutputMessage,
     ErrUnsupportedColumnEncoding, ErrValueTooLarge, ErrSinkRejected]"

definition isRetryable :: "goerror \<Rightarrow> bool" where
  "isRetryable err =
     (case as_classified err of
        Some (kind, retryable, st) \<Rightarrow> retryable
      | None \<Rightarrow> \<not> list_ex (errors_is err) terminalSentinels)"

definition retryableError :: "goerror \<Rightarrow> string \<Rightarrow> goerror" where
  "retryableError kind sqlState = ClassifiedError kind True sqlState"

definition terminalError :: "goerror \<Rightarrow> string \<Rightarrow> goerror" where
  "terminalError kind sqlState = ClassifiedError kind False sqlState"

definition classifySQLState :: "string \<Rightarrow> string \<Rightarrow> goerror" where
  "classifySQLState sqlState message =
     (if contains (to_lower message) ''requested wal segment'' \<and>
         contains (to_lower message) ''removed''
      then terminalError (Sentinel ErrSlotInvalidated) sqlState
      else if sqlState = ''42501'' then terminalError (Sentinel ErrInsufficientPrivileges) sqlState
      else if sqlState = ''42704'' then terminalError (Sentinel ErrSlotInvalidated) sqlState
      else if sqlState = ''55006'' then retryableError (Sentinel ErrSlotInUse) sqlState
      else if sqlState \<in> {''57P01'', ''57P02'', ''57P03''}
      then retryableError (Sentinel ErrReplicationEnded) sqlState
      else terminalError (Sentinel ErrPostgresServer) sqlState)"

definition classifyErrorResponse :: "string \<Rightarrow> string \<Rightarrow> goerror" where
  "classifyErrorResponse code message = classifySQLState code message"

definition classifyPostgresError :: "goerror \<Rightarrow> goerror" where
  "classifyPostgresError err =
     (case as_pg_error err of
        Some (sqlState, message) \<Rightarrow> classifySQLState sqlState message
      | None \<Rightarrow> err)"

text \<open>\<open>fmt.Errorf("%w: %v", ErrSourceUnavailable, err)\<close> wraps the sentinel only: \<open>err\<close> is
  formatted with \<open>%v\<close>.\<close>

definition classifyConnectionError :: "goerror \<Rightarrow> goerror" where
  "classifyConnectionError err =
     (if errors_is err ErrInvalidDatabaseURL \<or> errors_is err ErrDatabaseURLRequired then err
      else let classified = classifyPostgresError err in
        if errors_is classified ErrInsufficientPrivileges then classified
        else Errorf [Sentinel ErrSourceUnavailable])"

definition isDuplicateObject :: "goerror \<Rightarrow> bool" where
  "isDuplicateObject err =
     (case as_pg_error err of Some (sqlState, _) \<Rightarrow> sqlState = ''42710'' | None \<Rightarrow> False)"

text \<open>\<open>errorClasses\<close> of \<open>metrics.go\<close>, most specific first.\<close>

definition errorClasses :: "(sentinel \<times> string) list" where
  "errorClasses =
    [(ErrRetainedWALBudgetExceeded, ''retention_budget_exceeded''),
     (ErrSlotInvalidated, ''slot_invalidated''),
     (ErrSlotInUse, ''slot_in_use''),
     (ErrSlotNotFound, ''slot_not_found''),
     (ErrSnapshotWindowClosed, ''snapshot_window_closed''),
     (ErrInsufficientPrivileges, ''insufficient_privileges''),
     (ErrSourceUnavailable, ''source_unavailable''),
     (ErrReplicationEnded, ''replication_ended''),
     (ErrSinkRejected, ''sink_rejected''),
     (ErrTransactionTooLarge, ''transaction_too_large''),
     (ErrTransactionTooManyChanges, ''transaction_too_large''),
     (ErrValueTooLarge, ''transaction_too_large''),
     (ErrMalformedReplicationData, ''malformed_data''),
     (ErrUnexpectedReplicationMessage, ''malformed_data''),
     (ErrUnsupportedPGOutputMessage, ''unsupported_change''),
     (ErrUnsupportedColumnEncoding, ''unsupported_change''),
     (ErrPrimaryKeyChangeUnsupported, ''unsupported_change''),
     (ErrInvalidReaderConfig, ''invalid_config''),
     (ErrPostgresServer, ''postgres_server''),
     (ContextDeadlineExceeded, ''timeout'')]"

definition errorClass :: "goerror \<Rightarrow> string" where
  "errorClass err =
     (case find (\<lambda>(s, class). errors_is err s) errorClasses of
        Some (s, class) \<Rightarrow> class
      | None \<Rightarrow> ''other'')"

fun dedup_names :: "string list \<Rightarrow> string list \<Rightarrow> string list" where
  "dedup_names names [] = names"
| "dedup_names names (c # cs) =
     dedup_names (if c \<in> set names then names else names @ [c]) cs"

definition errorClassNames :: "string list" where
  "errorClassNames = dedup_names [''other''] (map snd errorClasses)"

section \<open>Lemmas\<close>

lemma as_classified_retryableError [simp]:
  "as_classified (retryableError k s) = Some (k, True, s)"
  "as_classified (terminalError k s) = Some (k, False, s)"
  by (simp_all add: retryableError_def terminalError_def)

lemma errors_is_classified [simp]:
  "errors_is (retryableError k s) t = errors_is k t"
  "errors_is (terminalError k s) t = errors_is k t"
  by (simp_all add: retryableError_def terminalError_def)

lemma isRetryable_classified [simp]:
  "isRetryable (retryableError k s)"
  "\<not> isRetryable (terminalError k s)"
  by (simp_all add: isRetryable_def)

lemma isRetryable_unclassified:
  "as_classified err = None \<Longrightarrow>
     isRetryable err \<longleftrightarrow> (\<forall>s \<in> set terminalSentinels. \<not> errors_is err s)"
  by (simp add: isRetryable_def list_ex_iff)

lemma isRetryable_sentinel: "isRetryable (Sentinel s) \<longleftrightarrow> s \<notin> set terminalSentinels"
  by (auto simp: isRetryable_unclassified)

lemma set_dedup_names: "set (dedup_names names cs) = set names \<union> set cs"
  by (induction names cs rule: dedup_names.induct) auto

lemma distinct_dedup_names: "distinct names \<Longrightarrow> distinct (dedup_names names cs)"
  by (induction names cs rule: dedup_names.induct) auto

end
