(* ===== verification/Cursor.thy ===== *)
theory Cursor
  imports Errors
begin

text \<open>
  Cursors (\<open>internal/cdc/types.go\<close>): a source's commit position. \<open>Compare\<close>, \<open>BytesAfter\<close>,
  \<open>IsZero\<close>, \<open>String\<close>, \<open>ParseCursor\<close> and \<open>MinCursor\<close>, and the hub's helper \<open>later\<close>
  (\<open>internal/watch/hub.go\<close>).

  The text form of an LSN belongs to the third-party package \<open>pglogrepl\<close>: its printer and parser
  are the arguments \<open>lsn_string\<close> and \<open>parse_lsn\<close> of the definitions that use them.

  The locale \<open>source_order\<close> is the contract of comparing positions of one source, which the
  consistent cut rests on; it is interpreted here on \<open>Compare\<close>.
\<close>

section \<open>The cursor and its operations\<close>

record cursor =
  cur_source :: string
  cur_lsn :: lsn

definition zeroCursor :: cursor where
  "zeroCursor = \<lparr>cur_source = [], cur_lsn = 0\<rparr>"

definition Compare :: "cursor \<Rightarrow> cursor \<Rightarrow> goerror + int" where
  "Compare c other =
     (if cur_source c \<noteq> cur_source other then Inl (Errorf [])
      else if cur_lsn c < cur_lsn other then Inr (-1)
      else if cur_lsn c > cur_lsn other then Inr 1
      else Inr 0)"

text \<open>\<open>int64(c.lsn - other.lsn)\<close> reads the 64-bit difference as a signed number.\<close>

definition BytesAfter :: "cursor \<Rightarrow> cursor \<Rightarrow> int" where
  "BytesAfter c other =
     (if cur_source c \<noteq> cur_source other \<or> cur_lsn c \<le> cur_lsn other then 0
      else sint (cur_lsn c - cur_lsn other))"

definition IsZero :: "cursor \<Rightarrow> bool" where
  "IsZero c = (c = zeroCursor)"

definition cursorString :: "(lsn \<Rightarrow> string) \<Rightarrow> cursor \<Rightarrow> string" where
  "cursorString lsn_string c = lsn_string (cur_lsn c)"

definition ParseCursor ::
    "(string \<Rightarrow> lsn option) \<Rightarrow> string \<Rightarrow> string \<Rightarrow> goerror + cursor" where
  "ParseCursor parse_lsn sourceID txt =
     (if sourceID = [] then Inl (Errorf [Sentinel ErrInvalidCursor])
      else case parse_lsn txt of
             None \<Rightarrow> Inl (Errorf [Sentinel ErrInvalidCursor])
           | Some lsn \<Rightarrow> Inr \<lparr>cur_source = sourceID, cur_lsn = lsn\<rparr>)"

fun min_loop :: "cursor \<Rightarrow> cursor list \<Rightarrow> goerror + cursor" where
  "min_loop m [] = Inr m"
| "min_loop m (c # cs) =
     rbind (Compare m c) (\<lambda>cmp. min_loop (if cmp > 0 then c else m) cs)"

fun MinCursor :: "cursor list \<Rightarrow> goerror + cursor" where
  "MinCursor [] = Inl (Sentinel ErrNoCursors)"
| "MinCursor (c # cs) = min_loop c cs"

text \<open>\<open>later\<close> of \<open>hub.go\<close>: cursors of two sources are never later than each other.\<close>

definition later :: "cursor \<Rightarrow> cursor \<Rightarrow> bool" where
  "later a b = (case Compare a b of Inl _ \<Rightarrow> False | Inr order \<Rightarrow> order > 0)"

section \<open>Comparing positions of one source\<close>

locale source_order =
  fixes compare :: "'c \<Rightarrow> 'c \<Rightarrow> goerror + int"
    and src :: "'c \<Rightarrow> 's"
  assumes comparable: "is_ok (compare a b) \<longleftrightarrow> src a = src b"
    and compare_range: "compare a b = Inr i \<Longrightarrow> i \<in> {-1, 0, 1}"
    and compare_self: "compare a a = Inr 0"
    and compare_eq: "compare a b = Inr 0 \<Longrightarrow> a = b"
    and compare_flip: "compare a b = Inr i \<Longrightarrow> compare b a = Inr (- i)"
    and compare_trans: "compare a b = Inr 1 \<Longrightarrow> compare b c = Inr 1 \<Longrightarrow> compare a c = Inr 1"
begin

lemma before_antisym: "compare a b = Inr (-1) \<Longrightarrow> compare b a \<noteq> Inr (-1)"
  using compare_flip by fastforce

lemma compare_cases:
  assumes "src a = src b"
  obtains (before) "compare a b = Inr (-1)" | (same) "a = b" | (after) "compare a b = Inr 1"
proof -
  from assms obtain i where i: "compare a b = Inr i"
    using comparable by (auto simp: is_ok_iff)
  with compare_range have "i \<in> {-1, 0, 1}" by blast
  with i that compare_eq show thesis by auto
qed

text \<open>A consistent cut exists: among finitely many positions of one source one is not after any
  of the others.\<close>

lemma least_exists:
  assumes "cs \<noteq> []" and "\<And>c. c \<in> set cs \<Longrightarrow> src c = s"
  shows "\<exists>m \<in> set cs. \<forall>c \<in> set cs. compare m c \<in> {Inr (-1), Inr 0}"
  using assms
proof (induction cs rule: list_nonempty_induct)
  case (single x)
  then show ?case by (simp add: compare_self)
next
  case (cons x xs)
  then obtain m where m: "m \<in> set xs" "\<forall>c \<in> set xs. compare m c \<in> {Inr (-1), Inr 0}"
    by auto
  have "src x = src m" using cons.prems m(1) by simp
  then show ?case
  proof (cases rule: compare_cases)
    case before
    have "compare x c \<in> {Inr (-1), Inr 0}" if "c \<in> set (x # xs)" for c
    proof (cases "c = x")
      case True
      then show ?thesis by (simp add: compare_self)
    next
      case False
      with that have c: "c \<in> set xs" by simp
      with cons.prems have "src x = src c" by simp
      then show ?thesis
      proof (cases rule: compare_cases)
        case after
        have "compare m x = Inr 1" using compare_flip [OF before] by simp
        from compare_trans [OF this after] have "compare m c = Inr 1" .
        with m(2) c show ?thesis by auto
      qed (auto simp: compare_self)
    qed
    then show ?thesis by (intro bexI [of _ x]) auto
  next
    case same
    with m show ?thesis by (intro bexI [of _ m]) (auto simp: compare_self)
  next
    case after
    have "compare m x = Inr (-1)" using compare_flip [OF after] by simp
    with m show ?thesis by (intro bexI [of _ m]) auto
  qed
qed

end

lemma cursor_eqI: "cur_source a = cur_source b \<Longrightarrow> cur_lsn a = cur_lsn b \<Longrightarrow> a = (b :: cursor)"
  by simp

interpretation cursor_ord: source_order Compare cur_source
  by unfold_locales (auto simp: Compare_def is_ok_def split: if_splits)

section \<open>Lemmas\<close>

lemma later_iff: "later a b \<longleftrightarrow> cur_source a = cur_source b \<and> cur_lsn b < cur_lsn a"
  by (auto simp: later_def Compare_def)

lemma Compare_Inr_iff:
  "Compare a b = Inr i \<longleftrightarrow>
     cur_source a = cur_source b \<and>
     i = (if cur_lsn a < cur_lsn b then -1 else if cur_lsn b < cur_lsn a then 1 else 0)"
  by (auto simp: Compare_def)

text \<open>\<open>at_or_before a b\<close>: both of one source, and \<open>a\<close> does not follow \<open>b\<close>.\<close>

definition at_or_before :: "cursor \<Rightarrow> cursor \<Rightarrow> bool" where
  "at_or_before a b \<longleftrightarrow> cur_source a = cur_source b \<and> cur_lsn a \<le> cur_lsn b"

lemma at_or_before_refl [simp]: "at_or_before a a"
  by (simp add: at_or_before_def)

lemma at_or_before_trans: "at_or_before a b \<Longrightarrow> at_or_before b c \<Longrightarrow> at_or_before a c"
  by (auto simp: at_or_before_def intro: order_trans)

lemma at_or_before_antisym: "at_or_before a b \<Longrightarrow> at_or_before b a \<Longrightarrow> a = b"
  by (auto simp: at_or_before_def)

lemma at_or_before_Compare: "at_or_before a b \<longleftrightarrow> Compare a b \<in> {Inr (-1), Inr 0}"
  by (auto simp: at_or_before_def Compare_def)

lemma min_loop_Inr:
  "min_loop m cs = Inr r \<Longrightarrow> r \<in> set (m # cs) \<and> (\<forall>c \<in> set (m # cs). at_or_before r c)"
proof (induction m cs rule: min_loop.induct)
  case (1 m)
  then show ?case by simp
next
  case (2 m c cs)
  from "2.prems" obtain i where i: "Compare m c = Inr i"
    and r: "min_loop (if i > 0 then c else m) cs = Inr r"
    by (auto simp: rbind_Inr_iff)
  let ?n = "if i > 0 then c else m"
  have IH: "r \<in> set (?n # cs)" "\<forall>d \<in> set (?n # cs). at_or_before r d"
    using "2.IH" [OF r] by blast+
  from i have "at_or_before ?n m" "at_or_before ?n c"
    by (auto simp: Compare_Inr_iff at_or_before_def split: if_splits)
  moreover have "at_or_before r ?n" using IH(2) by (meson list.set_intros(1))
  ultimately have "at_or_before r m" "at_or_before r c"
    by (blast intro: at_or_before_trans)+
  moreover have "r \<in> set (m # c # cs)" using IH(1) by (auto split: if_splits)
  ultimately show ?case using IH(2) by simp
qed

lemma min_loop_ok:
  "(\<And>c. c \<in> set cs \<Longrightarrow> cur_source c = cur_source m) \<Longrightarrow> is_ok (min_loop m cs)"
proof (induction m cs rule: min_loop.induct)
  case (1 m)
  then show ?case by simp
next
  case (2 m c cs)
  then have mc: "cur_source c = cur_source m" by (meson list.set_intros(1))
  then obtain i where i: "Compare m c = Inr i"
    using cursor_ord.comparable [of m c] by (auto simp: is_ok_iff)
  have "is_ok (min_loop (if i > 0 then c else m) cs)"
  proof (rule "2.IH")
    fix d assume "d \<in> set cs"
    then have "cur_source d = cur_source m" using "2.prems" by (meson list.set_intros(2))
    with mc show "cur_source d = cur_source (if i > 0 then c else m)" by simp
  qed
  with i show ?case by simp
qed

lemma MinCursor_Inr:
  "MinCursor cs = Inr m \<Longrightarrow> m \<in> set cs \<and> (\<forall>c \<in> set cs. at_or_before m c)"
  by (cases cs) (auto dest: min_loop_Inr)

text \<open>C40: \<open>MinCursor\<close> returns \<open>m\<close> exactly when \<open>m\<close> is one of the cursors, all of them are of
  \<open>m\<close>'s source, and none is earlier than \<open>m\<close> (the consistent-cut boundary); in every other case
  it returns an error.\<close>

theorem MinCursor_consistent_cut:
  "MinCursor cs = Inr m \<longleftrightarrow> m \<in> set cs \<and> (\<forall>c \<in> set cs. at_or_before m c)"
proof
  assume "MinCursor cs = Inr m"
  then show "m \<in> set cs \<and> (\<forall>c \<in> set cs. at_or_before m c)"
    by (rule MinCursor_Inr)
next
  assume m: "m \<in> set cs \<and> (\<forall>c \<in> set cs. at_or_before m c)"
  then obtain d ds where cs: "cs = d # ds" by (cases cs) auto
  have "is_ok (min_loop d ds)"
  proof (rule min_loop_ok)
    fix c assume "c \<in> set ds"
    with m cs have "at_or_before m c" "at_or_before m d" by auto
    then show "cur_source c = cur_source d" by (simp add: at_or_before_def)
  qed
  with cs obtain r where r: "MinCursor cs = Inr r" by (auto simp: is_ok_iff)
  then have "r \<in> set cs" "\<forall>c \<in> set cs. at_or_before r c" by (auto dest: MinCursor_Inr)
  with m have "r = m" by (blast intro: at_or_before_antisym)
  with r show "MinCursor cs = Inr m" by simp
qed

theorem MinCursor_consistent_cut_witness:
  "MinCursor [\<lparr>cur_source = ''a'', cur_lsn = 7\<rparr>, \<lparr>cur_source = ''a'', cur_lsn = 3\<rparr>] =
     Inr \<lparr>cur_source = ''a'', cur_lsn = 3\<rparr>"
  by (subst MinCursor_consistent_cut) (simp add: at_or_before_def)

text \<open>A printed cursor parses back for its source, given that the LSN parser inverts the LSN
  printer.\<close>

lemma ParseCursor_cursorString:
  assumes "\<And>l. parse_lsn (lsn_string l) = Some l" and "src \<noteq> []"
  shows "ParseCursor parse_lsn src (cursorString lsn_string c) =
    Inr \<lparr>cur_source = src, cur_lsn = cur_lsn c\<rparr>"
  using assms by (simp add: ParseCursor_def cursorString_def)

lemma ParseCursor_source: "ParseCursor parse_lsn src txt = Inr c \<Longrightarrow> cur_source c = src \<and> src \<noteq> []"
  by (auto simp: ParseCursor_def split: if_splits option.splits)

lemma ParseCursor_error: "ParseCursor parse_lsn src txt = Inl e \<Longrightarrow> errors_is e ErrInvalidCursor"
  by (auto simp: ParseCursor_def split: if_splits option.splits)

text \<open>\<open>BytesAfter\<close> is exact while the distance fits a signed 64-bit integer.\<close>

lemma BytesAfter_exact:
  assumes "cur_source c = cur_source d" "cur_lsn d \<le> cur_lsn c"
    and "uint (cur_lsn c) - uint (cur_lsn d) < 2 ^ 63"
  shows "BytesAfter c d = uint (cur_lsn c) - uint (cur_lsn d)"
proof (cases "cur_lsn c = cur_lsn d")
  case True
  then show ?thesis by (simp add: BytesAfter_def)
next
  case False
  with assms(2) have "\<not> cur_lsn c \<le> cur_lsn d" by simp
  moreover have le: "uint (cur_lsn d) \<le> uint (cur_lsn c)"
    using assms(2) by (simp add: word_le_def)
  moreover have diff: "uint (cur_lsn c - cur_lsn d) = uint (cur_lsn c) - uint (cur_lsn d)"
    using assms(2) by (simp add: uint_minus_simple_alt [symmetric])
  moreover have "sint (cur_lsn c - cur_lsn d) = uint (cur_lsn c - cur_lsn d)"
    using assms(3) diff le by (simp add: sint_uint signed_take_bit_int_eq_self)
  ultimately show ?thesis using assms(1) by (simp add: BytesAfter_def)
qed

end
