(* ===== verification/Visibility.thy ===== *)
theory Visibility
  imports Cursor
begin

text \<open>
  MVCC visibility (\<open>internal/cdc/visibility.go\<close>): parsing \<open>pg_current_snapshot()\<close>'s text
  \<open>xmin:xmax:xip,...\<close>, widening a 32-bit transaction id against the snapshot, and deciding
  whether a committed transaction is in the snapshot's rows.
\<close>

section \<open>The snapshot and its text form\<close>

record visibility =
  xmin :: xid8
  xmax :: xid8
  inProgress :: "xid8 list"

text \<open>\<open>strconv.ParseUint(s, 10, 64)\<close>: decimal digits only, no sign, and a range error from
  \<open>2 ^ 64\<close> on.\<close>

definition is_digit :: "char \<Rightarrow> bool" where
  "is_digit c = (48 \<le> (of_char c :: nat) \<and> (of_char c :: nat) \<le> 57)"

definition digits_value :: "string \<Rightarrow> nat" where
  "digits_value s = foldl (\<lambda>n c. 10 * n + (of_char c - 48)) 0 s"

definition ParseUint :: "string \<Rightarrow> xid8 option" where
  "ParseUint s =
     (if s = [] \<or> \<not> list_all is_digit s then None
      else if digits_value s < 2 ^ 64 then Some (word_of_nat (digits_value s)) else None)"

definition snapshotError :: goerror where
  "snapshotError = Errorf [Sentinel ErrPostgresServer]"

text \<open>The loop over the in-progress list: every field must parse and lie in \<open>[xmin, xmax)\<close>.\<close>

fun parse_xips :: "xid8 \<Rightarrow> xid8 \<Rightarrow> string list \<Rightarrow> xid8 list \<Rightarrow> goerror + xid8 list" where
  "parse_xips lo hi [] acc = Inr acc"
| "parse_xips lo hi (f # fs) acc =
     (case ParseUint f of
        None \<Rightarrow> Inl snapshotError
      | Some xid \<Rightarrow>
          if xid < lo \<or> xid \<ge> hi then Inl snapshotError
          else parse_xips lo hi fs (List.insert xid acc))"

definition parseVisibility :: "string \<Rightarrow> goerror + visibility" where
  "parseVisibility txt =
     (case split_on CHR '':'' txt of
        [a, b, c] \<Rightarrow>
          (case ParseUint a of
             None \<Rightarrow> Inl snapshotError
           | Some lo \<Rightarrow>
               (case ParseUint b of
                  None \<Rightarrow> Inl snapshotError
                | Some hi \<Rightarrow>
                    if hi < lo then Inl snapshotError
                    else rbind (if c = [] then Inr [] else parse_xips lo hi (split_on CHR '','' c) [])
                           (\<lambda>xips. Inr \<lparr>xmin = lo, xmax = hi, inProgress = xips\<rparr>)))
      | _ \<Rightarrow> Inl snapshotError)"

section \<open>Deciding visibility\<close>

text \<open>\<open>int64(int32(xid - uint32(v.xmax)))\<close>, added to \<open>int64(v.xmax)\<close> in 64-bit arithmetic.\<close>

definition widen :: "visibility \<Rightarrow> xid \<Rightarrow> xid8" where
  "widen v xid =
     (let distance = sint (xid - ucast (xmax v));
          full = xmax v + word_of_int distance
      in if sint full < 0 then 0 else full)"

definition includes_xid :: "visibility \<Rightarrow> xid \<Rightarrow> bool" where
  "includes_xid v xid =
     (let full = widen v xid in
      if full \<ge> xmax v then False
      else if full < xmin v then True
      else full \<notin> set (inProgress v))"

section \<open>Well-formed snapshots\<close>

definition wf_visibility :: "visibility \<Rightarrow> bool" where
  "wf_visibility v \<longleftrightarrow>
     xmin v \<le> xmax v \<and> (\<forall>x \<in> set (inProgress v). xmin v \<le> x \<and> x < xmax v)"

lemma parse_xips_bounds:
  "parse_xips lo hi fs acc = Inr xs \<Longrightarrow> \<forall>x \<in> set acc. lo \<le> x \<and> x < hi \<Longrightarrow>
     \<forall>x \<in> set xs. lo \<le> x \<and> x < hi"
proof (induction lo hi fs acc rule: parse_xips.induct)
  case (1 lo hi acc)
  then show ?case by simp
next
  case (2 lo hi f fs acc)
  from "2.prems"(1) obtain y where y: "ParseUint f = Some y" "lo \<le> y" "y < hi"
    and rest: "parse_xips lo hi fs (List.insert y acc) = Inr xs"
    by (simp split: option.splits if_splits) (simp add: not_less not_le)
  have "\<forall>x \<in> set (List.insert y acc). lo \<le> x \<and> x < hi"
    using y(2,3) "2.prems"(2) by simp
  with "2.IH" [OF y(1) _ rest] y show ?case by (simp add: not_less not_le)
qed

lemma parseVisibility_wf: "parseVisibility txt = Inr v \<Longrightarrow> wf_visibility v"
  by (auto simp: parseVisibility_def wf_visibility_def rbind_Inr_iff
      split: list.splits option.splits if_splits dest: parse_xips_bounds)

lemma parseVisibility_error: "parseVisibility txt = Inl e \<Longrightarrow> e = snapshotError"
proof -
  have "parse_xips lo hi fs acc = Inl e \<Longrightarrow> e = snapshotError" for lo hi fs acc
    by (induction lo hi fs acc rule: parse_xips.induct) (auto split: option.splits if_splits)
  then show "parseVisibility txt = Inl e \<Longrightarrow> e = snapshotError"
    by (auto simp: parseVisibility_def rbind_Inl_iff split: list.splits option.splits if_splits)
qed

text \<open>A 64-bit id within \<open>2 ^ 31\<close> of the snapshot's \<open>xmax\<close>, which PostgreSQL's wraparound
  protection guarantees of every transaction the stream still delivers.\<close>

definition near_xmax :: "visibility \<Rightarrow> xid8 \<Rightarrow> bool" where
  "near_xmax v full \<longleftrightarrow>
     uint full < 2 ^ 63 \<and>
     - (2 ^ 31) \<le> uint full - uint (xmax v) \<and> uint full - uint (xmax v) < 2 ^ 31"

lemma sint_word_of_int32: "sint (word_of_int d :: xid) = signed_take_bit 31 d"
  by (simp add: sint_sbintrunc')

lemma widen_near_xmax:
  assumes "near_xmax v full"
  shows "widen v (ucast full) = full"
proof -
  let ?d = "uint full - uint (xmax v)"
  have "(ucast full :: xid) - ucast (xmax v) = word_of_int ?d"
    by (simp only: ucast_eq of_int_diff)
  moreover have "sint (word_of_int ?d :: xid) = signed_take_bit 31 ?d"
    by (rule sint_word_of_int32)
  moreover have "signed_take_bit 31 ?d = ?d"
    using assms by (intro signed_take_bit_int_eq_self) (simp_all add: near_xmax_def)
  ultimately have d: "sint ((ucast full :: xid) - ucast (xmax v)) = ?d"
    by (simp only:)
  have f: "xmax v + word_of_int ?d = full" by simp
  have "sint full = uint full"
    using assms by (simp add: near_xmax_def sint_uint signed_take_bit_int_eq_self
        order_trans [OF _ uint_ge_0])
  then have "\<not> sint full < 0" by simp
  with d f show ?thesis by (simp add: widen_def Let_def)
qed

text \<open>C36: for a snapshot that \<open>parseVisibility\<close> accepts, \<open>includes_xid\<close> decides visibility exactly:
  the transaction with 64-bit id \<open>full\<close>, known to the decoder only by its low 32 bits, is in the
  rows if and only if it precedes \<open>xmax\<close> and was not in progress.\<close>

theorem includes_exact:
  assumes "parseVisibility txt = Inr v" and "near_xmax v full"
  shows "includes_xid v (ucast full) \<longleftrightarrow> full < xmax v \<and> full \<notin> set (inProgress v)"
proof -
  have wf: "wf_visibility v" using assms(1) by (rule parseVisibility_wf)
  have "full < xmin v \<Longrightarrow> full \<notin> set (inProgress v)"
    using wf by (auto simp: wf_visibility_def)
  then show ?thesis
    using widen_near_xmax [OF assms(2)] by (auto simp: includes_xid_def Let_def)
qed

theorem includes_exact_witness:
  "includes_xid \<lparr>xmin = 4294967300, xmax = 4294967310, inProgress = [4294967305]\<rparr> (ucast (4294967304 :: xid8))
   \<and> \<not> includes_xid \<lparr>xmin = 4294967300, xmax = 4294967310, inProgress = [4294967305]\<rparr> (ucast (4294967305 :: xid8))"
proof -
  let ?v = "\<lparr>xmin = 4294967300, xmax = 4294967310, inProgress = [4294967305]\<rparr>"
  have p: "parseVisibility ''4294967300:4294967310:4294967305'' = Inr ?v"
    by (simp add: parseVisibility_def ParseUint_def is_digit_def digits_value_def)
  show ?thesis
    using includes_exact [OF p, of 4294967304] includes_exact [OF p, of 4294967305]
    by (simp add: near_xmax_def)
qed

end
