(* ===== verification/Shapes.thy ===== *)
theory Shapes
  imports Errors "HOL-Library.List_Lexorder" "HOL-Library.Char_ord"
begin

text \<open>
  Table shapes (\<open>internal/cdc/relation.go\<close>): the shape a projection spec was validated against,
  its comparison with the shape the stream presents, and the registry of baselines.

  The message type \<open>relation_msg\<close> carries the fields of \<open>pglogrepl.RelationMessage\<close> the code
  reads. A shape difference is a text for the log in the source; here \<open>difference\<close> has one
  constructor per text, and \<open>None\<close> stands for the empty string.
\<close>

section \<open>Messages and shapes\<close>

record relation_column =
  rc_flags :: "8 word"
  rc_name :: string
  rc_dataType :: oid

record relation_msg =
  rm_relationID :: oid
  rm_namespace :: string
  rm_relationName :: string
  rm_replicaIdentity :: char
  rm_columns :: "relation_column list"

record shapeColumn =
  sc_name :: string
  sc_typeOID :: oid

record relationShape =
  rs_table :: string
  rs_oid :: oid
  rs_replicaIdentity :: char
  rs_columns :: "shapeColumn list"
  rs_key :: "string list"

datatype difference =
    TableRecreated oid oid
  | ReplicaIdentityChanged char char
  | KeyColumnsChanged "string list" "string list"
  | ColumnDropped string
  | ColumnAdded string
  | ColumnDroppedOrRenamed string
  | ColumnAddedOrMoved string
  | ColumnRetyped string oid oid
  | TableRenamed string

record incompatible =
  inc_table :: string
  inc_difference :: difference

definition qualifiedTable :: "string \<Rightarrow> string \<Rightarrow> string" where
  "qualifiedTable namespace relation =
     (if namespace = [] then relation else namespace @ ''.'' @ relation)"

definition shapeOfRelation :: "relation_msg \<Rightarrow> relationShape" where
  "shapeOfRelation message =
     \<lparr>rs_table = qualifiedTable (rm_namespace message) (rm_relationName message),
      rs_oid = rm_relationID message,
      rs_replicaIdentity = rm_replicaIdentity message,
      rs_columns = map (\<lambda>c. \<lparr>sc_name = rc_name c, sc_typeOID = rc_dataType c\<rparr>) (rm_columns message),
      rs_key = sort (map rc_name (filter (\<lambda>c. rc_flags c = 1) (rm_columns message)))\<rparr>"

section \<open>Comparing shapes\<close>

text \<open>The loop over the column indexes of both shapes; \<open>actual\<close> is the whole column list of the
  shape compared with, for the \<open>slices.ContainsFunc\<close> test.\<close>

fun diff_columns ::
    "shapeColumn list \<Rightarrow> shapeColumn list \<Rightarrow> shapeColumn list \<Rightarrow> difference option" where
  "diff_columns actual [] [] = None"
| "diff_columns actual (s # ss) [] = Some (ColumnDropped (sc_name s))"
| "diff_columns actual [] (a # as) = Some (ColumnAdded (sc_name a))"
| "diff_columns actual (s # ss) (a # as) =
     (if sc_name s \<noteq> sc_name a then
        (if \<not> list_ex (\<lambda>c. sc_name c = sc_name s) actual
         then Some (ColumnDroppedOrRenamed (sc_name s))
         else Some (ColumnAddedOrMoved (sc_name a)))
      else if sc_typeOID s \<noteq> sc_typeOID a
      then Some (ColumnRetyped (sc_name s) (sc_typeOID s) (sc_typeOID a))
      else diff_columns actual ss as)"

definition diff :: "relationShape \<Rightarrow> relationShape \<Rightarrow> difference option" where
  "diff s actual =
     (if rs_oid s \<noteq> rs_oid actual then Some (TableRecreated (rs_oid s) (rs_oid actual))
      else if rs_replicaIdentity s \<noteq> rs_replicaIdentity actual
      then Some (ReplicaIdentityChanged (rs_replicaIdentity s) (rs_replicaIdentity actual))
      else if rs_key s \<noteq> rs_key actual then Some (KeyColumnsChanged (rs_key s) (rs_key actual))
      else diff_columns (rs_columns actual) (rs_columns s) (rs_columns actual))"

section \<open>The registry of baselines\<close>

record shapes =
  sh_gen :: "64 word"
  byTable :: "(string, relationShape) gomap"
  byOID :: "(oid, relationShape) gomap"

definition newShapes :: shapes where
  "newShapes = \<lparr>sh_gen = 0, byTable = [], byOID = []\<rparr>"

definition generation :: "shapes \<Rightarrow> 64 word" where
  "generation s = sh_gen s"

definition baselineByTable :: "shapes \<Rightarrow> string \<Rightarrow> relationShape option" where
  "baselineByTable s table = map_of (byTable s) table"

definition baselineByOID :: "shapes \<Rightarrow> oid \<Rightarrow> relationShape option" where
  "baselineByOID s o' = map_of (byOID s) o'"

definition recordShape :: "shapes \<Rightarrow> relationShape \<Rightarrow> shapes" where
  "recordShape s shape =
     (let install = (\<lambda>oids. s\<lparr>sh_gen := sh_gen s + 1,
                              byTable := AList.update (rs_table shape) shape (byTable s),
                              byOID := AList.update (rs_oid shape) shape oids\<rparr>)
      in case map_of (byTable s) (rs_table shape) of
           Some previous \<Rightarrow>
             if diff previous shape = None then s
             else install (AList.delete (rs_oid previous) (byOID s))
         | None \<Rightarrow> install (byOID s))"

section \<open>The difference test is exact\<close>

lemma diff_columns_None_iff: "diff_columns actual ss as = None \<longleftrightarrow> ss = as"
  by (induction actual ss as rule: diff_columns.induct) auto

lemma diff_self [simp]: "diff s s = None"
  by (simp add: diff_def diff_columns_None_iff)

lemma diff_None_iff: "diff s a = None \<longleftrightarrow> a = s\<lparr>rs_table := rs_table a\<rparr>"
  by (cases s; cases a) (auto simp: diff_def diff_columns_None_iff)

text \<open>\<open>diff\<close> misses nothing and invents nothing: it reports no difference exactly when the two
  shapes agree on the table's identity, its replica identity, its key columns and every published
  column in order with its type; only the table name is outside the comparison.\<close>

theorem diff_exact:
  "diff s a = None \<longleftrightarrow>
     rs_oid s = rs_oid a \<and> rs_replicaIdentity s = rs_replicaIdentity a \<and>
     rs_key s = rs_key a \<and> rs_columns s = rs_columns a"
  by (auto simp: diff_def diff_columns_None_iff)

section \<open>The registry's contract\<close>

text \<open>What the decoder relies on: recording a shape makes it the table's baseline and leaves the
  other tables' baselines alone, and the generation stands still exactly when nothing changed.\<close>

locale shape_registry =
  fixes gen :: "'r \<Rightarrow> 64 word"
    and table_baseline :: "'r \<Rightarrow> string \<Rightarrow> relationShape option"
    and rec_shape :: "'r \<Rightarrow> relationShape \<Rightarrow> 'r"
  assumes recorded: "\<exists>b. table_baseline (rec_shape r shape) (rs_table shape) = Some b \<and> diff b shape = None"
    and others_kept: "t \<noteq> rs_table shape \<Longrightarrow> table_baseline (rec_shape r shape) t = table_baseline r t"
    and same_generation: "gen (rec_shape r shape) = gen r \<longleftrightarrow> rec_shape r shape = r"
    and same_registry: "rec_shape r shape = r \<longleftrightarrow>
      (\<exists>b. table_baseline r (rs_table shape) = Some b \<and> diff b shape = None)"
begin

text \<open>A decoder that checked a table at the current generation need not check it again while the
  generation stands: no baseline has moved.\<close>

lemma unchanged_generation: "gen (rec_shape r shape) = gen r \<Longrightarrow> table_baseline (rec_shape r shape) t = table_baseline r t"
  using same_generation by simp

text \<open>Validating another scope of a table of the same shape disturbs nothing.\<close>

lemma revalidation_stable: "rec_shape (rec_shape r shape) shape = rec_shape r shape"
  using same_registry [of "rec_shape r shape" shape] recorded [of r shape] by blast

lemma accepts_new_shape:
  "table_baseline (rec_shape r shape) (rs_table shape) = Some b \<Longrightarrow> diff b shape = None"
  using recorded [of r shape] by auto

end

lemma word_plus_1_neq: "(w :: 64 word) + 1 \<noteq> w"
  by simp

lemma recordShape_cases:
  obtains (same) b where "baselineByTable s (rs_table shape) = Some b" "diff b shape = None"
      "recordShape s shape = s"
  | (installed) oids where
      "\<And>b. baselineByTable s (rs_table shape) = Some b \<Longrightarrow> diff b shape \<noteq> None"
      "recordShape s shape = s\<lparr>sh_gen := sh_gen s + 1,
         byTable := AList.update (rs_table shape) shape (byTable s),
         byOID := AList.update (rs_oid shape) shape oids\<rparr>"
proof (cases "map_of (byTable s) (rs_table shape)")
  case None
  then show thesis
    using installed by (simp add: recordShape_def baselineByTable_def)
next
  case (Some b)
  then show thesis
    using same installed by (cases "diff b shape") (auto simp: recordShape_def baselineByTable_def)
qed

lemma recordShape_gen: "sh_gen (recordShape s shape) = sh_gen s \<longleftrightarrow> recordShape s shape = s"
proof (cases rule: recordShape_cases [of s shape])
  case (installed oids)
  then have "sh_gen (recordShape s shape) \<noteq> sh_gen s" by simp
  then show ?thesis by auto
qed auto

interpretation shapes_registry: shape_registry generation baselineByTable recordShape
proof
  fix r shape t
  show "\<exists>b. baselineByTable (recordShape r shape) (rs_table shape) = Some b \<and> diff b shape = None"
    by (cases rule: recordShape_cases [of r shape]) (auto simp: baselineByTable_def update_conv')
  show "t \<noteq> rs_table shape \<Longrightarrow> baselineByTable (recordShape r shape) t = baselineByTable r t"
    by (cases rule: recordShape_cases [of r shape]) (auto simp: baselineByTable_def update_conv')
  show "generation (recordShape r shape) = generation r \<longleftrightarrow> recordShape r shape = r"
    by (simp add: generation_def recordShape_gen)
  show "recordShape r shape = r \<longleftrightarrow>
      (\<exists>b. baselineByTable r (rs_table shape) = Some b \<and> diff b shape = None)"
  proof (cases rule: recordShape_cases [of r shape])
    case (installed oids)
    then have "sh_gen (recordShape r shape) \<noteq> sh_gen r" by simp
    with installed(1) show ?thesis by auto
  qed auto
qed

section \<open>The index by relation id\<close>

text \<open>Every baseline is found by its relation id. A rename is only noticed through this index
  (\<open>Decoder.check\<close>).\<close>

definition oid_indexed :: "shapes \<Rightarrow> bool" where
  "oid_indexed s \<longleftrightarrow>
     (\<forall>t b. map_of (byTable s) t = Some b \<longrightarrow> rs_table b = t \<and> map_of (byOID s) (rs_oid b) = Some b)"

definition oid_fresh :: "shapes \<Rightarrow> relationShape \<Rightarrow> bool" where
  "oid_fresh s shape \<longleftrightarrow>
     (\<forall>t b. map_of (byTable s) t = Some b \<longrightarrow> t \<noteq> rs_table shape \<longrightarrow> rs_oid b \<noteq> rs_oid shape)"

text \<open>Recording a shape whose relation id no other table's baseline has keeps every baseline
  reachable by relation id.\<close>

theorem recordShape_keeps_oid_index:
  assumes "oid_indexed s" and "oid_fresh s shape"
  shows "oid_indexed (recordShape s shape)"
proof (cases "map_of (byTable s) (rs_table shape)")
  case None
  then have "map_of (byTable s) t = Some b \<Longrightarrow> rs_oid b \<noteq> rs_oid shape" for t b
    using assms(2) unfolding oid_fresh_def by (metis None option.distinct(1))
  with None assms(1) show ?thesis
    by (auto simp: oid_indexed_def recordShape_def update_conv' split: if_splits)
next
  case (Some p)
  have p: "map_of (byOID s) (rs_oid p) = Some p"
    using Some assms(1) by (auto simp: oid_indexed_def)
  have other: "map_of (byTable s) t = Some b \<Longrightarrow> t \<noteq> rs_table shape \<Longrightarrow>
      rs_oid b \<noteq> rs_oid shape \<and> rs_oid b \<noteq> rs_oid p" for t b
    using assms p Some unfolding oid_indexed_def oid_fresh_def
    by (metis option.inject)
  with Some assms(1) show ?thesis
    by (auto simp: oid_indexed_def recordShape_def update_conv' delete_conv' split: if_splits)
qed

text \<open>Two tables exchange their names: the second re-validation deletes the first table's entry in
  the index by relation id.\<close>

definition swap_shape :: "string \<Rightarrow> oid \<Rightarrow> relationShape" where
  "swap_shape t o' = \<lparr>rs_table = t, rs_oid = o', rs_replicaIdentity = CHR ''d'', rs_columns = [], rs_key = []\<rparr>"

definition swapped :: shapes where
  "swapped = foldl recordShape newShapes
     [swap_shape ''a'' 1, swap_shape ''b'' 2, swap_shape ''a'' 2, swap_shape ''b'' 1]"

theorem recordShape_keeps_oid_index_witness:
  "oid_indexed (recordShape (recordShape newShapes (swap_shape ''a'' 1)) (swap_shape ''b'' 2))"
proof (rule recordShape_keeps_oid_index)
  show "oid_indexed (recordShape newShapes (swap_shape ''a'' 1))"
    by (simp add: oid_indexed_def recordShape_def newShapes_def swap_shape_def)
  show "oid_fresh (recordShape newShapes (swap_shape ''a'' 1)) (swap_shape ''b'' 2)"
    by (simp add: oid_fresh_def recordShape_def newShapes_def swap_shape_def)
qed

text \<open>Without that condition the index loses a live baseline: table \<open>a\<close> has relation id 2 now, and
  the registry finds nothing under 2.\<close>

lemma swapped_simps:
  "baselineByTable swapped ''a'' = Some (swap_shape ''a'' 2)"
  "baselineByTable swapped ''c'' = None" "baselineByOID swapped 2 = None"
  by (simp_all add: swapped_def baselineByTable_def baselineByOID_def recordShape_def newShapes_def
      swap_shape_def diff_def)

end
