(* ===== verification/Transactions.thy ===== *)
theory Transactions
  imports Visibility Shapes
begin

text \<open>
  The data of \<open>internal/cdc/types.go\<close>: row changes and their values, committed transactions,
  projection specs, and snapshots with the test of what a snapshot already contains.
\<close>

section \<open>Changes\<close>

definition OperationInsert :: string where "OperationInsert = ''insert''"
definition OperationUpdate :: string where "OperationUpdate = ''update''"
definition OperationDelete :: string where "OperationDelete = ''delete''"

text \<open>\<open>ValueKind\<close> is a \<open>uint8\<close> with three named values; \<open>OtherKind\<close> holds the rest, which the
  conversions of \<open>internal/server\<close> refuse.\<close>

datatype valueKind = ValueNull | ValueText | ValueUnchangedToast | OtherKind "8 word"

record val =
  Kind :: valueKind
  Text :: string

definition zeroValue :: val where
  "zeroValue = \<lparr>Kind = ValueNull, Text = []\<rparr>"

definition TextValue :: "string \<Rightarrow> val" where
  "TextValue text = \<lparr>Kind = ValueText, Text = text\<rparr>"

text \<open>\<open>%d\<close> on an unsigned number.\<close>

fun format_nat :: "nat \<Rightarrow> string" where
  "format_nat n = (if n < 10 then [char_of (48 + n)] else format_nat (n div 10) @ [char_of (48 + n mod 10)])"

fun ValueKind_String :: "valueKind \<Rightarrow> string" where
  "ValueKind_String ValueNull = ''null''"
| "ValueKind_String ValueText = ''text''"
| "ValueKind_String ValueUnchangedToast = ''unchanged-toast''"
| "ValueKind_String (OtherKind k) = ''ValueKind('' @ format_nat (unat k) @ '')''"

definition Value_String :: "val \<Rightarrow> string" where
  "Value_String v = (if Kind v = ValueText then Text v else ValueKind_String (Kind v))"

declare format_nat.simps [simp del]

record change =
  Operation :: string
  Table :: string
  Key :: "(string, string) gomap"
  Columns :: "string list"
  Values :: "val list"

text \<open>\<open>Change.Value\<close>: the loop over the columns, with \<open>i\<close> the index of the head.\<close>

fun value_loop :: "val list \<Rightarrow> string \<Rightarrow> string list \<Rightarrow> nat \<Rightarrow> goerror + val \<times> bool" where
  "value_loop vs name [] i = Inr (zeroValue, False)"
| "value_loop vs name (c # cs) i =
     (if c = name then rbind (at_index vs i) (\<lambda>v. Inr (v, True)) else value_loop vs name cs (Suc i))"

definition ChangeValue :: "change \<Rightarrow> string \<Rightarrow> goerror + val \<times> bool" where
  "ChangeValue c name = value_loop (Values c) name (Columns c) 0"

section \<open>Transactions\<close>

record transaction =
  Cursor_of :: cursor
  Changes :: "change list"
  CommitTime :: gotime
  Incompatible :: "incompatible list"
  commitLSN :: lsn
  xid_of :: xid

definition sourceError :: goerror where
  "sourceError = Errorf []"

definition After :: "transaction \<Rightarrow> cursor \<Rightarrow> goerror + bool" where
  "After t c =
     (if cur_source (Cursor_of t) \<noteq> cur_source c then Inl sourceError
      else Inr (commitLSN t \<ge> cur_lsn c))"

section \<open>Projections and snapshots\<close>

record projectionSpec =
  SourceID :: string
  Schema :: string
  TableName :: string
  ScopeColumn :: string
  PrimaryKey :: "string list"

record snapshot =
  snap_sourceID :: string
  snap_cursor :: cursor
  snap_visibility :: "visibility option"

definition Covers :: "snapshot \<Rightarrow> transaction \<Rightarrow> goerror + bool" where
  "Covers s t =
     (if cur_source (Cursor_of t) \<noteq> cur_source (snap_cursor s) then Inl sourceError
      else case snap_visibility s of
             None \<Rightarrow> Inr False
           | Some v \<Rightarrow> Inr (includes_xid v (xid_of t)))"

section \<open>Lemmas\<close>

lemma value_loop_zip:
  "length vs = i + length cs \<Longrightarrow>
   value_loop vs name cs i =
     (case map_of (zip cs (drop i vs)) name of Some v \<Rightarrow> Inr (v, True) | None \<Rightarrow> Inr (zeroValue, False))"
proof (induction cs arbitrary: i)
  case (Cons c cs)
  then have i: "i < length vs" by simp
  then have "drop i vs = vs ! i # drop (Suc i) vs" by (simp add: Cons_nth_drop_Suc)
  with Cons i show ?case by simp
qed simp

text \<open>A column of a change with one value per column is looked up by its first occurrence.\<close>

lemma ChangeValue_map_of:
  "length (Values c) = length (Columns c) \<Longrightarrow>
   ChangeValue c name =
     (case map_of (zip (Columns c) (Values c)) name of
        Some v \<Rightarrow> Inr (v, True) | None \<Rightarrow> Inr (zeroValue, False))"
  by (simp add: ChangeValue_def value_loop_zip)

lemma After_Inr_iff:
  "After t c = Inr b \<longleftrightarrow> cur_source (Cursor_of t) = cur_source c \<and> b = (cur_lsn c \<le> commitLSN t)"
  by (auto simp: After_def)

lemma After_mono:
  "After t c = Inr True \<Longrightarrow> commitLSN t \<le> commitLSN t' \<Longrightarrow>
   cur_source (Cursor_of t') = cur_source (Cursor_of t) \<Longrightarrow> After t' c = Inr True"
  by (auto simp: After_Inr_iff)

end
