(* ===== verification/Decoder.thy ===== *)
theory Decoder
  imports Transactions
begin

text \<open>
  The pgoutput decoder (\<open>internal/cdc/decoder.go\<close>): relation metadata, the shape check, row and
  key decoding, and the in-flight transaction with its bounds.

  Messages carry the fields of the \<open>pglogrepl\<close> messages the decoder reads. The baselines live in
  the reader's registry, which validations change concurrently, so the decoder's four separate reads of it
  (\<open>generation\<close> in \<open>skip\<close>, then \<open>generation\<close>, \<open>baselineByOID\<close> and \<open>baselineByTable\<close> in
  \<open>check\<close>) may each see a different state: \<open>reads\<close> holds the four states seen. A decoder
  without a registry (\<open>shapes == nil\<close>) is given \<open>None\<close>.

  The capacity hint of the pending slice (\<open>pendingCapacityHint\<close>) only preallocates.
\<close>

section \<open>Messages\<close>

record tupleColumn =
  DataType :: char
  Data :: string

type_synonym tupleData = "tupleColumn list"

definition TupleDataTypeNull :: char where "TupleDataTypeNull = CHR ''n''"
definition TupleDataTypeToast :: char where "TupleDataTypeToast = CHR ''u''"
definition TupleDataTypeText :: char where "TupleDataTypeText = CHR ''t''"

lemmas tuple_types = TupleDataTypeNull_def TupleDataTypeToast_def TupleDataTypeText_def

datatype message =
    RelationMessage relation_msg
  | BeginMessage xid gotime
  | InsertMessage oid "tupleData option"
  | UpdateMessage oid "tupleData option" "tupleData option"
  | DeleteMessage oid "tupleData option"
  | CommitMessage lsn lsn
  | TypeMessage
  | OriginMessage
  | OtherMessage

record reads =
  at_skip :: shapes
  at_generation :: shapes
  at_oid :: shapes
  at_table :: shapes

text \<open>All four reads see one state: no validation ran meanwhile.\<close>

definition quiet :: "shapes \<Rightarrow> reads" where
  "quiet r = \<lparr>at_skip = r, at_generation = r, at_oid = r, at_table = r\<rparr>"

section \<open>State\<close>

record relationInfo =
  ri_table :: string
  ri_columns :: "string list"
  keyIndexes :: "nat list"
  ri_shape :: relationShape
  ri_oid :: oid
  checked :: "64 word"
  ri_incompatible :: "incompatible option"

definition defaultMaxTransactionBytes :: int where "defaultMaxTransactionBytes = 16 * 2 ^ 20"
definition defaultMaxTransactionChanges :: int where "defaultMaxTransactionChanges = 100000"
definition defaultMaxValueBytes :: int where "defaultMaxValueBytes = 2 ^ 20"

definition maxPendingCapacityHint :: nat where "maxPendingCapacityHint = 1024"

text \<open>\<open>pending\<close> is \<open>None\<close> for the nil slice: a non-nil slice, even empty, marks a transaction open.\<close>

record decoder =
  relations :: "(oid, relationInfo) gomap"
  pending :: "change list option"
  pendingXid :: xid
  pendingCommitTime :: gotime
  pendingBytes :: int
  pendingCapacityHint :: nat
  maxTransactionBytes :: int
  maxTransactionChanges :: int
  maxValueBytes :: int
  events :: "incompatible list"

definition newRelationInfo :: "relation_msg \<Rightarrow> relationInfo" where
  "newRelationInfo relation =
     \<lparr>ri_table = qualifiedTable (rm_namespace relation) (rm_relationName relation),
      ri_columns = map rc_name (rm_columns relation),
      keyIndexes = filter (\<lambda>i. rc_flags (rm_columns relation ! i) = 1) [0..<length (rm_columns relation)],
      ri_shape = shapeOfRelation relation,
      ri_oid = rm_relationID relation,
      checked = 0,
      ri_incompatible = None\<rparr>"

definition NewDecoderWithLimits :: "int \<Rightarrow> int \<Rightarrow> int \<Rightarrow> decoder" where
  "NewDecoderWithLimits mb mc mv =
     \<lparr>relations = [], pending = None, pendingXid = 0, pendingCommitTime = 0, pendingBytes = 0,
      pendingCapacityHint = 0,
      maxTransactionBytes = (if mb \<le> 0 then defaultMaxTransactionBytes else mb),
      maxTransactionChanges = (if mc \<le> 0 then defaultMaxTransactionChanges else mc),
      maxValueBytes = (if mv \<le> 0 then defaultMaxValueBytes else mv),
      events = []\<rparr>"

definition NewDecoder :: decoder where
  "NewDecoder = NewDecoderWithLimits defaultMaxTransactionBytes defaultMaxTransactionChanges
     defaultMaxValueBytes"

definition InTransaction :: "decoder \<Rightarrow> bool" where
  "InTransaction d = (pending d \<noteq> None)"

definition Pending :: "decoder \<Rightarrow> nat \<times> int" where
  "Pending d = (case pending d of None \<Rightarrow> 0 | Some cs \<Rightarrow> length cs, pendingBytes d)"

section \<open>Columns, rows and keys\<close>

definition checkColumn :: "tupleColumn \<Rightarrow> int \<Rightarrow> goerror + unit" where
  "checkColumn column maxv =
     (if DataType column = TupleDataTypeNull \<or> DataType column = TupleDataTypeToast then Inr ()
      else if DataType column = TupleDataTypeText then
        (if int (length (Data column)) > maxv then Inl (Errorf [Sentinel ErrValueTooLarge]) else Inr ())
      else Inl (Errorf [Sentinel ErrUnsupportedColumnEncoding]))"

definition checkKeyColumn :: "tupleColumn \<Rightarrow> int \<Rightarrow> goerror + unit" where
  "checkKeyColumn column maxv =
     (if DataType column \<noteq> TupleDataTypeText then Inl (Errorf [Sentinel ErrUnsupportedColumnEncoding])
      else if Data column = [] then Inl (Errorf [])
      else if int (length (Data column)) > maxv then Inl (Errorf [Sentinel ErrValueTooLarge])
      else Inr ())"

text \<open>\<open>wrap\<close> is \<open>fmt.Errorf("...: %w", err)\<close>.\<close>

definition wrap :: "goerror + 'a \<Rightarrow> goerror + 'a" where
  "wrap r = (case r of Inl e \<Rightarrow> Inl (Errorf [e]) | Inr x \<Rightarrow> Inr x)"

fun checkRow_loop :: "tupleColumn list \<Rightarrow> int \<Rightarrow> nat \<Rightarrow> goerror + nat" where
  "checkRow_loop [] maxv textBytes = Inr textBytes"
| "checkRow_loop (c # cs) maxv textBytes =
     rbind (wrap (checkColumn c maxv)) (\<lambda>_. checkRow_loop cs maxv (textBytes + length (Data c)))"

definition checkRow :: "relationInfo \<Rightarrow> tupleData \<Rightarrow> int \<Rightarrow> goerror + nat" where
  "checkRow info columns maxv =
     (if length columns \<noteq> length (ri_columns info) then Inl (Errorf [])
      else checkRow_loop columns maxv 0)"

text \<open>\<open>text[offset:end]\<close>, which panics when the bounds are out of range.\<close>

definition slice :: "string \<Rightarrow> nat \<Rightarrow> nat \<Rightarrow> goerror + string" where
  "slice text offset e =
     (if offset \<le> e \<and> e \<le> length text then Inr (take (e - offset) (drop offset text)) else Inl (Sentinel RuntimePanic))"

fun row_values :: "string \<Rightarrow> tupleColumn list \<Rightarrow> nat \<Rightarrow> goerror + val list" where
  "row_values text [] offset = Inr []"
| "row_values text (c # cs) offset =
     (if DataType c = TupleDataTypeText then
        (let e = offset + length (Data c)
         in rbind (slice text offset e) (\<lambda>part. rbind (row_values text cs e) (\<lambda>vals. Inr (TextValue part # vals))))
      else if DataType c = TupleDataTypeToast then
        rbind (row_values text cs offset) (\<lambda>vals. Inr (zeroValue\<lparr>Kind := ValueUnchangedToast\<rparr> # vals))
      else rbind (row_values text cs offset) (\<lambda>vals. Inr (zeroValue # vals)))"

definition decodeRow :: "relationInfo \<Rightarrow> tupleData option \<Rightarrow> int \<Rightarrow> goerror + val list" where
  "decodeRow info tuple maxv =
     (case tuple of
        None \<Rightarrow> Inl (Errorf [])
      | Some columns \<Rightarrow> rbind (checkRow info columns maxv) (\<lambda>_.
          let text = concat (map Data (filter (\<lambda>c. DataType c = TupleDataTypeText) columns))
          in row_values text columns 0))"

fun keyFromValues_loop ::
    "relationInfo \<Rightarrow> val list \<Rightarrow> nat list \<Rightarrow> (string, string) gomap \<Rightarrow> goerror + (string, string) gomap" where
  "keyFromValues_loop info vals [] key = Inr key"
| "keyFromValues_loop info vals (i # is) key =
     rbind (at_index vals i) (\<lambda>v.
       if Kind v \<noteq> ValueText \<or> Text v = [] then Inl (Errorf [])
       else rbind (at_index (ri_columns info) i) (\<lambda>name.
         keyFromValues_loop info vals is (AList.update name (Text v) key)))"

definition keyFromValues :: "relationInfo \<Rightarrow> val list \<Rightarrow> goerror + (string, string) gomap" where
  "keyFromValues info vals =
     (if keyIndexes info = [] then Inl (Errorf [])
      else keyFromValues_loop info vals (keyIndexes info) [])"

fun checkKey_full :: "tupleData \<Rightarrow> nat list \<Rightarrow> goerror + unit" where
  "checkKey_full columns [] = Inr ()"
| "checkKey_full columns (i # is) =
     rbind (at_index columns i) (\<lambda>c.
       if DataType c \<noteq> TupleDataTypeText \<or> Data c = [] then Inl (Errorf [])
       else checkKey_full columns is)"

fun checkKey_only :: "tupleColumn list \<Rightarrow> int \<Rightarrow> goerror + unit" where
  "checkKey_only [] maxv = Inr ()"
| "checkKey_only (c # cs) maxv =
     rbind (wrap (checkKeyColumn c maxv)) (\<lambda>_. checkKey_only cs maxv)"

definition checkKeyTuple :: "relationInfo \<Rightarrow> tupleData option \<Rightarrow> int \<Rightarrow> goerror + unit" where
  "checkKeyTuple info tuple maxv =
     (case tuple of
        None \<Rightarrow> Inl (Errorf [])
      | Some columns \<Rightarrow>
          if keyIndexes info = [] then Inl (Errorf [])
          else if length columns = length (ri_columns info) then
            rbind (checkRow info columns maxv) (\<lambda>_. checkKey_full columns (keyIndexes info))
          else if length columns = length (keyIndexes info) then checkKey_only columns maxv
          else Inl (Errorf []))"

definition keyColumn :: "relationInfo \<Rightarrow> tupleData \<Rightarrow> nat \<Rightarrow> goerror + tupleColumn" where
  "keyColumn info columns k =
     (if length columns = length (ri_columns info)
      then rbind (at_index (keyIndexes info) k) (at_index columns)
      else at_index columns k)"

text \<open>\<open>keyFromTuple\<close>: the key columns' texts in one string, then the key entries as slices of it.\<close>

fun key_entries ::
    "relationInfo \<Rightarrow> tupleData \<Rightarrow> string \<Rightarrow> nat \<Rightarrow> nat list \<Rightarrow> nat \<Rightarrow> (string, string) gomap
      \<Rightarrow> goerror + (string, string) gomap" where
  "key_entries info columns text k [] offset key = Inr key"
| "key_entries info columns text k (i # is) offset key =
     rbind (keyColumn info columns k) (\<lambda>c.
       let e = offset + length (Data c) in
       rbind (at_index (ri_columns info) i) (\<lambda>name.
       rbind (slice text offset e) (\<lambda>part.
         key_entries info columns text (Suc k) is e (AList.update name part key))))"

definition keyFromTuple :: "relationInfo \<Rightarrow> tupleData \<Rightarrow> goerror + (string, string) gomap" where
  "keyFromTuple info columns =
     rbind (rmap (keyColumn info columns) [0..<length (keyIndexes info)]) (\<lambda>cs.
       key_entries info columns (concat (map Data cs)) 0 (keyIndexes info) 0 [])"

section \<open>The bounds of a transaction\<close>

definition estimatedValueBytes :: "val \<Rightarrow> int" where
  "estimatedValueBytes v = (if Kind v = ValueText then int (length (Text v)) else 1)"

definition changeOverhead :: int where "changeOverhead = 256"

fun estimated_values :: "string list \<Rightarrow> val list \<Rightarrow> nat \<Rightarrow> int \<Rightarrow> goerror + int" where
  "estimated_values columns [] i bytes = Inr bytes"
| "estimated_values columns (v # vs) i bytes =
     rbind (at_index columns i) (\<lambda>c.
       estimated_values columns vs (Suc i) (bytes + int (length c) + estimatedValueBytes v))"

definition estimatedChangeBytes :: "change \<Rightarrow> goerror + int" where
  "estimatedChangeBytes ch =
     estimated_values (Columns ch) (Values ch) 0
       (foldl (\<lambda>b (k, v). b + int (length k) + int (length v))
          (changeOverhead + int (length (Operation ch)) + int (length (Table ch))) (Key ch))"

definition append_change :: "decoder \<Rightarrow> change \<Rightarrow> goerror + decoder" where
  "append_change d ch =
     (case pending d of
        None \<Rightarrow> Inl (Sentinel ErrNoTransaction)
      | Some cs \<Rightarrow>
          if int (length cs) \<ge> maxTransactionChanges d
          then Inl (Sentinel ErrTransactionTooManyChanges)
          else rbind (estimatedChangeBytes ch) (\<lambda>changeBytes.
            if changeBytes > maxTransactionBytes d - pendingBytes d
            then Inl (Sentinel ErrTransactionTooLarge)
            else Inr (d\<lparr>pending := Some (cs @ [ch]), pendingBytes := pendingBytes d + changeBytes\<rparr>)))"

section \<open>The shape check\<close>

definition report :: "incompatible list \<Rightarrow> incompatible \<Rightarrow> incompatible list" where
  "report evs ev = (if list_ex (\<lambda>e. inc_table e = inc_table ev) evs then evs else evs @ [ev])"

definition check ::
    "reads option \<Rightarrow> relationInfo \<Rightarrow> incompatible list \<Rightarrow> relationInfo \<times> incompatible list" where
  "check regs info evs =
     (case regs of
        None \<Rightarrow> (info, evs)
      | Some r \<Rightarrow>
          (let info1 = info\<lparr>checked := generation (at_generation r), ri_incompatible := None\<rparr>;
               evs1 = (case baselineByOID (at_oid r) (ri_oid info) of
                   Some renamed \<Rightarrow>
                     if rs_table renamed \<noteq> ri_table info
                     then report evs \<lparr>inc_table = rs_table renamed, inc_difference = TableRenamed (ri_table info)\<rparr>
                     else evs
                 | None \<Rightarrow> evs)
           in case baselineByTable (at_table r) (ri_table info) of
                None \<Rightarrow> (info1, evs1)
              | Some baseline \<Rightarrow>
                  (case diff baseline (ri_shape info) of
                     None \<Rightarrow> (info1, evs1)
                   | Some difference \<Rightarrow>
                       (let e = \<lparr>inc_table = ri_table info, inc_difference = difference\<rparr>
                        in (info1\<lparr>ri_incompatible := Some e\<rparr>, report evs1 e)))))"

definition relation :: "decoder \<Rightarrow> oid \<Rightarrow> goerror + relationInfo" where
  "relation d i = (case map_of (relations d) i of
     None \<Rightarrow> Inl (Errorf [Sentinel ErrUnknownRelation]) | Some info \<Rightarrow> Inr info)"

text \<open>\<open>check\<close> on a registered relation writes through the pointer held in \<open>relations\<close>.\<close>

definition check_relation :: "reads option \<Rightarrow> decoder \<Rightarrow> oid \<Rightarrow> relationInfo \<Rightarrow> decoder" where
  "check_relation regs d i info =
     (let (info', evs) = check regs info (events d)
      in d\<lparr>relations := AList.update i info' (relations d), events := evs\<rparr>)"

definition skip :: "reads option \<Rightarrow> decoder \<Rightarrow> oid \<Rightarrow> decoder \<times> (goerror + bool)" where
  "skip regs d i =
     (case relation d i of
        Inl e \<Rightarrow> (d, Inl e)
      | Inr info \<Rightarrow>
          (let d' = (case regs of
               Some r \<Rightarrow> if checked info \<noteq> generation (at_skip r) then check_relation regs d i info else d
             | None \<Rightarrow> d)
           in (d', rbind (relation d' i) (\<lambda>info'. Inr (ri_incompatible info' \<noteq> None)))))"

section \<open>Row messages\<close>

definition insert_row :: "decoder \<Rightarrow> oid \<Rightarrow> tupleData option \<Rightarrow> goerror + change" where
  "insert_row d i tuple =
     rbind (relation d i) (\<lambda>info.
     rbind (decodeRow info tuple (maxValueBytes d)) (\<lambda>vals.
     rbind (keyFromValues info vals) (\<lambda>key.
     Inr \<lparr>Operation = OperationInsert, Table = ri_table info, Key = key,
          Columns = ri_columns info, Values = vals\<rparr>)))"

fun same_key :: "relationInfo \<Rightarrow> tupleData \<Rightarrow> val list \<Rightarrow> nat \<Rightarrow> nat list \<Rightarrow> goerror + unit" where
  "same_key info columns vals k [] = Inr ()"
| "same_key info columns vals k (i # is) =
     rbind (keyColumn info columns k) (\<lambda>c.
     rbind (at_index vals i) (\<lambda>v.
       if Data c \<noteq> Text v then Inl (Sentinel ErrPrimaryKeyChangeUnsupported)
       else same_key info columns vals (Suc k) is))"

definition update_row :: "decoder \<Rightarrow> oid \<Rightarrow> tupleData option \<Rightarrow> tupleData option \<Rightarrow> goerror + change" where
  "update_row d i oldTuple newTuple =
     rbind (relation d i) (\<lambda>info.
     rbind (decodeRow info newTuple (maxValueBytes d)) (\<lambda>vals.
     rbind (keyFromValues info vals) (\<lambda>key.
     rbind (case oldTuple of
              None \<Rightarrow> Inr ()
            | Some columns \<Rightarrow> rbind (checkKeyTuple info oldTuple (maxValueBytes d)) (\<lambda>_.
                same_key info columns vals 0 (keyIndexes info))) (\<lambda>_.
     Inr \<lparr>Operation = OperationUpdate, Table = ri_table info, Key = key,
          Columns = ri_columns info, Values = vals\<rparr>))))"

definition delete_row :: "decoder \<Rightarrow> oid \<Rightarrow> tupleData option \<Rightarrow> goerror + change" where
  "delete_row d i oldTuple =
     rbind (relation d i) (\<lambda>info.
     rbind (checkKeyTuple info oldTuple (maxValueBytes d)) (\<lambda>_.
     rbind (case oldTuple of
              None \<Rightarrow> Inl (Sentinel RuntimePanic)
            | Some columns \<Rightarrow> keyFromTuple info columns) (\<lambda>key.
     Inr \<lparr>Operation = OperationDelete, Table = ri_table info, Key = key, Columns = [], Values = []\<rparr>)))"

section \<open>Consume\<close>

text \<open>The three row cases of \<open>Consume\<close> share this frame: skip an incompatible relation, decode,
  append.\<close>

definition consume_row ::
    "reads option \<Rightarrow> decoder \<Rightarrow> oid \<Rightarrow> (decoder \<Rightarrow> goerror + change)
      \<Rightarrow> decoder \<times> (goerror + transaction option)" where
  "consume_row regs d i decode =
     (case skip regs d i of
        (d1, Inl e) \<Rightarrow> (d1, Inl e)
      | (d1, Inr True) \<Rightarrow> (d1, Inr None)
      | (d1, Inr False) \<Rightarrow>
          (case rbind (decode d1) (append_change d1) of
             Inl e \<Rightarrow> (d1, Inl e)
           | Inr d2 \<Rightarrow> (d2, Inr None)))"

definition commit_transaction :: "decoder \<Rightarrow> change list \<Rightarrow> lsn \<Rightarrow> lsn \<Rightarrow> transaction" where
  "commit_transaction d changes commit_lsn end_lsn =
     \<lparr>Cursor_of = \<lparr>cur_source = [], cur_lsn = end_lsn\<rparr>, Changes = changes,
      CommitTime = pendingCommitTime d, Incompatible = events d,
      commitLSN = commit_lsn, xid_of = pendingXid d\<rparr>"

fun Consume :: "reads option \<Rightarrow> decoder \<Rightarrow> message \<Rightarrow> decoder \<times> (goerror + transaction option)" where
  "Consume regs d (RelationMessage m) =
     (check_relation regs d (rm_relationID m) (newRelationInfo m), Inr None)"
| "Consume regs d (BeginMessage x t) =
     (if pending d \<noteq> None then (d, Inl (Sentinel ErrTransactionInProgress))
      else (d\<lparr>pending := Some [], pendingXid := x, pendingCommitTime := t, pendingBytes := 0\<rparr>, Inr None))"
| "Consume regs d (InsertMessage i tuple) = consume_row regs d i (\<lambda>d'. insert_row d' i tuple)"
| "Consume regs d (UpdateMessage i old new) = consume_row regs d i (\<lambda>d'. update_row d' i old new)"
| "Consume regs d (DeleteMessage i old) = consume_row regs d i (\<lambda>d'. delete_row d' i old)"
| "Consume regs d (CommitMessage commit_lsn end_lsn) =
     (case pending d of
        None \<Rightarrow> (d, Inl (Sentinel ErrNoTransaction))
      | Some changes \<Rightarrow>
          (d\<lparr>pendingCapacityHint := min (length changes) maxPendingCapacityHint,
             events := [], pending := None, pendingBytes := 0\<rparr>,
           Inr (Some (commit_transaction d changes commit_lsn end_lsn))))"
| "Consume regs d TypeMessage = (d, Inr None)"
| "Consume regs d OriginMessage = (d, Inr None)"
| "Consume regs d OtherMessage = (d, Inl (Errorf [Sentinel ErrUnsupportedPGOutputMessage]))"

text \<open>A run over a stream of messages: the transactions emitted, until the first error.\<close>

fun consume_all ::
    "decoder \<Rightarrow> (reads option \<times> message) list \<Rightarrow> decoder \<times> transaction list \<times> goerror option" where
  "consume_all d [] = (d, [], None)"
| "consume_all d ((regs, m) # ms) =
     (case Consume regs d m of
        (d', Inl e) \<Rightarrow> (d', [], Some e)
      | (d', Inr t) \<Rightarrow>
          (let (d'', ts, e) = consume_all d' ms
           in (d'', (case t of None \<Rightarrow> ts | Some x \<Rightarrow> x # ts), e)))"

end
