(* ===== verification/Decoder_Rows.thy ===== *)
theory Decoder_Rows
  imports Decoder
begin

text \<open>
  What the row and key routines of the decoder compute: the one-string-per-row slicing equals
  decoding column by column, and a row has one key, however PostgreSQL presents it.
\<close>

section \<open>Panics\<close>

definition no_panic :: "goerror + 'a \<Rightarrow> bool" where
  "no_panic r = (case r of Inl e \<Rightarrow> \<not> errors_is e RuntimePanic | Inr _ \<Rightarrow> True)"

lemma no_panic_simps [simp]:
  "no_panic (Inr x)"
  "no_panic (Inl e) = (\<not> errors_is e RuntimePanic)"
  "no_panic (wrap r) = no_panic r"
  "i < length xs \<Longrightarrow> no_panic (at_index xs i)"
  by (auto simp: no_panic_def wrap_def split: sum.splits)

lemma no_panic_rbind: "no_panic m \<Longrightarrow> (\<And>x. m = Inr x \<Longrightarrow> no_panic (f x)) \<Longrightarrow> no_panic (rbind m f)"
  by (cases m) auto

lemma wrap_Inr_iff [simp]: "wrap r = Inr x \<longleftrightarrow> r = Inr x"
  by (auto simp: wrap_def split: sum.splits)

section \<open>Rows\<close>

definition column_ok :: "int \<Rightarrow> tupleColumn \<Rightarrow> bool" where
  "column_ok maxv c \<longleftrightarrow> DataType c = TupleDataTypeNull \<or> DataType c = TupleDataTypeToast \<or>
     DataType c = TupleDataTypeText \<and> int (length (Data c)) \<le> maxv"

definition column_value :: "tupleColumn \<Rightarrow> val" where
  "column_value c =
     (if DataType c = TupleDataTypeText then TextValue (Data c)
      else if DataType c = TupleDataTypeToast then \<lparr>Kind = ValueUnchangedToast, Text = []\<rparr>
      else zeroValue)"

lemma checkColumn_Inr_iff: "checkColumn c maxv = Inr u \<longleftrightarrow> column_ok maxv c"
  by (auto simp: checkColumn_def column_ok_def tuple_types)

lemma checkColumn_no_panic [simp]: "no_panic (checkColumn c maxv)"
  by (auto simp: checkColumn_def)

lemma checkRow_loop_Inr_iff:
  "(\<exists>n. checkRow_loop cs maxv n0 = Inr n) \<longleftrightarrow> list_all (column_ok maxv) cs"
  by (induction cs arbitrary: n0) (auto simp: rbind_Inr_iff checkColumn_Inr_iff)

lemma checkRow_loop_no_panic [simp]: "no_panic (checkRow_loop cs maxv n)"
  by (induction cs arbitrary: n) (auto intro: no_panic_rbind)

lemma checkRow_no_panic [simp]: "no_panic (checkRow info cs maxv)"
  by (auto simp: checkRow_def)

lemma checkRow_Inr_iff:
  "(\<exists>n. checkRow info cs maxv = Inr n) \<longleftrightarrow>
     length cs = length (ri_columns info) \<and> list_all (column_ok maxv) cs"
  by (auto simp: checkRow_def checkRow_loop_Inr_iff)

lemma slice_middle [simp]: "slice (pre @ s @ post) (length pre) (length pre + length s) = Inr s"
  by (simp add: slice_def)

lemma row_values_column_values:
  "row_values (pre @ concat (map Data (filter (\<lambda>c. DataType c = TupleDataTypeText) cs))) cs (length pre)
     = Inr (map column_value cs)"
proof (induction cs arbitrary: pre)
  case (Cons c cs)
  show ?case
  proof (cases "DataType c = TupleDataTypeText")
    case True
    then show ?thesis
      using Cons [of "pre @ Data c"] by (simp add: column_value_def Let_def)
  next
    case False
    then show ?thesis
      using Cons [of pre] by (simp add: column_value_def zeroValue_def)
  qed
qed simp

text \<open>One string per row, with every value a slice of it, decodes exactly what decoding each
  column on its own would; a row is accepted exactly when it has the relation's number of columns,
  each NULL, unchanged TOAST, or a text within the value limit.\<close>

theorem decodeRow_exact:
  "decodeRow info (Some cs) maxv = Inr vals \<longleftrightarrow>
     length cs = length (ri_columns info) \<and> list_all (column_ok maxv) cs \<and> vals = map column_value cs"
proof -
  have "decodeRow info (Some cs) maxv = Inr vals \<longleftrightarrow>
      (\<exists>n. checkRow info cs maxv = Inr n) \<and> vals = map column_value cs"
    using row_values_column_values [of "[]" cs]
    by (auto simp: decodeRow_def rbind_Inr_iff)
  then show ?thesis by (auto simp: checkRow_Inr_iff)
qed

lemma decodeRow_Inr_iff:
  "decodeRow info tuple maxv = Inr vals \<longleftrightarrow>
     (\<exists>cs. tuple = Some cs \<and> length cs = length (ri_columns info) \<and>
        list_all (column_ok maxv) cs \<and> vals = map column_value cs)"
  using row_values_column_values [of "[]"] checkRow_Inr_iff [of info _ maxv]
  by (cases tuple) (auto simp: decodeRow_def rbind_Inr_iff)

lemma decodeRow_no_panic [simp]: "no_panic (decodeRow info tuple maxv)"
  using row_values_column_values [of "[]"]
  by (cases tuple) (auto simp: decodeRow_def Let_def intro: no_panic_rbind)

section \<open>Keys\<close>

definition wf_info :: "relationInfo \<Rightarrow> bool" where
  "wf_info info \<longleftrightarrow> list_all (\<lambda>i. i < length (ri_columns info)) (keyIndexes info) \<and>
     sorted_wrt (<) (keyIndexes info)"

lemma newRelationInfo_wf [simp]: "wf_info (newRelationInfo m)"
  by (simp add: wf_info_def newRelationInfo_def list_all_iff sorted_wrt_filter)

definition key_map :: "relationInfo \<Rightarrow> (nat \<Rightarrow> string) \<Rightarrow> (string, string) gomap" where
  "key_map info f = foldl (\<lambda>key i. AList.update (ri_columns info ! i) (f i) key) [] (keyIndexes info)"

lemma keyFromValues_loop_Inr_iff:
  assumes "list_all (\<lambda>i. i < length (ri_columns info)) js" "length vals = length (ri_columns info)"
  shows "keyFromValues_loop info vals js key = Inr key' \<longleftrightarrow>
     list_all (\<lambda>i. Kind (vals ! i) = ValueText \<and> Text (vals ! i) \<noteq> []) js \<and>
     key' = foldl (\<lambda>key i. AList.update (ri_columns info ! i) (Text (vals ! i)) key) key js"
  using assms by (induction js arbitrary: key) auto

lemma keyFromValues_loop_no_panic:
  assumes "list_all (\<lambda>i. i < length (ri_columns info)) js" "length vals = length (ri_columns info)"
  shows "no_panic (keyFromValues_loop info vals js key)"
  using assms by (induction js arbitrary: key) auto

lemma keyFromValues_Inr_iff:
  assumes "wf_info info" "length vals = length (ri_columns info)"
  shows "keyFromValues info vals = Inr key \<longleftrightarrow> keyIndexes info \<noteq> [] \<and>
     list_all (\<lambda>i. Kind (vals ! i) = ValueText \<and> Text (vals ! i) \<noteq> []) (keyIndexes info) \<and>
     key = key_map info (\<lambda>i. Text (vals ! i))"
  using assms keyFromValues_loop_Inr_iff [of info "keyIndexes info" vals "[]" key]
  by (auto simp: keyFromValues_def key_map_def wf_info_def)

lemma keyFromValues_no_panic:
  "wf_info info \<Longrightarrow> length vals = length (ri_columns info) \<Longrightarrow> no_panic (keyFromValues info vals)"
  by (auto simp: keyFromValues_def wf_info_def keyFromValues_loop_no_panic)

text \<open>A tuple that \<open>checkKeyTuple\<close> accepts: its \<open>k\<close>-th key column.\<close>

definition key_column :: "relationInfo \<Rightarrow> tupleData \<Rightarrow> nat \<Rightarrow> tupleColumn" where
  "key_column info cs k =
     (if length cs = length (ri_columns info) then cs ! (keyIndexes info ! k) else cs ! k)"

definition key_tuple_length :: "relationInfo \<Rightarrow> tupleData \<Rightarrow> bool" where
  "key_tuple_length info cs \<longleftrightarrow>
     length cs = length (ri_columns info) \<or> length cs = length (keyIndexes info)"

lemma keyColumn_eq:
  assumes "wf_info info" "key_tuple_length info cs" "k < length (keyIndexes info)"
  shows "keyColumn info cs k = Inr (key_column info cs k)"
  using assms by (auto simp: keyColumn_def key_column_def wf_info_def key_tuple_length_def list_all_length)

lemma key_entries_eq:
  assumes "wf_info info" "key_tuple_length info cs" "keyIndexes info = pre @ js"
    and "text = t0 @ concat (map (\<lambda>k. Data (key_column info cs k)) [length pre..<length (keyIndexes info)])"
  shows "key_entries info cs text (length pre) js (length t0) key =
     Inr (foldl (\<lambda>key (k, i). AList.update (ri_columns info ! i) (Data (key_column info cs k)) key) key
        (zip [length pre..<length (keyIndexes info)] js))"
  using assms(3,4)
proof (induction js arbitrary: pre t0 key)
  case (Cons i js)
  let ?k = "length pre" and ?n = "length (keyIndexes info)"
  let ?c = "key_column info cs ?k"
  have k: "?k < ?n" using Cons.prems by simp
  then have up: "[?k..<?n] = ?k # [Suc ?k..<?n]" by (rule upt_conv_Cons)
  have i: "i < length (ri_columns info)"
    using assms(1) Cons.prems(1) by (simp add: wf_info_def)
  have teq: "text = (t0 @ Data ?c) @ concat (map (\<lambda>k. Data (key_column info cs k)) [Suc ?k..<?n])"
    using Cons.prems(2) up by simp
  have sl: "slice text (length t0) (length t0 + length (Data ?c)) = Inr (Data ?c)"
    using teq by simp
  have IH: "key_entries info cs text (length (pre @ [i])) js (length (t0 @ Data ?c)) key'
      = Inr (foldl (\<lambda>key (k, i). AList.update (ri_columns info ! i) (Data (key_column info cs k)) key) key'
        (zip [length (pre @ [i])..<?n] js))" for key'
    by (rule Cons.IH) (use Cons.prems(1) teq in simp_all)
  have IH': "key_entries info cs text (Suc ?k) js (length t0 + length (Data ?c)) key'
      = Inr (foldl (\<lambda>key (k, i). AList.update (ri_columns info ! i) (Data (key_column info cs k)) key) key'
        (zip [Suc ?k..<?n] js))" for key'
    using IH [of key'] by simp
  show ?case
    by (simp only: key_entries.simps keyColumn_eq [OF assms(1,2) k] rbind_simps Let_def
        at_index_Inr [OF i] sl IH' up zip_Cons_Cons foldl_Cons prod.case)
qed simp

lemma foldl_zip_upt:
  "foldl (\<lambda>key (k, i). f k i key) key (zip [n..<n + length js] js) =
   foldl (\<lambda>key k. f (n + k) (js ! k) key) key [0..<length js]"
proof -
  have "zip [n..<n + length js] js = map (\<lambda>k. (n + k, js ! k)) [0..<length js]"
    by (rule nth_equalityI) auto
  then show ?thesis by (simp add: foldl_map)
qed

text \<open>The key as a map from the position of each key column.\<close>

lemma keyFromTuple_eq:
  assumes "wf_info info" "key_tuple_length info cs"
  shows "keyFromTuple info cs = Inr (foldl (\<lambda>key k.
     AList.update (ri_columns info ! (keyIndexes info ! k)) (Data (key_column info cs k)) key) []
       [0..<length (keyIndexes info)])"
proof -
  let ?ks = "[0..<length (keyIndexes info)]"
  have "rmap (keyColumn info cs) ?ks = Inr (map (key_column info cs) ?ks)"
    by (rule rmap_ok) (simp add: keyColumn_eq assms)
  moreover have "key_entries info cs (concat (map Data (map (key_column info cs) ?ks))) 0 (keyIndexes info) 0 []
     = Inr (foldl (\<lambda>key (k, i). AList.update (ri_columns info ! i) (Data (key_column info cs k)) key) []
        (zip ?ks (keyIndexes info)))"
    using key_entries_eq [OF assms, of "[]" "keyIndexes info" _ "[]" "[]"] by (simp add: comp_def)
  ultimately show ?thesis
    using foldl_zip_upt [of "\<lambda>k i. AList.update (ri_columns info ! i) (Data (key_column info cs k))" "[]" 0 "keyIndexes info"]
    by (simp add: keyFromTuple_def)
qed

lemma key_map_positions:
  "key_map info f = foldl (\<lambda>key k. AList.update (ri_columns info ! (keyIndexes info ! k))
      (f (keyIndexes info ! k)) key) [] [0..<length (keyIndexes info)]"
proof -
  have "key_map info f = foldl (\<lambda>key i. AList.update (ri_columns info ! i) (f i) key) []
      (map ((!) (keyIndexes info)) [0..<length (keyIndexes info)])"
    by (simp add: key_map_def map_nth)
  then show ?thesis by (simp add: foldl_map)
qed

lemma keyFromTuple_key_map:
  assumes "wf_info info" "key_tuple_length info cs"
    and "\<And>k. k < length (keyIndexes info) \<Longrightarrow> Data (key_column info cs k) = f (keyIndexes info ! k)"
  shows "keyFromTuple info cs = Inr (key_map info f)"
proof -
  have "foldl (\<lambda>key k. AList.update (ri_columns info ! (keyIndexes info ! k)) (Data (key_column info cs k)) key) [] ks
     = foldl (\<lambda>key k. AList.update (ri_columns info ! (keyIndexes info ! k)) (f (keyIndexes info ! k)) key) [] ks"
    if "set ks \<subseteq> {0..<length (keyIndexes info)}" for ks
    using that assms(3) by (intro foldl_cong) auto
  from this [of "[0..<length (keyIndexes info)]"] show ?thesis
    by (simp add: keyFromTuple_eq [OF assms(1,2)] key_map_positions)
qed

section \<open>Old-row tuples\<close>

definition key_text :: "int \<Rightarrow> tupleColumn \<Rightarrow> bool" where
  "key_text maxv c \<longleftrightarrow>
     DataType c = TupleDataTypeText \<and> Data c \<noteq> [] \<and> int (length (Data c)) \<le> maxv"

lemma checkKey_full_Inr_iff:
  "list_all (\<lambda>i. i < length cs) js \<Longrightarrow> checkKey_full cs js = Inr u \<longleftrightarrow>
     list_all (\<lambda>i. DataType (cs ! i) = TupleDataTypeText \<and> Data (cs ! i) \<noteq> []) js"
  by (induction js) auto

lemma checkKey_full_no_panic: "list_all (\<lambda>i. i < length cs) js \<Longrightarrow> no_panic (checkKey_full cs js)"
  by (induction js) auto

lemma checkKey_only_Inr_iff: "checkKey_only cs maxv = Inr u \<longleftrightarrow> list_all (key_text maxv) cs"
  by (induction cs) (auto simp: rbind_Inr_iff checkKeyColumn_def key_text_def split: if_splits)

lemma checkKey_only_no_panic [simp]: "no_panic (checkKey_only cs maxv)"
  by (induction cs) (auto simp: checkKeyColumn_def intro!: no_panic_rbind)

lemma checkKeyTuple_no_panic: "wf_info info \<Longrightarrow> no_panic (checkKeyTuple info tuple maxv)"
  by (cases tuple)
    (auto simp: checkKeyTuple_def wf_info_def intro!: no_panic_rbind checkKey_full_no_panic)

lemma column_ok_key_text:
  "column_ok maxv c \<Longrightarrow> DataType c = TupleDataTypeText \<Longrightarrow> Data c \<noteq> [] \<Longrightarrow> key_text maxv c"
  by (auto simp: column_ok_def key_text_def tuple_types)

lemma checkKeyTuple_Inr:
  assumes "wf_info info" "checkKeyTuple info tuple maxv = Inr u"
  obtains cs where "tuple = Some cs" "key_tuple_length info cs" "keyIndexes info \<noteq> []"
    "\<And>k. k < length (keyIndexes info) \<Longrightarrow> key_text maxv (key_column info cs k)"
proof -
  obtain cs where cs: "tuple = Some cs" "keyIndexes info \<noteq> []"
    using assms(2) by (auto simp: checkKeyTuple_def split: option.splits if_splits)
  show thesis
  proof (cases "length cs = length (ri_columns info)")
    case full: True
    then have "(\<exists>n. checkRow info cs maxv = Inr n) \<and> checkKey_full cs (keyIndexes info) = Inr u"
      using assms(2) cs by (auto simp: checkKeyTuple_def rbind_Inr_iff)
    then have "list_all (column_ok maxv) cs"
      "list_all (\<lambda>i. DataType (cs ! i) = TupleDataTypeText \<and> Data (cs ! i) \<noteq> []) (keyIndexes info)"
      using assms(1) full by (auto simp: checkRow_Inr_iff checkKey_full_Inr_iff wf_info_def)
    then have "key_text maxv (key_column info cs k)" if "k < length (keyIndexes info)" for k
      using that assms(1) full
      by (auto simp: key_column_def list_all_length wf_info_def intro!: column_ok_key_text)
    then show thesis
      using that [OF cs(1) _ cs(2)] full by (simp add: key_tuple_length_def)
  next
    case part: False
    then have "length cs = length (keyIndexes info) \<and> list_all (key_text maxv) cs"
      using assms(2) cs by (auto simp: checkKeyTuple_def checkKey_only_Inr_iff split: if_splits)
    then show thesis
      using that [OF cs(1) _ cs(2)] part
      by (simp add: key_tuple_length_def key_column_def list_all_length)
  qed
qed

lemma strict_sorted_full:
  assumes "sorted_wrt (<) js" "list_all (\<lambda>i. i < n) js" "length js = (n :: nat)"
  shows "js = [0..<n]"
proof -
  have "distinct js" using assms(1) by (simp add: strict_sorted_iff)
  then have "card (set js) = n" using assms(3) by (simp add: distinct_card)
  moreover have "set js \<subseteq> {0..<n}" using assms(2) by (auto simp: list_all_iff)
  ultimately have "set js = {0..<n}" by (simp add: card_subset_eq)
  then show ?thesis
    using assms(1) sorted_list_of_set.idem_if_sorted_distinct [of js]
    by (simp add: strict_sorted_iff)
qed

text \<open>The two ways PostgreSQL presents the old row: the row itself or its key columns alone.\<close>

definition presents :: "relationInfo \<Rightarrow> tupleData \<Rightarrow> tupleData \<Rightarrow> bool" where
  "presents info row old \<longleftrightarrow> old = row \<or> old = map ((!) row) (keyIndexes info)"

lemma presents_full:
  assumes "wf_info info" "length row = length (ri_columns info)" "presents info row old"
    and "length old = length (ri_columns info)"
  shows "old = row"
  using assms strict_sorted_full [of "keyIndexes info" "length row"] map_nth [of row]
  by (auto simp: presents_def wf_info_def)

lemma presents_key_column:
  assumes "wf_info info" "length row = length (ri_columns info)" "presents info row old"
    and "k < length (keyIndexes info)"
  shows "key_column info old k = row ! (keyIndexes info ! k)"
proof (cases "length old = length (ri_columns info)")
  case True
  with presents_full [OF assms(1-3)] show ?thesis by (simp add: key_column_def)
next
  case False
  with assms show ?thesis by (auto simp: presents_def key_column_def)
qed

lemma presents_checkKeyTuple:
  assumes "wf_info info" "length row = length (ri_columns info)" "list_all (column_ok maxv) row"
    and "presents info row old" "keyIndexes info \<noteq> []"
    and texts: "list_all (\<lambda>i. DataType (row ! i) = TupleDataTypeText \<and> Data (row ! i) \<noteq> []) (keyIndexes info)"
  shows "checkKeyTuple info (Some old) maxv = Inr ()"
proof (cases "length old = length (ri_columns info)")
  case True
  obtain n where "checkRow info row maxv = Inr n" using assms(2,3) checkRow_Inr_iff by blast
  moreover have "checkKey_full row (keyIndexes info) = Inr ()"
    using texts assms(1,2) by (subst checkKey_full_Inr_iff) (auto simp: wf_info_def)
  ultimately show ?thesis
    using presents_full [OF assms(1,2,4) True] assms(2,5) by (simp add: checkKeyTuple_def)
next
  case False
  then have old: "old = map ((!) row) (keyIndexes info)" using assms(2,4) by (auto simp: presents_def)
  have "list_all (key_text maxv) old"
    using old texts assms(1-3) by (auto simp: list_all_length wf_info_def intro!: column_ok_key_text)
  then show ?thesis
    using False assms(5) old by (simp add: checkKeyTuple_def checkKey_only_Inr_iff)
qed

lemma keyFromValues_row_texts:
  assumes "wf_info info" "length row = length (ri_columns info)"
    and "keyFromValues info (map column_value row) = Inr key"
  shows "keyIndexes info \<noteq> []"
    and "list_all (\<lambda>i. DataType (row ! i) = TupleDataTypeText \<and> Data (row ! i) \<noteq> []) (keyIndexes info)"
    and "key = key_map info (\<lambda>i. Data (row ! i))"
proof -
  have val_text: "Kind (column_value c) = ValueText \<Longrightarrow> DataType c = TupleDataTypeText \<and> Text (column_value c) = Data c" for c
    by (auto simp: column_value_def TextValue_def zeroValue_def split: if_splits)
  have idx: "i \<in> set (keyIndexes info) \<Longrightarrow> i < length row" for i
    using assms(1,2) by (simp add: wf_info_def list_all_iff)
  have spec: "keyIndexes info \<noteq> []"
    "\<And>i. i \<in> set (keyIndexes info) \<Longrightarrow> Kind (map column_value row ! i) = ValueText \<and> Text (map column_value row ! i) \<noteq> []"
    "key = key_map info (\<lambda>i. Text (map column_value row ! i))"
    using assms by (auto simp: keyFromValues_Inr_iff list_all_iff)
  have texts: "DataType (row ! i) = TupleDataTypeText \<and> Data (row ! i) \<noteq> [] \<and>
      Text (map column_value row ! i) = Data (row ! i)" if "i \<in> set (keyIndexes info)" for i
    using spec(2) [OF that] val_text [of "row ! i"] idx [OF that] by simp
  show "keyIndexes info \<noteq> []" by (rule spec)
  show "list_all (\<lambda>i. DataType (row ! i) = TupleDataTypeText \<and> Data (row ! i) \<noteq> []) (keyIndexes info)"
    using texts by (auto simp: list_all_iff)
  show "key = key_map info (\<lambda>i. Data (row ! i))"
    unfolding spec(3) key_map_def using texts by (intro foldl_cong) auto
qed

text \<open>C35: a row has one key. Whatever key INSERT or UPDATE gives a row, DELETE of that row accepts
  PostgreSQL's old-row tuple and gives the same key, whether PostgreSQL sends the complete old row or
  the key columns alone.\<close>

theorem delete_key_is_insert_key:
  assumes "wf_info info" and "presents info row old"
    and "decodeRow info (Some row) maxv = Inr vals" and "keyFromValues info vals = Inr key"
  shows "checkKeyTuple info (Some old) maxv = Inr () \<and> keyFromTuple info old = Inr key"
proof -
  have row: "length row = length (ri_columns info)" "list_all (column_ok maxv) row"
    and vals: "vals = map column_value row"
    using assms(3) by (auto simp: decodeRow_Inr_iff)
  note key = keyFromValues_row_texts [OF assms(1) row(1) assms(4) [unfolded vals]]
  have "key_tuple_length info old"
    using assms(2) row(1) by (auto simp: presents_def key_tuple_length_def)
  then have "keyFromTuple info old = Inr key"
    unfolding key(3) using assms(1,2) row(1)
    by (intro keyFromTuple_key_map) (simp_all add: presents_key_column)
  with presents_checkKeyTuple [OF assms(1) row assms(2) key(1,2)] show ?thesis by simp
qed

definition sample_info :: relationInfo where
  "sample_info = newRelationInfo
     \<lparr>rm_relationID = 7, rm_namespace = ''public'', rm_relationName = ''items'',
      rm_replicaIdentity = CHR ''d'',
      rm_columns = [\<lparr>rc_flags = 1, rc_name = ''tenant'', rc_dataType = 25\<rparr>,
                    \<lparr>rc_flags = 0, rc_name = ''title'', rc_dataType = 25\<rparr>,
                    \<lparr>rc_flags = 1, rc_name = ''id'', rc_dataType = 23\<rparr>]\<rparr>"

definition sample_row :: tupleData where
  "sample_row = [\<lparr>DataType = CHR ''t'', Data = ''acme''\<rparr>, \<lparr>DataType = CHR ''n'', Data = []\<rparr>,
                 \<lparr>DataType = CHR ''t'', Data = ''42''\<rparr>]"

lemma sample_info_simps:
  "ri_columns sample_info = [''tenant'', ''title'', ''id'']" "keyIndexes sample_info = [0, 2]"
  "ri_table sample_info = ''public.items''"
  by (simp_all add: sample_info_def newRelationInfo_def qualifiedTable_def upt_conv_Cons)

theorem delete_key_is_insert_key_witness:
  "checkKeyTuple sample_info (Some (map ((!) sample_row) [0, 2])) 100 = Inr () \<and>
   keyFromTuple sample_info (map ((!) sample_row) [0, 2]) = Inr [(''tenant'', ''acme''), (''id'', ''42'')]"
proof (rule delete_key_is_insert_key)
  show "wf_info sample_info" by (simp add: sample_info_def)
  show "presents sample_info sample_row (map ((!) sample_row) [0, 2])"
    by (simp add: presents_def sample_info_simps)
  show "decodeRow sample_info (Some sample_row) 100 = Inr (map column_value sample_row)"
    by (simp add: decodeRow_Inr_iff sample_info_simps sample_row_def column_ok_def tuple_types)
  show "keyFromValues sample_info (map column_value sample_row) = Inr [(''tenant'', ''acme''), (''id'', ''42'')]"
    by (simp add: keyFromValues_def sample_info_simps sample_row_def column_value_def tuple_types
        TextValue_def)
qed

end
