(* ===== verification/Decoder_Correct.thy ===== *)
theory Decoder_Correct
  imports Decoder_Rows
begin

text \<open>
  Correctness of the decoder as a state machine: its bounds and the contract of every change it
  emits hold after any message.
\<close>

section \<open>The contract of a change\<close>

definition wf_value :: "int \<Rightarrow> val \<Rightarrow> bool" where
  "wf_value maxv v \<longleftrightarrow> Kind v = ValueText \<and> int (length (Text v)) \<le> maxv \<or>
     Kind v \<in> {ValueNull, ValueUnchangedToast} \<and> Text v = []"

definition wf_key :: "int \<Rightarrow> (string, string) gomap \<Rightarrow> bool" where
  "wf_key maxv key \<longleftrightarrow> key \<noteq> [] \<and> list_all (\<lambda>(k, t). t \<noteq> [] \<and> int (length t) \<le> maxv) key"

definition wf_change :: "int \<Rightarrow> change \<Rightarrow> bool" where
  "wf_change maxv ch \<longleftrightarrow> wf_key maxv (Key ch) \<and>
     (Operation ch = OperationDelete \<and> Columns ch = [] \<and> Values ch = [] \<or>
      Operation ch \<in> {OperationInsert, OperationUpdate} \<and>
      length (Values ch) = length (Columns ch) \<and> list_all (wf_value maxv) (Values ch) \<and>
      list_all (\<lambda>(k, t). (k, TextValue t) \<in> set (zip (Columns ch) (Values ch))) (Key ch))"

definition change_bytes :: "change \<Rightarrow> int" where
  "change_bytes ch = changeOverhead + int (length (Operation ch)) + int (length (Table ch))
     + (\<Sum>(k, v) \<leftarrow> Key ch. int (length k) + int (length v))
     + (\<Sum>(c, v) \<leftarrow> zip (Columns ch) (Values ch). int (length c) + estimatedValueBytes v)"

lemma estimated_values_eq:
  "length vs \<le> length (drop i cs) \<Longrightarrow> estimated_values cs vs i b =
     Inr (b + (\<Sum>(c, v) \<leftarrow> zip (drop i cs) vs. int (length c) + estimatedValueBytes v))"
proof (induction vs arbitrary: i b)
  case (Cons v vs)
  then have i: "i < length cs" by simp
  then have "drop i cs = cs ! i # drop (Suc i) cs" by (simp add: Cons_nth_drop_Suc)
  with Cons i show ?case by (simp add: algebra_simps)
qed simp

lemma foldl_key_bytes:
  "foldl (\<lambda>b (k, v). b + int (length k) + int (length v)) b0 key =
     b0 + (\<Sum>(k, v) \<leftarrow> key. int (length k) + int (length v))"
  by (induction key arbitrary: b0) auto

lemma estimatedChangeBytes_eq:
  "length (Values ch) \<le> length (Columns ch) \<Longrightarrow> estimatedChangeBytes ch = Inr (change_bytes ch)"
  by (simp add: estimatedChangeBytes_def change_bytes_def estimated_values_eq foldl_key_bytes)

lemma wf_change_bytes: "wf_change maxv ch \<Longrightarrow> estimatedChangeBytes ch = Inr (change_bytes ch)"
  by (auto simp: wf_change_def intro: estimatedChangeBytes_eq)

section \<open>Keys of decoded rows\<close>

lemma set_update_subset: "set (AList.update k v m) \<subseteq> insert (k, v) (set m)"
  by (induction m) auto

lemma foldl_update_entries:
  "(k, t) \<in> set (foldl (\<lambda>key i. AList.update (g i) (f i) key) key js) \<Longrightarrow>
     (k, t) \<in> set key \<or> (\<exists>i \<in> set js. k = g i \<and> t = f i)"
proof (induction js arbitrary: key)
  case (Cons j js)
  from Cons.IH [of "AList.update (g j) (f j) key"] Cons.prems
  have "(k, t) \<in> set (AList.update (g j) (f j) key) \<or> (\<exists>i \<in> set js. k = g i \<and> t = f i)"
    by simp
  then show ?case using set_update_subset [of "g j" "f j" key] by auto
qed simp

lemma foldl_update_nonempty:
  "key \<noteq> [] \<or> js \<noteq> [] \<Longrightarrow> foldl (\<lambda>key i. AList.update (g i) (f i) key) key js \<noteq> []"
  by (induction js arbitrary: key) (auto simp: update_nonempty)

lemma key_map_entries:
  "(k, t) \<in> set (key_map info f) \<Longrightarrow> \<exists>i \<in> set (keyIndexes info). k = ri_columns info ! i \<and> t = f i"
  using foldl_update_entries [of k t "\<lambda>i. ri_columns info ! i" f "[]" "keyIndexes info"]
  by (auto simp: key_map_def)

lemma key_map_nonempty: "keyIndexes info \<noteq> [] \<Longrightarrow> key_map info f \<noteq> []"
  using foldl_update_nonempty [of "[]" "keyIndexes info" "\<lambda>i. ri_columns info ! i" f] by (simp add: key_map_def)

lemma column_value_wf: "column_ok maxv c \<Longrightarrow> wf_value maxv (column_value c)"
  by (auto simp: column_ok_def column_value_def wf_value_def TextValue_def zeroValue_def tuple_types)

lemma Kind_TextValue: "Kind v = ValueText \<Longrightarrow> v = TextValue (Text v)"
  by (simp add: TextValue_def)

text \<open>The new row of an insert or an update.\<close>

lemma new_row_wf:
  assumes "wf_info info" "decodeRow info tuple maxv = Inr vals" "keyFromValues info vals = Inr key"
    and "oper \<in> {OperationInsert, OperationUpdate}"
  shows "wf_change maxv \<lparr>Operation = oper, Table = tbl, Key = key, Columns = ri_columns info, Values = vals\<rparr>"
proof -
  obtain cs where cs: "length cs = length (ri_columns info)" "list_all (column_ok maxv) cs"
    "vals = map column_value cs"
    using assms(2) by (auto simp: decodeRow_Inr_iff)
  then have len: "length vals = length (ri_columns info)" by simp
  have vals: "list_all (wf_value maxv) vals"
    using cs by (auto simp: list_all_iff intro: column_value_wf)
  note k = assms(3) [unfolded keyFromValues_Inr_iff [OF assms(1) len]]
  have entry: "t \<noteq> [] \<and> int (length t) \<le> maxv \<and> (n, TextValue t) \<in> set (zip (ri_columns info) vals)"
    if nt: "(n, t) \<in> set key" for n t
  proof -
    obtain i where i: "i \<in> set (keyIndexes info)" "n = ri_columns info ! i" "t = Text (vals ! i)"
      using key_map_entries [of n t info "\<lambda>i. Text (vals ! i)"] nt k by auto
    have il: "i < length vals" using i(1) assms(1) len by (simp add: wf_info_def list_all_iff)
    have kind: "Kind (vals ! i) = ValueText" and t: "t \<noteq> []" using k i by (auto simp: list_all_iff)
    have v: "vals ! i = TextValue t" using Kind_TextValue [OF kind] i(3) by simp
    have "(n, TextValue t) \<in> set (zip (ri_columns info) vals)"
      unfolding in_set_zip by (rule exI [of _ i]) (simp add: i(2) v il len [symmetric])
    moreover have "wf_value maxv (vals ! i)" using vals il by (simp add: list_all_length)
    ultimately show ?thesis using t v by (simp add: wf_value_def TextValue_def)
  qed
  have "key \<noteq> []" using k key_map_nonempty [of info] by simp
  then have "wf_key maxv key" using entry by (auto simp: wf_key_def list_all_iff)
  moreover have "list_all (\<lambda>(n, t). (n, TextValue t) \<in> set (zip (ri_columns info) vals)) key"
    using entry by (auto simp: list_all_iff)
  ultimately show ?thesis using assms(4) len vals by (simp add: wf_change_def)
qed

lemma old_key_wf:
  assumes "wf_info info" "checkKeyTuple info tuple maxv = Inr u" "tuple = Some cs"
    and "keyFromTuple info cs = Inr key"
  shows "wf_key maxv key"
proof -
  have len: "key_tuple_length info cs" and ne: "keyIndexes info \<noteq> []"
    and texts: "\<And>k. k < length (keyIndexes info) \<Longrightarrow> key_text maxv (key_column info cs k)"
    using checkKeyTuple_Inr [OF assms(1,2)] assms(3) by (metis option.inject)+
  define g where "g k = ri_columns info ! (keyIndexes info ! k)" for k
  define f where "f k = Data (key_column info cs k)" for k
  have key: "key = foldl (\<lambda>key k. AList.update (g k) (f k) key) [] [0..<length (keyIndexes info)]"
    using keyFromTuple_eq [OF assms(1) len] assms(4) by (simp add: g_def f_def)
  have "key \<noteq> []"
    unfolding key by (rule foldl_update_nonempty) (use ne in simp)
  moreover have "t \<noteq> [] \<and> int (length t) \<le> maxv" if "(n, t) \<in> set key" for n t
    using foldl_update_entries [of n t g f "[]" "[0..<length (keyIndexes info)]"] that texts
    unfolding key by (auto simp: f_def key_text_def)
  ultimately show ?thesis by (auto simp: wf_key_def list_all_iff)
qed

lemma keyFromTuple_no_panic:
  assumes "wf_info info" "checkKeyTuple info (Some cs) maxv = Inr u"
  shows "no_panic (keyFromTuple info cs)"
  by (rule checkKeyTuple_Inr [OF assms]) (simp add: keyFromTuple_eq assms(1))

section \<open>Row decoding\<close>

definition wf_relations :: "decoder \<Rightarrow> bool" where
  "wf_relations d \<longleftrightarrow> (\<forall>i info. map_of (relations d) i = Some info \<longrightarrow> wf_info info)"

lemma relation_wf: "wf_relations d \<Longrightarrow> relation d i = Inr info \<Longrightarrow> wf_info info"
  by (auto simp: relation_def wf_relations_def split: option.splits)

lemma relation_no_panic [simp]: "no_panic (relation d i)"
  by (simp add: relation_def split: option.splits)

lemma insert_row_wf:
  "wf_relations d \<Longrightarrow> insert_row d i tuple = Inr ch \<Longrightarrow> wf_change (maxValueBytes d) ch"
  by (auto simp: insert_row_def rbind_Inr_iff intro!: new_row_wf dest: relation_wf)

lemma update_row_wf:
  "wf_relations d \<Longrightarrow> update_row d i old new = Inr ch \<Longrightarrow> wf_change (maxValueBytes d) ch"
  by (auto simp: update_row_def rbind_Inr_iff intro!: new_row_wf dest: relation_wf)

lemma delete_row_wf:
  "wf_relations d \<Longrightarrow> delete_row d i old = Inr ch \<Longrightarrow> wf_change (maxValueBytes d) ch"
  by (auto simp: delete_row_def rbind_Inr_iff wf_change_def intro!: old_key_wf
      dest: relation_wf split: option.splits)

lemma decoded_length: "decodeRow info tuple maxv = Inr vals \<Longrightarrow> length vals = length (ri_columns info)"
  by (auto simp: decodeRow_Inr_iff)

lemma insert_row_no_panic: "wf_relations d \<Longrightarrow> no_panic (insert_row d i tuple)"
  by (auto simp: insert_row_def intro!: no_panic_rbind keyFromValues_no_panic relation_wf decoded_length)

lemma same_key_no_panic:
  assumes "wf_info info" "key_tuple_length info cs" "length vals = length (ri_columns info)"
  shows "keyIndexes info = pre @ js \<Longrightarrow> no_panic (same_key info cs vals (length pre) js)"
proof (induction js arbitrary: pre)
  case (Cons j js)
  then have "length pre < length (keyIndexes info)" by simp
  moreover have "j < length vals" using assms(1,3) Cons.prems by (simp add: wf_info_def)
  ultimately show ?case
    using Cons.IH [of "pre @ [j]"] Cons.prems keyColumn_eq [OF assms(1,2)] by simp
qed simp

lemma old_tuple_no_panic:
  assumes "wf_info info" "length vals = length (ri_columns info)"
  shows "no_panic (rbind (checkKeyTuple info (Some cs) maxv) (\<lambda>_. same_key info cs vals 0 (keyIndexes info)))"
proof (rule no_panic_rbind)
  show "no_panic (checkKeyTuple info (Some cs) maxv)" using assms(1) by (rule checkKeyTuple_no_panic)
  fix u
  assume "checkKeyTuple info (Some cs) maxv = Inr u"
  then have "key_tuple_length info cs" by (rule checkKeyTuple_Inr [OF assms(1)]) simp
  then show "no_panic (same_key info cs vals 0 (keyIndexes info))"
    using same_key_no_panic [OF assms(1) _ assms(2), of cs "[]"] by simp
qed

lemma update_row_no_panic: "wf_relations d \<Longrightarrow> no_panic (update_row d i old new)"
  by (auto simp: update_row_def split: option.splits
      intro!: no_panic_rbind [of "relation d i"] no_panic_rbind [of "decodeRow _ _ _"]
        no_panic_rbind [of "keyFromValues _ _"] no_panic_rbind [of "rbind _ _"]
        keyFromValues_no_panic old_tuple_no_panic relation_wf decoded_length)

lemma delete_row_no_panic: "wf_relations d \<Longrightarrow> no_panic (delete_row d i old)"
proof -
  assume d: "wf_relations d"
  have "no_panic (rbind (checkKeyTuple info old maxv) (\<lambda>_.
     rbind (case old of None \<Rightarrow> Inl (Sentinel RuntimePanic) | Some columns \<Rightarrow> keyFromTuple info columns) (\<lambda>key.
       Inr (f key))))" if "wf_info info" for info maxv and f :: "(string, string) gomap \<Rightarrow> change"
    using that
    by (cases old)
      (auto simp: checkKeyTuple_def [of _ None] intro!: no_panic_rbind checkKeyTuple_no_panic keyFromTuple_no_panic)
  then show ?thesis
    using d unfolding delete_row_def by (auto intro!: no_panic_rbind [of "relation d i"] dest: relation_wf)
qed

section \<open>The decoder's invariant\<close>

definition wf_pending :: "decoder \<Rightarrow> change list \<Rightarrow> bool" where
  "wf_pending d cs \<longleftrightarrow> int (length cs) \<le> maxTransactionChanges d \<and>
     list_all (wf_change (maxValueBytes d)) cs \<and> sum_list (map change_bytes cs) \<le> maxTransactionBytes d"

definition wf_decoder :: "decoder \<Rightarrow> bool" where
  "wf_decoder d \<longleftrightarrow> wf_relations d \<and>
     0 < maxTransactionBytes d \<and> 0 < maxTransactionChanges d \<and> 0 < maxValueBytes d \<and>
     (case pending d of
        None \<Rightarrow> pendingBytes d = 0
      | Some cs \<Rightarrow> wf_pending d cs \<and> pendingBytes d = sum_list (map change_bytes cs))"

definition wf_result :: "decoder \<Rightarrow> goerror + transaction option \<Rightarrow> bool" where
  "wf_result d r \<longleftrightarrow> no_panic r \<and> (\<forall>t. r = Inr (Some t) \<longrightarrow> wf_pending d (Changes t))"

lemma NewDecoderWithLimits_wf: "wf_decoder (NewDecoderWithLimits mb mc mv)"
  by (simp add: wf_decoder_def wf_relations_def NewDecoderWithLimits_def
      defaultMaxTransactionBytes_def defaultMaxTransactionChanges_def defaultMaxValueBytes_def)

text \<open>The shape check only writes a relation's verdict and the event list.\<close>

definition same_but_verdicts :: "decoder \<Rightarrow> decoder \<Rightarrow> bool" where
  "same_but_verdicts d d' \<longleftrightarrow> (\<exists>rs evs. d' = d\<lparr>relations := rs, events := evs\<rparr>)"

lemma same_but_verdicts_simps:
  assumes "same_but_verdicts d d'"
  shows "pending d' = pending d" "pendingBytes d' = pendingBytes d" "maxValueBytes d' = maxValueBytes d"
    "maxTransactionBytes d' = maxTransactionBytes d" "maxTransactionChanges d' = maxTransactionChanges d"
    "pendingXid d' = pendingXid d" "pendingCommitTime d' = pendingCommitTime d"
  using assms by (auto simp: same_but_verdicts_def)

lemma check_frame:
  "\<exists>g v. fst (check regs info evs) = info\<lparr>checked := g, ri_incompatible := v\<rparr>"
proof (cases regs)
  case None
  have "info = info\<lparr>checked := checked info, ri_incompatible := ri_incompatible info\<rparr>" by simp
  moreover have "fst (check regs info evs) = info" using None by (simp add: check_def)
  ultimately have "fst (check regs info evs) =
      info\<lparr>checked := checked info, ri_incompatible := ri_incompatible info\<rparr>" by (rule trans [rotated])
  then show ?thesis by blast
next
  case (Some r)
  then show ?thesis by (auto simp: check_def Let_def split: option.splits)
qed

lemma check_wf_info: "wf_info info \<Longrightarrow> wf_info (fst (check regs info evs))"
  using check_frame [of regs info evs] by (auto simp: wf_info_def)

lemma check_relation_frame: "same_but_verdicts d (check_relation regs d i info)"
  by (auto simp: same_but_verdicts_def check_relation_def split: prod.splits)

lemma check_relation_relations:
  "map_of (relations (check_relation regs d i info)) j =
     (if j = i then Some (fst (check regs info (events d))) else map_of (relations d) j)"
  by (simp add: check_relation_def update_conv' split: prod.splits)

lemma check_relation_wf:
  "wf_relations d \<Longrightarrow> wf_info info \<Longrightarrow> wf_relations (check_relation regs d i info)"
  by (auto simp: wf_relations_def check_relation_relations check_wf_info)

lemma wf_decoder_verdicts:
  "wf_decoder d \<Longrightarrow> same_but_verdicts d d' \<Longrightarrow> wf_relations d' \<Longrightarrow> wf_decoder d'"
  by (auto simp: wf_decoder_def wf_pending_def same_but_verdicts_simps split: option.splits)

lemma skip_frame:
  assumes "skip regs d i = (d1, r)"
  shows "same_but_verdicts d d1" and "wf_relations d \<Longrightarrow> wf_relations d1" and "no_panic r"
proof -
  have "d = d\<lparr>relations := relations d, events := events d\<rparr>" by simp
  then have refl: "same_but_verdicts d d" unfolding same_but_verdicts_def by blast
  show "same_but_verdicts d d1"
    using assms refl check_relation_frame
    by (auto simp: skip_def Let_def split: sum.splits option.splits if_splits)
  show "wf_relations d \<Longrightarrow> wf_relations d1"
    using assms
    by (auto simp: skip_def Let_def split: sum.splits option.splits if_splits
        intro: check_relation_wf dest: relation_wf)
  show "no_panic r"
    using assms
    by (auto simp: skip_def Let_def relation_def split: option.splits sum.splits
        intro!: no_panic_rbind)
qed

lemma append_change_wf:
  assumes "wf_decoder d" "wf_change (maxValueBytes d) ch"
  shows "append_change d ch = Inr d' \<Longrightarrow> wf_decoder d'" and "no_panic (append_change d ch)"
  using assms
  by (auto simp: append_change_def wf_change_bytes wf_decoder_def wf_pending_def wf_relations_def
      split: option.splits if_splits)

lemma consume_row_wf:
  assumes "wf_decoder d" "consume_row regs d i dec = (d', r)"
    and dec: "\<And>d1 ch. wf_relations d1 \<Longrightarrow> dec d1 = Inr ch \<Longrightarrow> wf_change (maxValueBytes d1) ch"
    and safe: "\<And>d1. wf_relations d1 \<Longrightarrow> no_panic (dec d1)"
  shows "wf_decoder d' \<and> wf_result d r"
proof -
  obtain d1 s where sk: "skip regs d i = (d1, s)" by (cases "skip regs d i")
  have "wf_relations d" using assms(1) by (simp add: wf_decoder_def)
  then have rel: "wf_relations d1" by (rule skip_frame(2) [OF sk])
  then have dec1: "wf_decoder d1" by (rule wf_decoder_verdicts [OF assms(1) skip_frame(1) [OF sk]])
  have body: "no_panic (rbind (dec d1) (append_change d1))"
    by (rule no_panic_rbind [OF safe [OF rel]]) (rule append_change_wf(2) [OF dec1 dec [OF rel]])
  have ok: "wf_decoder d2" if "rbind (dec d1) (append_change d1) = Inr d2" for d2
    using that append_change_wf(1) [OF dec1 dec [OF rel]] by (auto simp: rbind_Inr_iff)
  show ?thesis
  proof (cases s)
    case (Inl e)
    then show ?thesis using assms(2) sk dec1 skip_frame(3) [OF sk] by (auto simp: consume_row_def wf_result_def)
  next
    case (Inr b)
    then show ?thesis
      using assms(2) sk dec1 body ok
      by (cases b) (auto simp: consume_row_def wf_result_def split: sum.splits)
  qed
qed

text \<open>C11: the decoder's memory stays bounded and its output keeps the contract of \<open>Change\<close> whatever
  PostgreSQL sends. After any message the pending batch has at most \<open>maxTransactionChanges\<close> changes
  of at most \<open>maxTransactionBytes\<close> accounted bytes, equal to \<open>pendingBytes\<close>; an emitted transaction
  is within the same bounds; every change has a non-empty key of non-empty texts that agrees with
  its row, one value per column, and no value over the limit; and the decoder never panics.\<close>

theorem Consume_invariant:
  assumes "wf_decoder d" and "Consume regs d m = (d', r)"
  shows "wf_decoder d' \<and> wf_result d r"
proof (cases m)
  case (RelationMessage rm)
  have "wf_decoder (check_relation regs d (rm_relationID rm) (newRelationInfo rm))"
    using assms(1) check_relation_wf [of d "newRelationInfo rm"]
    by (intro wf_decoder_verdicts [OF assms(1) check_relation_frame]) (simp add: wf_decoder_def)
  then show ?thesis using assms(2) RelationMessage by (auto simp: wf_result_def)
next
  case InsertMessage
  then show ?thesis
    using consume_row_wf [OF assms(1)] assms(2) insert_row_wf insert_row_no_panic by simp
next
  case UpdateMessage
  then show ?thesis
    using consume_row_wf [OF assms(1)] assms(2) update_row_wf update_row_no_panic by simp
next
  case DeleteMessage
  then show ?thesis
    using consume_row_wf [OF assms(1)] assms(2) delete_row_wf delete_row_no_panic by simp
next
  case BeginMessage
  then show ?thesis
    using assms by (auto simp: wf_decoder_def wf_pending_def wf_relations_def wf_result_def split: if_splits)
next
  case CommitMessage
  then show ?thesis
    using assms by (auto simp: wf_decoder_def wf_pending_def wf_relations_def wf_result_def
        commit_transaction_def split: option.splits)
qed (use assms in \<open>auto simp: wf_result_def\<close>)

theorem Consume_invariant_witness:
  "wf_decoder (fst (Consume None (NewDecoderWithLimits 0 1 5) (BeginMessage 9 0))) \<and>
   wf_result (NewDecoderWithLimits 0 1 5) (Inr None)"
  using Consume_invariant [OF NewDecoderWithLimits_wf [of 0 1 5], of None "BeginMessage 9 0"
      "fst (Consume None (NewDecoderWithLimits 0 1 5) (BeginMessage 9 0))" "Inr None"]
  by (simp add: NewDecoderWithLimits_def)

end
