(* ===== verification/Decoder_Stream.thy ===== *)
theory Decoder_Stream
  imports Decoder_Correct
begin

text \<open>
  The decoder over a stream of messages: whole transactions in stream order, stable row keys, and
  the treatment of tables that changed shape.
\<close>

section \<open>Transactions are whole\<close>

text \<open>The change a row message contributes, \<open>None\<close> when it is dropped or fails.\<close>

fun decoded_change :: "reads option \<Rightarrow> decoder \<Rightarrow> message \<Rightarrow> change option" where
  "decoded_change regs d (InsertMessage i t) =
     (case skip regs d i of (d1, Inr False) \<Rightarrow> (case insert_row d1 i t of Inr ch \<Rightarrow> Some ch | Inl _ \<Rightarrow> None) | _ \<Rightarrow> None)"
| "decoded_change regs d (UpdateMessage i old new) =
     (case skip regs d i of (d1, Inr False) \<Rightarrow> (case update_row d1 i old new of Inr ch \<Rightarrow> Some ch | Inl _ \<Rightarrow> None) | _ \<Rightarrow> None)"
| "decoded_change regs d (DeleteMessage i old) =
     (case skip regs d i of (d1, Inr False) \<Rightarrow> (case delete_row d1 i old of Inr ch \<Rightarrow> Some ch | Inl _ \<Rightarrow> None) | _ \<Rightarrow> None)"
| "decoded_change regs d _ = None"

fun decoded_changes :: "decoder \<Rightarrow> (reads option \<times> message) list \<Rightarrow> change list" where
  "decoded_changes d [] = []"
| "decoded_changes d ((regs, m) # ms) =
     (case decoded_change regs d m of None \<Rightarrow> [] | Some ch \<Rightarrow> [ch]) @ decoded_changes (fst (Consume regs d m)) ms"

definition within_transaction :: "message \<Rightarrow> bool" where
  "within_transaction m \<longleftrightarrow> (\<forall>x t. m \<noteq> BeginMessage x t) \<and> (\<forall>c e. m \<noteq> CommitMessage c e)"

lemma consume_row_step:
  assumes "pending d = Some cs" "consume_row regs d i dec = (d', Inr t)"
  shows "t = None \<and> pendingXid d' = pendingXid d \<and> pendingCommitTime d' = pendingCommitTime d \<and>
     pending d' = Some (cs @ (case (case skip regs d i of
         (d1, Inr False) \<Rightarrow> (case dec d1 of Inr ch \<Rightarrow> Some ch | Inl _ \<Rightarrow> None) | _ \<Rightarrow> None)
       of None \<Rightarrow> [] | Some ch \<Rightarrow> [ch]))"
proof -
  obtain d1 s where sk: "skip regs d i = (d1, s)" by (cases "skip regs d i")
  note frame = same_but_verdicts_simps [OF skip_frame(1) [OF sk]]
  show ?thesis
  proof (cases s)
    case (Inr b)
    then show ?thesis
      using assms sk frame
      by (cases b) (auto simp: consume_row_def append_change_def rbind_Inr_iff split: sum.splits if_splits)
  qed (use assms sk in \<open>simp add: consume_row_def\<close>)
qed

lemma Consume_within:
  assumes "within_transaction m" "pending d = Some cs" "Consume regs d m = (d', Inr t)"
  shows "t = None \<and> pendingXid d' = pendingXid d \<and> pendingCommitTime d' = pendingCommitTime d \<and>
     pending d' = Some (cs @ (case decoded_change regs d m of None \<Rightarrow> [] | Some ch \<Rightarrow> [ch]))"
proof (cases m)
  case (RelationMessage rm)
  then show ?thesis
    using assms same_but_verdicts_simps [OF check_relation_frame [of d regs "rm_relationID rm" "newRelationInfo rm"]]
    by auto
next
  case InsertMessage
  then show ?thesis using assms consume_row_step [OF assms(2)] by simp
next
  case UpdateMessage
  then show ?thesis using assms consume_row_step [OF assms(2)] by simp
next
  case DeleteMessage
  then show ?thesis using assms consume_row_step [OF assms(2)] by simp
qed (use assms in \<open>auto simp: within_transaction_def\<close>)

lemma consume_all_within:
  assumes "list_all (\<lambda>(regs, m). within_transaction m) ms" "pending d = Some cs"
    and "consume_all d ms = (d', ts, e)"
  shows "ts = [] \<and> (e = None \<longrightarrow> pendingXid d' = pendingXid d \<and> pendingCommitTime d' = pendingCommitTime d \<and>
     pending d' = Some (cs @ decoded_changes d ms))"
  using assms
proof (induction ms arbitrary: d cs ts)
  case (Cons rm ms)
  obtain regs m where rm: "rm = (regs, m)" by (cases rm)
  obtain d1 r where step: "Consume regs d m = (d1, r)" by (cases "Consume regs d m")
  show ?case
  proof (cases r)
    case (Inl err)
    then show ?thesis using Cons.prems(3) rm step by auto
  next
    case (Inr t)
    note one = Consume_within [of m d cs regs d1 t]
    have w: "within_transaction m" using Cons.prems(1) rm by simp
    have p: "t = None" "pendingXid d1 = pendingXid d" "pendingCommitTime d1 = pendingCommitTime d"
      "pending d1 = Some (cs @ (case decoded_change regs d m of None \<Rightarrow> [] | Some ch \<Rightarrow> [ch]))"
      using one [OF w Cons.prems(2)] step Inr by auto
    have "consume_all d1 ms = (d', ts, e)"
      using Cons.prems(3) rm step Inr p(1) by (simp split: prod.splits)
    from Cons.IH [OF _ p(4) this] p(2,3) show ?thesis
      using Cons.prems(1) rm step by simp
  qed
qed simp

lemma consume_all_append:
  "consume_all d (ms @ ns) =
     (case consume_all d ms of
        (d', ts, Some e) \<Rightarrow> (d', ts, Some e)
      | (d', ts, None) \<Rightarrow> (let (d'', us, e) = consume_all d' ns in (d'', ts @ us, e)))"
proof (induction ms arbitrary: d)
  case (Cons rm ms)
  obtain regs m where "rm = (regs, m)" by (cases rm)
  with Cons show ?case
    by (auto split: prod.splits sum.splits option.splits)
qed simp

text \<open>C12: a source transaction leaves the decoder whole or not at all. Between BEGIN and COMMIT no
  transaction is emitted, whatever the messages are and whether or not one of them fails; when the
  whole sequence succeeds, COMMIT emits exactly one transaction, with the BEGIN's xid and commit
  time, the COMMIT's positions, and the changes of the messages in between, in order, and the
  decoder is back outside a transaction.\<close>

theorem transaction_whole:
  assumes "pending d = None" and "list_all (\<lambda>(regs, m). within_transaction m) rows"
    and "d0 = fst (Consume r0 d (BeginMessage x t))"
  shows "fst (snd (consume_all d ((r0, BeginMessage x t) # rows))) = [] \<and>
    (\<forall>d' ts. consume_all d ((r0, BeginMessage x t) # rows @ [(r1, CommitMessage c e)]) = (d', ts, None) \<longrightarrow>
      pending d' = None \<and>
      (\<exists>evs. ts = [\<lparr>Cursor_of = \<lparr>cur_source = [], cur_lsn = e\<rparr>, Changes = decoded_changes d0 rows,
        CommitTime = t, Incompatible = evs, commitLSN = c, xid_of = x\<rparr>]))"
proof -
  obtain d1 us err where run: "consume_all d0 rows = (d1, us, err)" by (cases "consume_all d0 rows") auto
  have d0: "pending d0 = Some []" "pendingXid d0 = x" "pendingCommitTime d0 = t"
    using assms(1,3) by auto
  note in_tx = consume_all_within [OF assms(2) d0(1) run]
  have begin_step: "consume_all d ((r0, BeginMessage x t) # ms) = consume_all d0 ms" for ms
    using assms(1,3) by (auto split: prod.splits)
  show ?thesis
    unfolding begin_step consume_all_append
    using run in_tx d0 by (cases err) (auto simp: commit_transaction_def)
qed

definition sample_msg :: relation_msg where
  "sample_msg = \<lparr>rm_relationID = 7, rm_namespace = ''public'', rm_relationName = ''items'',
      rm_replicaIdentity = CHR ''d'',
      rm_columns = [\<lparr>rc_flags = 1, rc_name = ''tenant'', rc_dataType = 25\<rparr>,
                    \<lparr>rc_flags = 0, rc_name = ''title'', rc_dataType = 25\<rparr>,
                    \<lparr>rc_flags = 1, rc_name = ''id'', rc_dataType = 23\<rparr>]\<rparr>"

theorem transaction_whole_witness:
  "fst (snd (consume_all NewDecoder ((None, BeginMessage 9 4) #
     [(None, RelationMessage sample_msg), (None, InsertMessage 7 (Some sample_row))]))) = []"
  using transaction_whole [of NewDecoder "[(None, RelationMessage sample_msg), (None, InsertMessage 7 (Some sample_row))]"
      "fst (Consume None NewDecoder (BeginMessage 9 4))" None 9 4]
  by (simp add: NewDecoder_def NewDecoderWithLimits_def within_transaction_def)

section \<open>Updates keep the key\<close>

lemma same_key_Inr:
  assumes "wf_info info" "key_tuple_length info cs" "length vals = length (ri_columns info)"
  shows "keyIndexes info = pre @ js \<Longrightarrow> same_key info cs vals (length pre) js = Inr u \<longleftrightarrow>
     (\<forall>k. length pre \<le> k \<and> k < length (keyIndexes info) \<longrightarrow>
        Data (key_column info cs k) = Text (vals ! (keyIndexes info ! k)))"
proof (induction js arbitrary: pre)
  case (Cons j js)
  have k: "length pre < length (keyIndexes info)" and j: "keyIndexes info ! length pre = j"
    using Cons.prems by simp_all
  have "j < length vals" using assms(1,3) Cons.prems by (simp add: wf_info_def)
  then have "same_key info cs vals (length pre) (j # js) = Inr u \<longleftrightarrow>
      Data (key_column info cs (length pre)) = Text (vals ! j) \<and>
      same_key info cs vals (Suc (length pre)) js = Inr u"
    using keyColumn_eq [OF assms(1,2) k] by simp
  also have "\<dots> \<longleftrightarrow> Data (key_column info cs (length pre)) = Text (vals ! (keyIndexes info ! length pre)) \<and>
      (\<forall>k. Suc (length pre) \<le> k \<and> k < length (keyIndexes info) \<longrightarrow>
        Data (key_column info cs k) = Text (vals ! (keyIndexes info ! k)))"
    using Cons.IH [of "pre @ [j]"] Cons.prems j by simp
  also have "\<dots> \<longleftrightarrow> (\<forall>k. length pre \<le> k \<and> k < length (keyIndexes info) \<longrightarrow>
        Data (key_column info cs k) = Text (vals ! (keyIndexes info ! k)))"
  proof -
    have "length pre \<le> n \<longleftrightarrow> n = length pre \<or> Suc (length pre) \<le> n" for n by auto
    then show ?thesis using k by metis
  qed
  finally show ?case .
qed auto

text \<open>An accepted update is an update of one row: when PostgreSQL sends the old row or its key,
  the key the change carries is the key of the old row, so applying the change by key leaves no
  obsolete row behind.\<close>

theorem update_keeps_key:
  assumes "wf_relations d" and "relation d i = Inr info"
    and "update_row d i (Some old) new = Inr ch"
  shows "keyFromTuple info old = Inr (Key ch)"
proof -
  have wf: "wf_info info" using assms(1,2) by (rule relation_wf)
  obtain vals key where v: "decodeRow info new (maxValueBytes d) = Inr vals"
    "keyFromValues info vals = Inr key" "checkKeyTuple info (Some old) (maxValueBytes d) = Inr ()"
    "same_key info old vals 0 (keyIndexes info) = Inr ()" "Key ch = key"
    using assms(2,3) by (auto simp: update_row_def rbind_Inr_iff)
  have len: "key_tuple_length info old" using checkKeyTuple_Inr [OF wf v(3)] by blast
  have vl: "length vals = length (ri_columns info)" using v(1) by (rule decoded_length)
  have "Data (key_column info old k) = Text (vals ! (keyIndexes info ! k))"
    if "k < length (keyIndexes info)" for k
    using same_key_Inr [OF wf len vl, of "[]"] v(4) that by simp
  then have "keyFromTuple info old = Inr (key_map info (\<lambda>i. Text (vals ! i)))"
    by (intro keyFromTuple_key_map [OF wf len]) simp
  moreover have "key = key_map info (\<lambda>i. Text (vals ! i))"
    using v(2) keyFromValues_Inr_iff [OF wf vl] by simp
  ultimately show ?thesis using v(5) by simp
qed

definition sample_decoder :: decoder where
  "sample_decoder = NewDecoder\<lparr>relations := [(7, sample_info)]\<rparr>"

lemma sample_relation: "relation sample_decoder 7 = Inr sample_info"
  by (simp add: relation_def sample_decoder_def)

lemma sample_wf: "wf_relations sample_decoder"
  by (simp add: wf_relations_def sample_decoder_def sample_info_def)

lemma sample_maxValueBytes: "maxValueBytes sample_decoder = 1048576"
  by (simp add: sample_decoder_def NewDecoder_def NewDecoderWithLimits_def defaultMaxValueBytes_def)

definition sample_update :: change where
  "sample_update = \<lparr>Operation = OperationUpdate, Table = ''public.items'',
     Key = [(''tenant'', ''acme''), (''id'', ''42'')], Columns = [''tenant'', ''title'', ''id''],
     Values = map column_value sample_row\<rparr>"

theorem update_keeps_key_witness:
  "keyFromTuple sample_info (map ((!) sample_row) [0, 2]) = Inr [(''tenant'', ''acme''), (''id'', ''42'')]"
proof -
  have "decodeRow sample_info (Some sample_row) 1048576 = Inr (map column_value sample_row)"
    by (simp add: decodeRow_Inr_iff sample_info_simps sample_row_def column_ok_def tuple_types)
  then have "update_row sample_decoder 7 (Some (map ((!) sample_row) [0, 2])) (Some sample_row) = Inr sample_update"
    by (simp add: update_row_def sample_relation sample_maxValueBytes keyFromValues_def sample_info_simps
        sample_row_def column_value_def TextValue_def zeroValue_def checkKeyTuple_def checkKeyColumn_def
        wrap_def keyColumn_def at_index_def sample_update_def tuple_types)
  from update_keeps_key [OF sample_wf sample_relation this] show ?thesis
    by (simp add: sample_update_def)
qed

text \<open>With \<open>REPLICA IDENTITY FULL\<close> PostgreSQL flags every column as part of the key and sends the
  whole old row.\<close>

definition replica_identity_full :: "relationInfo \<Rightarrow> bool" where
  "replica_identity_full info \<longleftrightarrow> keyIndexes info = [0..<length (ri_columns info)]"

text \<open>Under \<open>REPLICA IDENTITY FULL\<close>, which validation accepts, every update that changes any
  column of its row is refused: the decoder takes each column for a key column.\<close>

theorem full_identity_update_refused:
  assumes "relation d i = Inr info" and "replica_identity_full info"
    and "length old = length new" and "map column_value old \<noteq> map column_value new"
  shows "\<exists>e. update_row d i (Some old) (Some new) = Inl e"
proof (rule ccontr)
  assume "\<not> ?thesis"
  then obtain ch where ch: "update_row d i (Some old) (Some new) = Inr ch"
    by (meson obj_sumE)
  have wf: "wf_info info"
    using assms(2) by (simp add: wf_info_def replica_identity_full_def list_all_iff)
  obtain vals key where v: "decodeRow info (Some new) (maxValueBytes d) = Inr vals"
    "keyFromValues info vals = Inr key" "checkKeyTuple info (Some old) (maxValueBytes d) = Inr ()"
    "same_key info old vals 0 (keyIndexes info) = Inr ()"
    using assms(1) ch by (auto simp: update_row_def rbind_Inr_iff)
  have len: "key_tuple_length info old"
    and old_text: "\<And>k. k < length (keyIndexes info) \<Longrightarrow> key_text (maxValueBytes d) (key_column info old k)"
    using checkKeyTuple_Inr [OF wf v(3)] by (metis option.inject)+
  have new: "length new = length (ri_columns info)" "vals = map column_value new"
    using v(1) by (auto simp: decodeRow_Inr_iff)
  have vl: "length vals = length (ri_columns info)" using new by simp
  have n: "length (keyIndexes info) = length (ri_columns info)" "\<And>k. k < length (ri_columns info) \<Longrightarrow> keyIndexes info ! k = k"
    using assms(2) by (simp_all add: replica_identity_full_def)
  have "column_value (old ! k) = column_value (new ! k)" if k: "k < length (ri_columns info)" for k
  proof -
    have "key_column info old k = old ! k" using new(1) assms(3) k n by (simp add: key_column_def)
    moreover have "Data (key_column info old k) = Text (vals ! k)"
      using same_key_Inr [OF wf len vl, of "[]"] v(4) k n by simp
    moreover have "Kind (vals ! k) = ValueText"
      using v(2) k n by (simp add: keyFromValues_Inr_iff [OF wf vl] list_all_length)
    ultimately show ?thesis
      using old_text [of k] k n new Kind_TextValue [of "vals ! k"]
      by (simp add: key_text_def column_value_def [of "old ! k"])
  qed
  then have "map column_value old = map column_value new"
    using new(1) assms(3) by (intro nth_equalityI) simp_all
  with assms(4) show False by simp
qed

definition full_info :: relationInfo where
  "full_info = sample_info\<lparr>keyIndexes := [0, 1, 2]\<rparr>"

theorem full_identity_update_refused_witness:
  "\<exists>e. update_row (NewDecoder\<lparr>relations := [(7, full_info)]\<rparr>) 7 (Some sample_row)
     (Some (sample_row[1 := \<lparr>DataType = CHR ''t'', Data = ''new''\<rparr>])) = Inl e"
proof (rule full_identity_update_refused)
  show "relation (NewDecoder\<lparr>relations := [(7, full_info)]\<rparr>) 7 = Inr full_info"
    by (simp add: relation_def)
  show "replica_identity_full full_info"
    by (simp add: replica_identity_full_def full_info_def sample_info_simps upt_rec)
  show "map column_value sample_row \<noteq> map column_value (sample_row[1 := \<lparr>DataType = CHR ''t'', Data = ''new''\<rparr>])"
    by (simp add: sample_row_def column_value_def tuple_types zeroValue_def TextValue_def)
qed simp

section \<open>Tables that changed shape\<close>

text \<open>What a relation's verdict should be against the registry \<open>now\<close>.\<close>

definition verdict :: "shapes \<Rightarrow> relationInfo \<Rightarrow> incompatible option" where
  "verdict now info = (case baselineByTable now (ri_table info) of
     None \<Rightarrow> None
   | Some b \<Rightarrow> map_option (\<lambda>df. \<lparr>inc_table = ri_table info, inc_difference = df\<rparr>) (diff b (ri_shape info)))"

lemma verdict_cong:
  "ri_table info' = ri_table info \<Longrightarrow> ri_shape info' = ri_shape info \<Longrightarrow> verdict now info' = verdict now info"
  by (simp add: verdict_def split: option.split)

definition verdict_current :: "shapes \<Rightarrow> relationInfo \<Rightarrow> bool" where
  "verdict_current now info \<longleftrightarrow> (checked info = generation now \<longrightarrow> ri_incompatible info = verdict now info)"

text \<open>Recording \<open>n\<close> shapes moves the generation by at most \<open>n\<close>, and by nothing only if the
  registry is unchanged.\<close>

lemma recordings_generation:
  "\<exists>k \<le> length shs. sh_gen (foldl recordShape r shs) = sh_gen r + of_nat k \<and> (k = 0 \<longrightarrow> foldl recordShape r shs = r)"
proof (induction shs arbitrary: r)
  case (Cons s shs)
  obtain k where k: "k \<le> length shs"
    "sh_gen (foldl recordShape (recordShape r s) shs) = sh_gen (recordShape r s) + of_nat k"
    "k = 0 \<longrightarrow> foldl recordShape (recordShape r s) shs = recordShape r s"
    using Cons by blast
  show ?case
  proof (cases rule: recordShape_cases [of r s])
    case (same b)
    then show ?thesis using k by (intro exI [of _ k]) auto
  next
    case (installed oids)
    then have "sh_gen (recordShape r s) = sh_gen r + 1" by simp
    then show ?thesis using k by (intro exI [of _ "Suc k"]) (auto simp: algebra_simps)
  qed
qed simp

lemma same_generation_unmoved:
  assumes "r2 = foldl recordShape r s1" "r3 = foldl recordShape r2 s2"
    and "length s1 + length s2 < 2 ^ 64" "generation r3 = generation r"
  shows "r2 = r" and "r3 = r"
proof -
  obtain k1 where k1: "k1 \<le> length s1" "sh_gen r2 = sh_gen r + of_nat k1" "k1 = 0 \<longrightarrow> r2 = r"
    using recordings_generation [where shs = s1 and r = r] assms(1) by metis
  obtain k2 where k2: "k2 \<le> length s2" "sh_gen r3 = sh_gen r2 + of_nat k2" "k2 = 0 \<longrightarrow> r3 = r2"
    using recordings_generation [where shs = s2 and r = r2] assms(2) by metis
  have "(of_nat (k1 + k2) :: 64 word) = 0"
    using k1(2) k2(2) assms(4) by (simp add: generation_def)
  then have "2 ^ 64 dvd k1 + k2" by (simp only: word_of_nat_eq_0_iff) simp
  then have "k1 + k2 = 0" using k1(1) k2(1) assms(3) by (auto dest: dvd_imp_le)
  then show "r2 = r" and "r3 = r" using k1 k2 by simp_all
qed

lemma check_verdict:
  "ri_incompatible (fst (check (Some r) info evs)) = verdict (at_table r) info"
  "checked (fst (check (Some r) info evs)) = generation (at_generation r)"
  "ri_table (fst (check (Some r) info evs)) = ri_table info"
  "ri_shape (fst (check (Some r) info evs)) = ri_shape info"
  by (auto simp: check_def Let_def verdict_def split: option.splits)

lemma report_table: "ev \<in> inc_table ` set (report evs e) \<longleftrightarrow> ev \<in> inc_table ` set evs \<or> ev = inc_table e"
  by (auto simp: report_def list_ex_iff) (metis image_eqI)

lemma check_reports:
  "ri_incompatible (fst (check (Some r) info evs)) \<noteq> None \<Longrightarrow>
     ri_table info \<in> inc_table ` set (snd (check (Some r) info evs))"
  by (auto simp: check_def Let_def report_table split: option.splits if_splits)

lemma check_keeps_events:
  "inc_table ` set evs \<subseteq> inc_table ` set (snd (check regs info evs))"
  by (auto simp: check_def Let_def report_table split: option.splits if_splits)

text \<open>C13: reading the generation before the baselines makes the cached verdict safe against a
  validation that runs meanwhile. Whatever shapes are recorded between the decoder's reads, and
  after them, up to a state \<open>now\<close>: as long as the relation's \<open>checked\<close> equals the generation of
  \<open>now\<close>, its verdict is the verdict of \<open>now\<close>, and an incompatible verdict has been reported
  (fewer than \<open>2 ^ 64\<close> recordings in between, so that the counter does not wrap around to the value
  read).\<close>

theorem check_race_free:
  assumes "at_table r = foldl recordShape (at_generation r) s1" and "now = foldl recordShape (at_table r) s2"
    and "length s1 + length s2 < 2 ^ 64"
    and "check (Some r) info evs = (info', evs')"
  shows "verdict_current now info' \<and>
    (ri_incompatible info' \<noteq> None \<longrightarrow> ri_table info \<in> inc_table ` set evs') \<and>
    inc_table ` set evs \<subseteq> inc_table ` set evs'"
proof -
  have info': "info' = fst (check (Some r) info evs)" and evs': "evs' = snd (check (Some r) info evs)"
    using assms(4) by simp_all
  have "verdict_current now info'"
    unfolding verdict_current_def
  proof
    assume "checked info' = generation now"
    then have "generation now = generation (at_generation r)"
      using info' check_verdict(2) [of r info evs] by simp
    from same_generation_unmoved [OF assms(1-3) this] have "at_table r = now" by simp
    then show "ri_incompatible info' = verdict now info'"
      using info' check_verdict [of r info evs] verdict_cong [of info' info] by simp
  qed
  then show ?thesis
    using check_reports [of r info evs] check_keeps_events [of evs "Some r" info] info' evs' by auto
qed

definition racing_reads :: reads where
  "racing_reads = \<lparr>at_skip = newShapes, at_generation = newShapes, at_oid = newShapes,
     at_table = recordShape newShapes (swap_shape ''public.items'' 8)\<rparr>"

theorem check_race_free_witness:
  "verdict_current (recordShape newShapes (swap_shape ''public.items'' 8))
     (fst (check (Some racing_reads) sample_info []))"
proof -
  let ?now = "recordShape newShapes (swap_shape ''public.items'' 8)"
  have 1: "at_table racing_reads = foldl recordShape (at_generation racing_reads) [swap_shape ''public.items'' 8]"
    by (simp add: racing_reads_def)
  have 2: "?now = foldl recordShape (at_table racing_reads) []"
    by (simp add: racing_reads_def)
  have 3: "length [swap_shape ''public.items'' 8] + length ([] :: relationShape list) < 2 ^ 64" by simp
  show ?thesis
    using check_race_free [OF 1 2 3 surjective_pairing] by blast
qed

text \<open>The relation a row message names.\<close>

fun row_relation :: "message \<Rightarrow> oid option" where
  "row_relation (InsertMessage i t) = Some i"
| "row_relation (UpdateMessage i old new) = Some i"
| "row_relation (DeleteMessage i old) = Some i"
| "row_relation _ = None"

lemma Consume_row: "row_relation m = Some i \<Longrightarrow> \<exists>dec. Consume regs d m = consume_row regs d i dec"
  by (cases m) auto

lemma skip_verdict:
  assumes "relation d i = Inr info" "verdict_current now info"
  shows "\<exists>d'. skip (Some (quiet now)) d i = (d', Inr (verdict now info \<noteq> None)) \<and>
     same_but_verdicts d d' \<and>
     (checked info \<noteq> generation now \<and> verdict now info \<noteq> None \<longrightarrow> ri_table info \<in> inc_table ` set (events d'))"
proof (cases "checked info = generation now")
  case True
  then have "skip (Some (quiet now)) d i = (d, Inr (verdict now info \<noteq> None))"
    using assms by (simp add: skip_def quiet_def verdict_current_def)
  with skip_frame(1) [OF this] True show ?thesis by blast
next
  case False
  let ?d = "check_relation (Some (quiet now)) d i info"
  have "relation ?d i = Inr (fst (check (Some (quiet now)) info (events d)))"
    by (simp add: relation_def check_relation_relations)
  then have "skip (Some (quiet now)) d i = (?d, Inr (verdict now info \<noteq> None))"
    using assms(1) False check_verdict(1) [of "quiet now" info "events d"]
    by (simp add: skip_def quiet_def)
  moreover have "verdict now info \<noteq> None \<longrightarrow> ri_table info \<in> inc_table ` set (events ?d)"
    using check_reports [of "quiet now" info "events d"] check_verdict(1) [of "quiet now" info "events d"]
    by (simp add: check_relation_def case_prod_beta quiet_def)
  ultimately show ?thesis using check_relation_frame by blast
qed

text \<open>C14: no change of a table whose shape left its validated baseline enters a transaction. With an
  up-to-date verdict, a row message of such a relation succeeds, emits nothing and adds nothing to
  the pending batch, and if the baseline moved since the last check the table is among the events
  the next transaction carries.\<close>

theorem incompatible_rows_dropped:
  assumes "relation d i = Inr info" and "verdict_current now info" and "row_relation m = Some i"
    and "baselineByTable now (ri_table info) = Some b" and "diff b (ri_shape info) \<noteq> None"
  shows "\<exists>d'. Consume (Some (quiet now)) d m = (d', Inr None) \<and> same_but_verdicts d d' \<and>
    (checked info \<noteq> generation now \<longrightarrow> ri_table info \<in> inc_table ` set (events d'))"
proof -
  have v: "verdict now info \<noteq> None" using assms(4,5) by (auto simp: verdict_def)
  obtain dec where "Consume (Some (quiet now)) d m = consume_row (Some (quiet now)) d i dec"
    using Consume_row [OF assms(3)] by blast
  with skip_verdict [OF assms(1,2)] v show ?thesis by (auto simp: consume_row_def)
qed

theorem incompatible_rows_dropped_witness:
  "\<exists>d'. Consume (Some (quiet (recordShape newShapes (swap_shape ''public.items'' 8)))) sample_decoder
     (DeleteMessage 7 None) = (d', Inr None) \<and> ''public.items'' \<in> inc_table ` set (events d')"
proof -
  let ?now = "recordShape newShapes (swap_shape ''public.items'' 8)"
  have g: "checked sample_info = 0" "generation ?now = 1" "rs_oid (ri_shape sample_info) = 7"
    by (simp_all add: sample_info_def newRelationInfo_def generation_def recordShape_def newShapes_def
        shapeOfRelation_def)
  have b: "baselineByTable ?now (ri_table sample_info) = Some (swap_shape ''public.items'' 8)"
    by (simp add: baselineByTable_def recordShape_def newShapes_def sample_info_simps swap_shape_def)
  have df: "diff (swap_shape ''public.items'' 8) (ri_shape sample_info) \<noteq> None"
    using g(3) by (simp add: diff_def swap_shape_def)
  have "verdict_current ?now sample_info" using g by (simp add: verdict_current_def)
  from incompatible_rows_dropped [OF sample_relation this, of "DeleteMessage 7 None", OF _ b df] g
  show ?thesis by (auto simp: sample_info_simps)
qed

section \<open>A rename that goes unnoticed\<close>

definition renamed_msg :: relation_msg where
  "renamed_msg = \<lparr>rm_relationID = 2, rm_namespace = [], rm_relationName = ''c'',
     rm_replicaIdentity = CHR ''d'', rm_columns = []\<rparr>"

text \<open>Tables \<open>a\<close> and \<open>b\<close> exchange their names and both specs are re-validated; then \<open>a\<close> (relation
  id 2) is renamed to \<open>c\<close>. The decoder reports nothing, although \<open>a\<close>'s baseline is recorded with
  relation id 2; a registry that was told only of \<open>a\<close>'s new shape makes it report the rename.\<close>

theorem swap_hides_rename:
  "map_option rs_oid (baselineByTable swapped ''a'') = Some 2 \<and>
   events (fst (Consume (Some (quiet swapped)) NewDecoder (RelationMessage renamed_msg))) = [] \<and>
   events (fst (Consume (Some (quiet (recordShape newShapes (swap_shape ''a'' 2)))) NewDecoder
     (RelationMessage renamed_msg))) = [\<lparr>inc_table = ''a'', inc_difference = TableRenamed ''c''\<rparr>]"
proof -
  have info: "ri_oid (newRelationInfo renamed_msg) = 2" "ri_table (newRelationInfo renamed_msg) = ''c''"
    by (simp_all add: newRelationInfo_def renamed_msg_def qualifiedTable_def)
  have fresh: "baselineByOID (recordShape newShapes (swap_shape ''a'' 2)) 2 = Some (swap_shape ''a'' 2)"
    "baselineByTable (recordShape newShapes (swap_shape ''a'' 2)) ''c'' = None"
    by (simp_all add: baselineByOID_def baselineByTable_def recordShape_def newShapes_def swap_shape_def)
  show ?thesis
    by (simp add: swapped_simps swap_shape_def check_relation_def check_def quiet_def Let_def info fresh
        NewDecoder_def NewDecoderWithLimits_def report_def fresh [unfolded swap_shape_def])
qed

end
