(* ===== verification/Hub.thy ===== *)
theory Hub
  imports Transactions
begin

text \<open>
  The hub (\<open>internal/watch/hub.go\<close>, events of \<open>event.go\<close>): the replay ring, the registered watchers
  with their bounded queues, the routes that index them, and \<open>Accept\<close>, which hands a committed
  transaction to every watcher it concerns.

  A \<open>*watcher\<close> is a \<open>wid\<close> into the hub's \<open>heap\<close> of watcher objects, so that a watcher keeps its
  queue after the hub has forgotten it. A \<open>*route\<close> is its table and position in the table's route
  list. Channels: a watcher's queue is a list bounded by \<open>queueSize\<close>; \<open>overflow\<close> is true once
  closed; \<open>tick\<close> is the number of the current tick channel, and a tick is closed when a newer one
  is current. Every function here runs under the hub's mutex in the source (\<open>...Locked\<close>).
  Instruments are not modelled.
\<close>

section \<open>Events\<close>

datatype resyncReason =
    ResyncCursorUnavailable | ResyncSlowWatcher | ResyncSnapshotWindowClosed
  | ResyncSourceStopped | ResyncSchemaChanged

type_synonym row = "(string, string option) gomap"

record batch =
  bt_cursor :: cursor
  bt_commitTime :: gotime
  bt_changes :: "change list"
  bt_memo :: "nat option"

datatype event =
    SnapshotBegin
  | SnapshotRows "row list"
  | SnapshotEnd
  | Batch batch
  | Progress cursor
  | Resync resyncReason

section \<open>State\<close>

type_synonym wid = nat

record projection =
  pr_spec :: projectionSpec
  pr_table :: string

record queued =
  q_transaction :: transaction
  q_changes :: "change list"
  q_memo :: "nat option"

record watcher =
  w_projection :: projection
  w_scope :: string
  w_queue :: "queued list"
  w_overflow :: bool
  w_reason :: "resyncReason option"

record route =
  scopeColumn :: string
  scopes :: "(string, wid list) gomap"

type_synonym deliveryKey = "(string \<times> nat) \<times> string"

record delivery =
  d_watchers :: "wid list"
  d_changes :: "change list"

record hub =
  sourceID :: string
  projections :: "(string, projection) gomap"
  maxReplay :: int
  queueSize :: int
  ring :: "transaction list"
  received :: cursor
  hasReceived :: bool
  floorCursor :: cursor
  hasFloor :: bool
  lastEvicted :: cursor
  hasEvicted :: bool
  watchers :: "wid list"
  stale :: "string list"
  routes :: "(string, route list) gomap"
  tick :: nat
  tickTaken :: bool
  memos :: nat
  stopped :: bool
  heap :: "wid \<Rightarrow> watcher"

definition defaultMaxReplayTransactions :: int where "defaultMaxReplayTransactions = 10000"
definition defaultWatcherQueue :: int where "defaultWatcherQueue = 1024"

record config =
  cfg_sourceID :: string
  cfg_projections :: "(string, projectionSpec) gomap"
  cfg_maxReplay :: int
  cfg_watcherQueue :: int

definition zeroProjection :: projection where
  "zeroProjection = \<lparr>pr_spec = \<lparr>SourceID = [], Schema = [], TableName = [], ScopeColumn = [], PrimaryKey = []\<rparr>,
     pr_table = []\<rparr>"

definition zeroWatcher :: watcher where
  "zeroWatcher = \<lparr>w_projection = zeroProjection, w_scope = [], w_queue = [], w_overflow = False, w_reason = None\<rparr>"

fun new_projections ::
    "string \<Rightarrow> (string, projectionSpec) gomap \<Rightarrow> (string, projection) gomap
      \<Rightarrow> goerror + (string, projection) gomap" where
  "new_projections src [] ps = Inr ps"
| "new_projections src ((name, spec) # rest) ps =
     (if name = [] \<or> SourceID spec \<noteq> src then Inl (Errorf [Sentinel ErrInvalidHubConfig])
      else new_projections src rest
        (AList.update name \<lparr>pr_spec = spec, pr_table = Schema spec @ ''.'' @ TableName spec\<rparr> ps))"

text \<open>\<open>New\<close>; \<open>has_snapshotter\<close> says whether the snapshotter given is non-nil.\<close>

definition New :: "config \<Rightarrow> bool \<Rightarrow> goerror + hub" where
  "New cfg has_snapshotter =
     (if cfg_sourceID cfg = [] \<or> cfg_projections cfg = [] \<or> \<not> has_snapshotter
      then Inl (Sentinel ErrInvalidHubConfig)
      else
        (let mr = (if cfg_maxReplay cfg = 0 then defaultMaxReplayTransactions else cfg_maxReplay cfg);
             wq = (if cfg_watcherQueue cfg = 0 then defaultWatcherQueue else cfg_watcherQueue cfg)
         in if mr < 0 \<or> wq < 0 then Inl (Sentinel ErrInvalidHubConfig)
            else rbind (new_projections (cfg_sourceID cfg) (cfg_projections cfg) []) (\<lambda>ps.
              Inr \<lparr>sourceID = cfg_sourceID cfg, projections = ps, maxReplay = mr, queueSize = wq,
                   ring = [], received = zeroCursor, hasReceived = False,
                   floorCursor = zeroCursor, hasFloor = False,
                   lastEvicted = zeroCursor, hasEvicted = False,
                   watchers = [], stale = [], routes = [], tick = 0, tickTaken = False,
                   memos = 0, stopped = False, heap = (\<lambda>_. zeroWatcher)\<rparr>)))"

section \<open>Projections and batches\<close>

definition projection_changes :: "projection \<Rightarrow> string \<Rightarrow> transaction \<Rightarrow> change list" where
  "projection_changes p scope t =
     filter (\<lambda>ch. Table ch = pr_table p \<and> gm_get (Key ch) (ScopeColumn (pr_spec p)) [] = scope) (Changes t)"

definition appendBatch :: "watcher \<Rightarrow> batch list \<Rightarrow> transaction \<Rightarrow> batch list" where
  "appendBatch w batches t =
     (let changes = projection_changes (w_projection w) (w_scope w) t
      in if changes \<noteq> []
         then batches @ [\<lparr>bt_cursor = Cursor_of t, bt_commitTime = CommitTime t, bt_changes = changes, bt_memo = None\<rparr>]
         else batches)"

section \<open>Routes and registration\<close>

fun find_route :: "route list \<Rightarrow> string \<Rightarrow> nat \<Rightarrow> nat option" where
  "find_route [] col i = None"
| "find_route (r # rs) col i = (if scopeColumn r = col then Some i else find_route rs col (Suc i))"

definition routeLocked :: "hub \<Rightarrow> projection \<Rightarrow> hub \<times> nat" where
  "routeLocked h p =
     (let rs = gm_get (routes h) (pr_table p) []
      in case find_route rs (ScopeColumn (pr_spec p)) 0 of
           Some i \<Rightarrow> (h, i)
         | None \<Rightarrow>
             (h\<lparr>routes := AList.update (pr_table p) (rs @ [\<lparr>scopeColumn = ScopeColumn (pr_spec p), scopes = []\<rparr>]) (routes h)\<rparr>,
              length rs))"

text \<open>Writing \<open>r.scopes\<close> through the \<open>i\<close>-th route pointer of \<open>table\<close>.\<close>

definition set_scopes :: "hub \<Rightarrow> string \<Rightarrow> nat \<Rightarrow> (string, wid list) gomap \<Rightarrow> hub" where
  "set_scopes h table i m =
     (let rs = gm_get (routes h) table []
      in h\<lparr>routes := AList.update table (rs[i := (rs ! i)\<lparr>scopes := m\<rparr>]) (routes h)\<rparr>)"

definition get_scopes :: "hub \<Rightarrow> string \<Rightarrow> nat \<Rightarrow> (string, wid list) gomap" where
  "get_scopes h table i = scopes (gm_get (routes h) table [] ! i)"

definition registerLocked :: "hub \<Rightarrow> wid \<Rightarrow> hub" where
  "registerLocked h w =
     (let p = w_projection (heap h w); scope = w_scope (heap h w);
          h1 = h\<lparr>watchers := List.insert w (watchers h)\<rparr>;
          (h2, i) = routeLocked h1 p;
          m = get_scopes h2 (pr_table p) i
      in set_scopes h2 (pr_table p) i (AList.update scope (gm_get m scope [] @ [w]) m))"

definition removeLocked :: "hub \<Rightarrow> wid \<Rightarrow> hub \<times> bool" where
  "removeLocked h w =
     (if w \<notin> set (watchers h) then (h, False)
      else
        (let p = w_projection (heap h w); scope = w_scope (heap h w);
             h1 = h\<lparr>watchers := removeAll w (watchers h)\<rparr>;
             (h2, i) = routeLocked h1 p;
             m = get_scopes h2 (pr_table p) i;
             remaining = filter (\<lambda>other. other \<noteq> w) (gm_get m scope [])
         in (set_scopes h2 (pr_table p) i
               (if remaining = [] then AList.delete scope m else AList.update scope remaining m), True)))"

definition endLocked :: "hub \<Rightarrow> wid \<Rightarrow> resyncReason \<Rightarrow> hub" where
  "endLocked h w reason =
     (case removeLocked h w of
        (h1, True) \<Rightarrow> h1\<lparr>heap := (heap h1)(w := (heap h1 w)\<lparr>w_reason := Some reason, w_overflow := True\<rparr>)\<rparr>
      | (h1, False) \<Rightarrow> h1)"

definition dropLocked :: "hub \<Rightarrow> wid \<Rightarrow> hub" where
  "dropLocked h w = endLocked h w ResyncSlowWatcher"

definition unregister :: "hub \<Rightarrow> wid \<Rightarrow> hub" where
  "unregister h w = fst (removeLocked h w)"

section \<open>The replay window\<close>

definition evictLocked :: "hub \<Rightarrow> hub" where
  "evictLocked h =
     (let evicted = Cursor_of (hd (ring h));
          h1 = h\<lparr>ring := tl (ring h), lastEvicted := evicted, hasEvicted := True\<rparr>
      in if hasFloor h1 \<and> later evicted (floorCursor h1) then h1\<lparr>floorCursor := evicted\<rparr> else h1)"

function evict_loop :: "hub \<Rightarrow> hub" where
  "evict_loop h = (if ring h \<noteq> [] \<and> int (length (ring h)) > maxReplay h then evict_loop (evictLocked h) else h)"
  by pat_completeness auto
termination
  by (relation "measure (\<lambda>h. length (ring h))") (auto simp: evictLocked_def Let_def)

definition replayableLocked :: "hub \<Rightarrow> cursor \<Rightarrow> bool" where
  "replayableLocked h c =
     (if \<not> hasFloor h then False
      else case Compare c (floorCursor h) of Inl _ \<Rightarrow> False | Inr order \<Rightarrow> order \<ge> 0)"

definition recordSnapshotLocked :: "hub \<Rightarrow> cursor \<Rightarrow> hub" where
  "recordSnapshotLocked h c =
     (if hasFloor h then h
      else h\<lparr>floorCursor := (if hasEvicted h \<and> later (lastEvicted h) c then lastEvicted h else c),
             hasFloor := True\<rparr>)"

text \<open>\<open>for w := range h.watchers\<close> visits the watchers in any order; ending one watcher does not
  affect what is done to another.\<close>

definition invalidateLocked :: "hub \<Rightarrow> string \<Rightarrow> cursor \<Rightarrow> hub" where
  "invalidateLocked h table c =
     (let h1 = h\<lparr>stale := List.insert table (stale h)\<rparr>;
          h2 = foldl (\<lambda>h' w. if pr_table (w_projection (heap h' w)) = table then endLocked h' w ResyncSchemaChanged else h')
                 h1 (watchers h1);
          h3 = (if hasFloor h2 \<and> later c (floorCursor h2) then h2\<lparr>floorCursor := c\<rparr> else h2)
      in if \<not> hasEvicted h3 \<or> later c (lastEvicted h3) then h3\<lparr>lastEvicted := c, hasEvicted := True\<rparr> else h3)"

section \<open>Deliveries\<close>

definition indexedDeliveries :: nat where "indexedDeliveries = 8"

record scratch =
  deliveries :: "delivery list"
  deliveryKeys :: "deliveryKey list"
  deliveryIndex :: "(deliveryKey, nat) gomap"

definition no_deliveries :: scratch where
  "no_deliveries = \<lparr>deliveries = [], deliveryKeys = [], deliveryIndex = []\<rparr>"

text \<open>The scan from the newest key down: \<open>scan_keys keys key n\<close> looks at positions below \<open>n\<close>.\<close>

fun scan_keys :: "deliveryKey list \<Rightarrow> deliveryKey \<Rightarrow> nat \<Rightarrow> nat option" where
  "scan_keys keys key 0 = None"
| "scan_keys keys key (Suc i) = (if keys ! i = key then Some i else scan_keys keys key i)"

fun index_keys :: "deliveryKey list \<Rightarrow> nat \<Rightarrow> (deliveryKey, nat) gomap \<Rightarrow> (deliveryKey, nat) gomap" where
  "index_keys [] i m = m"
| "index_keys (k # ks) i m = index_keys ks (Suc i) (AList.update k i m)"

definition deliveryLocked :: "scratch \<Rightarrow> deliveryKey \<Rightarrow> wid list \<Rightarrow> scratch \<times> nat" where
  "deliveryLocked s key ws =
     (case (if length (deliveryKeys s) \<le> indexedDeliveries
            then scan_keys (deliveryKeys s) key (length (deliveryKeys s))
            else map_of (deliveryIndex s) key) of
        Some i \<Rightarrow> (s, i)
      | None \<Rightarrow>
          (let ks = deliveryKeys s @ [key]; n = length ks;
               index = (if n = indexedDeliveries + 1 then index_keys ks 0 (deliveryIndex s)
                        else if n > indexedDeliveries + 1 then AList.update key (n - 1) (deliveryIndex s)
                        else deliveryIndex s)
           in (\<lparr>deliveries = deliveries s @ [\<lparr>d_watchers = ws, d_changes = []\<rparr>], deliveryKeys = ks, deliveryIndex = index\<rparr>,
               length (deliveries s))))"

definition add_change :: "scratch \<Rightarrow> deliveryKey \<Rightarrow> wid list \<Rightarrow> change \<Rightarrow> scratch" where
  "add_change s key ws ch =
     (let (s1, i) = deliveryLocked s key ws; d = deliveries s1 ! i
      in s1\<lparr>deliveries := (deliveries s1)[i := d\<lparr>d_changes := d_changes d @ [ch]\<rparr>]\<rparr>)"

fun route_change :: "string \<Rightarrow> change \<Rightarrow> route list \<Rightarrow> nat \<Rightarrow> scratch \<Rightarrow> scratch" where
  "route_change table ch [] i s = s"
| "route_change table ch (r # rs) i s =
     (let scope = gm_get (Key ch) (scopeColumn r) []; ws = gm_get (scopes r) scope []
      in route_change table ch rs (Suc i) (if ws = [] then s else add_change s ((table, i), scope) ws ch))"

definition collect_deliveries :: "hub \<Rightarrow> change list \<Rightarrow> scratch" where
  "collect_deliveries h chs =
     foldl (\<lambda>s ch. route_change (Table ch) ch (gm_get (routes h) (Table ch) []) 0 s) no_deliveries chs"

text \<open>The non-blocking send of \<open>Accept\<close>: a full queue drops the watcher.\<close>

definition send_queued :: "queued \<Rightarrow> hub \<Rightarrow> wid \<Rightarrow> hub" where
  "send_queued item h w =
     (if int (length (w_queue (heap h w))) < queueSize h
      then h\<lparr>heap := (heap h)(w := (heap h w)\<lparr>w_queue := w_queue (heap h w) @ [item]\<rparr>)\<rparr>
      else dropLocked h w)"

definition deliver :: "transaction \<Rightarrow> hub \<Rightarrow> delivery \<Rightarrow> hub" where
  "deliver t h d =
     (let memo = (if length (d_watchers d) > 1 then Some (memos h) else None);
          h1 = (if length (d_watchers d) > 1 then h\<lparr>memos := memos h + 1\<rparr> else h)
      in foldl (send_queued \<lparr>q_transaction = t, q_changes = d_changes d, q_memo = memo\<rparr>) h1 (d_watchers d))"

section \<open>Accept\<close>

definition advance :: "hub \<Rightarrow> transaction \<Rightarrow> hub" where
  "advance h t =
     (let h1 = h\<lparr>received := Cursor_of t, hasReceived := True\<rparr>;
          h2 = (if tickTaken h1 then h1\<lparr>tick := tick h1 + 1, tickTaken := False\<rparr> else h1)
      in evict_loop (h2\<lparr>ring := ring h2 @ [t]\<rparr>))"

definition accept_new :: "hub \<Rightarrow> transaction \<Rightarrow> hub" where
  "accept_new h t =
     (let h1 = advance h t;
          h2 = foldl (\<lambda>h' inc. invalidateLocked h' (inc_table inc) (Cursor_of t)) h1 (Incompatible t)
      in foldl (deliver t) h2 (deliveries (collect_deliveries h2 (Changes t))))"

definition Accept :: "hub \<Rightarrow> transaction \<Rightarrow> goerror + hub" where
  "Accept h t =
     (if hasReceived h then
        rbind (Compare (Cursor_of t) (received h)) (\<lambda>order. if order \<le> 0 then Inr h else Inr (accept_new h t))
      else Inr (accept_new h t))"

definition Stop :: "hub \<Rightarrow> hub" where
  "Stop h = h\<lparr>stopped := True\<rparr>"

section \<open>Positions\<close>

text \<open>\<open>position\<close>: the newest accepted cursor and the tick to wait on; taking the tick is a state change.\<close>

definition position :: "hub \<Rightarrow> hub \<times> cursor \<times> bool \<times> nat" where
  "position h = (h\<lparr>tickTaken := True\<rparr>, received h, hasReceived h, tick h)"

definition tick_closed :: "hub \<Rightarrow> nat \<Rightarrow> bool" where
  "tick_closed h n = (n < tick h)"

end
