(* ===== verification/Watch.thy ===== *)
theory Watch
  imports Hub
begin

text \<open>
  The watch goroutines of the hub (\<open>internal/watch/hub.go\<close>: \<open>Watch\<close>, \<open>resume\<close>, \<open>snapshot\<close>,
  \<open>live\<close>), each running concurrently with \<open>Accept\<close>, \<open>Stop\<close> and the other watches.

  A goroutine is a program counter, \<open>pc\<close>, with the local variables that are live there, and the list of
  events it has sent. A step runs to the next point where another goroutine can be seen: one section
  under the hub's mutex, one channel operation, or one call of \<open>send\<close> or of the snapshotter.
  What the environment decides is the step's \<open>choice\<close>: whether \<open>send\<close> fails, what the snapshotter
  delivers and returns, when the context ends, and which ready case a \<open>select\<close> takes. A choice
  that is not possible at a program counter gives \<open>None\<close>. When \<open>send\<close> fails on a batch of snapshot
  rows, the snapshotter gets the error and the goroutine is seen again when the snapshotter returns.
\<close>

section \<open>Goroutines\<close>

record request =
  req_projection :: string
  req_scope :: string
  req_resumeCursor :: string

text \<open>How \<open>live\<close> was entered: from \<open>resume\<close> with its cursor, or from \<open>snapshot\<close> with the snapshot.
  It fixes the arguments \<open>base\<close>, \<open>baseSafe\<close> and \<open>need\<close> of \<open>live\<close>.\<close>

datatype mode = Resumed cursor | Snapshotted snapshot

fun base_of :: "mode \<Rightarrow> cursor" where
  "base_of (Resumed c) = c"
| "base_of (Snapshotted s) = snap_cursor s"

fun base_safe :: "mode \<Rightarrow> bool" where
  "base_safe (Resumed c) = True"
| "base_safe (Snapshotted s) = False"

fun need :: "mode \<Rightarrow> transaction \<Rightarrow> goerror + bool" where
  "need (Resumed c) t = After t c"
| "need (Snapshotted s) t = rbind (Covers s t) (\<lambda>covered. Inr (\<not> covered))"

datatype pc =
    Idle
  | Called request
  | Resuming cursor
  | Snapshotting
  | SnapBegin "transaction list"
  | SnapRead "transaction list"
  | SnapCheck "transaction list" snapshot
  | SnapStale "transaction list" snapshot
  | SnapRecord "batch list" snapshot
  | SnapEnd "batch list" snapshot
  | Backlog "batch list" mode
  | LivePosition mode bool cursor
  | LiveDrain mode bool cursor cursor bool nat
  | LiveSend queued mode bool cursor cursor bool nat
  | LiveProgress mode bool cursor cursor bool nat
  | LiveSelect mode cursor nat
  | Refusing event
  | Ending event
  | Leaving "goerror option"
  | Done "goerror option"

record thread =
  th_pc :: pc
  th_sent :: "event list"

datatype choice =
    Run
  | SendOk
  | SendErr goerror
  | Rows "row list"
  | SnapshotReturns "goerror + snapshot"
  | CtxDone goerror
  | TakeOverflow
  | TakeStopped
  | TakeTick

definition at :: "hub \<Rightarrow> thread \<Rightarrow> pc \<Rightarrow> (hub \<times> thread) option" where
  "at h th p = Some (h, th\<lparr>th_pc := p\<rparr>)"

text \<open>\<open>send(e)\<close>: on success the event is delivered and the goroutine goes on, otherwise it returns
  the error through \<open>quit\<close>.\<close>

definition send :: "choice \<Rightarrow> hub \<Rightarrow> thread \<Rightarrow> event \<Rightarrow> pc \<Rightarrow> (goerror option \<Rightarrow> pc) \<Rightarrow> (hub \<times> thread) option" where
  "send ch h th e next quit =
     (case ch of
        SendOk \<Rightarrow> Some (h, th\<lparr>th_pc := next, th_sent := th_sent th @ [e]\<rparr>)
      | SendErr err \<Rightarrow> Some (h, th\<lparr>th_pc := quit (Some err)\<rparr>)
      | _ \<Rightarrow> None)"

section \<open>Watch\<close>

definition new_watcher :: "projection \<Rightarrow> string \<Rightarrow> watcher" where
  "new_watcher p scope = \<lparr>w_projection = p, w_scope = scope, w_queue = [], w_overflow = False, w_reason = None\<rparr>"

definition start_watch :: "(string \<Rightarrow> lsn option) \<Rightarrow> hub \<Rightarrow> wid \<Rightarrow> thread \<Rightarrow> request \<Rightarrow> (hub \<times> thread) option" where
  "start_watch parse_lsn h w th req =
     (case map_of (projections h) (req_projection req) of
        None \<Rightarrow> at h th (Done (Some (Errorf [Sentinel ErrUnknownProjection])))
      | Some p \<Rightarrow>
          (let h1 = h\<lparr>heap := (heap h)(w := new_watcher p (req_scope req))\<rparr>
           in if stopped h1 then at h1 th (Refusing (Resync ResyncSourceStopped))
              else if req_resumeCursor req \<noteq> [] then
                (case ParseCursor parse_lsn (sourceID h1) (req_resumeCursor req) of
                   Inl e \<Rightarrow> at h1 th (Done (Some e))
                 | Inr c \<Rightarrow> at h1 th (Resuming c))
              else at h1 th Snapshotting))"

section \<open>resume\<close>

fun resume_backlog :: "watcher \<Rightarrow> cursor \<Rightarrow> transaction list \<Rightarrow> batch list \<Rightarrow> goerror + batch list" where
  "resume_backlog w c [] backlog = Inr backlog"
| "resume_backlog w c (t # ts) backlog =
     rbind (After t c) (\<lambda>after. resume_backlog w c ts (if after then appendBatch w backlog t else backlog))"

definition resume_locked :: "hub \<Rightarrow> wid \<Rightarrow> thread \<Rightarrow> cursor \<Rightarrow> (hub \<times> thread) option" where
  "resume_locked h w th c =
     (if pr_table (w_projection (heap h w)) \<in> set (stale h) then at h th (Refusing (Resync ResyncSchemaChanged))
      else if \<not> replayableLocked h c then at h th (Refusing (Resync ResyncCursorUnavailable))
      else case resume_backlog (heap h w) c (ring h) [] of
             Inl e \<Rightarrow> at h th (Done (Some e))
           | Inr backlog \<Rightarrow> at (registerLocked h w) th (Backlog backlog (Resumed c)))"

section \<open>snapshot\<close>

definition relevant :: "watcher \<Rightarrow> transaction \<Rightarrow> bool" where
  "relevant w t \<longleftrightarrow> projection_changes (w_projection w) (w_scope w) t \<noteq> []"

definition snapshot_locked :: "hub \<Rightarrow> wid \<Rightarrow> thread \<Rightarrow> (hub \<times> thread) option" where
  "snapshot_locked h w th = at (registerLocked h w) th (SnapBegin (filter (relevant (heap h w)) (ring h)))"

definition snapshot_returned ::
    "hub \<Rightarrow> thread \<Rightarrow> transaction list \<Rightarrow> goerror + snapshot \<Rightarrow> (hub \<times> thread) option" where
  "snapshot_returned h th ts r =
     (case r of
        Inl e \<Rightarrow>
          if errors_is e ErrSnapshotWindowClosed then at h th (Ending (Resync ResyncSnapshotWindowClosed))
          else if errors_is e ErrSourceStopped then at h th (Ending (Resync ResyncSourceStopped))
          else at h th (Leaving (Some e))
      | Inr s \<Rightarrow> at h th (SnapCheck ts s))"

fun snapshot_streamed :: "watcher \<Rightarrow> snapshot \<Rightarrow> transaction list \<Rightarrow> batch list \<Rightarrow> goerror + batch list" where
  "snapshot_streamed w s [] streamed = Inr streamed"
| "snapshot_streamed w s (t # ts) streamed =
     rbind (need (Snapshotted s) t) (\<lambda>needed. snapshot_streamed w s ts (if needed then appendBatch w streamed t else streamed))"

section \<open>live\<close>

definition live_position :: "hub \<Rightarrow> thread \<Rightarrow> mode \<Rightarrow> bool \<Rightarrow> cursor \<Rightarrow> (hub \<times> thread) option" where
  "live_position h th m first progressed =
     (case position h of
        (h1, pos, rcv, tk) \<Rightarrow>
          at h1 th (LiveDrain m first progressed (if \<not> rcv \<or> base_safe m \<and> later (base_of m) pos then base_of m else pos) rcv tk))"

definition batch_of_queued :: "queued \<Rightarrow> batch" where
  "batch_of_queued item = \<lparr>bt_cursor = Cursor_of (q_transaction item), bt_commitTime = CommitTime (q_transaction item),
     bt_changes = q_changes item, bt_memo = q_memo item\<rparr>"

definition passed :: "queued \<Rightarrow> cursor \<Rightarrow> cursor" where
  "passed item pos = (if later (Cursor_of (q_transaction item)) pos then Cursor_of (q_transaction item) else pos)"

text \<open>One turn of the drain loop: a receive from the queue, or its \<open>default\<close> case.\<close>

definition live_drain ::
    "hub \<Rightarrow> wid \<Rightarrow> thread \<Rightarrow> mode \<Rightarrow> bool \<Rightarrow> cursor \<Rightarrow> cursor \<Rightarrow> bool \<Rightarrow> nat \<Rightarrow> (hub \<times> thread) option" where
  "live_drain h w th m first progressed pos rcv tk =
     (case w_queue (heap h w) of
        [] \<Rightarrow> at h th (LiveProgress m first progressed pos rcv tk)
      | item # rest \<Rightarrow>
          (let h1 = h\<lparr>heap := (heap h)(w := (heap h w)\<lparr>w_queue := rest\<rparr>)\<rparr>
           in case need m (q_transaction item) of
                Inl e \<Rightarrow> at h1 th (Leaving (Some e))
              | Inr True \<Rightarrow> at h1 th (LiveSend item m first progressed pos rcv tk)
              | Inr False \<Rightarrow> at h1 th (LiveDrain m first progressed (passed item pos) rcv tk)))"

definition live_select ::
    "choice \<Rightarrow> hub \<Rightarrow> wid \<Rightarrow> thread \<Rightarrow> mode \<Rightarrow> cursor \<Rightarrow> nat \<Rightarrow> (hub \<times> thread) option" where
  "live_select ch h w th m progressed tk =
     (case ch of
        CtxDone e \<Rightarrow> at h th (Leaving (Some e))
      | TakeOverflow \<Rightarrow>
          (if w_overflow (heap h w) then
             (case w_reason (heap h w) of Some r \<Rightarrow> at h th (Ending (Resync r)) | None \<Rightarrow> None)
           else None)
      | TakeStopped \<Rightarrow> if stopped h then at h th (Ending (Resync ResyncSourceStopped)) else None
      | TakeTick \<Rightarrow> if tick_closed h tk then at h th (LivePosition m False progressed) else None
      | _ \<Rightarrow> None)"

section \<open>Steps\<close>

fun thread_step :: "(string \<Rightarrow> lsn option) \<Rightarrow> choice \<Rightarrow> hub \<Rightarrow> wid \<Rightarrow> thread \<Rightarrow> (hub \<times> thread) option" where
  "thread_step parse_lsn ch h w th =
     (case th_pc th of
        Idle \<Rightarrow> None
      | Called req \<Rightarrow> if ch = Run then start_watch parse_lsn h w th req else None
      | Resuming c \<Rightarrow> if ch = Run then resume_locked h w th c else None
      | Snapshotting \<Rightarrow> if ch = Run then snapshot_locked h w th else None
      | SnapBegin ts \<Rightarrow> send ch h th SnapshotBegin (SnapRead ts) Leaving
      | SnapRead ts \<Rightarrow>
          (case ch of
             Rows rs \<Rightarrow> send SendOk h th (SnapshotRows rs) (SnapRead ts) Leaving
           | SnapshotReturns r \<Rightarrow> snapshot_returned h th ts r
           | _ \<Rightarrow> None)
      | SnapCheck ts s \<Rightarrow>
          (if ch = Run then
             if w_overflow (heap h w) then
               (case w_reason (heap h w) of Some r \<Rightarrow> at h th (Ending (Resync r)) | None \<Rightarrow> None)
             else at h th (SnapStale ts s)
           else None)
      | SnapStale ts s \<Rightarrow>
          (if ch = Run then
             (let h1 = h\<lparr>stale := removeAll (pr_table (w_projection (heap h w))) (stale h)\<rparr>
              in case snapshot_streamed (heap h w) s ts [] of
                   Inl e \<Rightarrow> at h1 th (Leaving (Some e))
                 | Inr bs \<Rightarrow> at h1 th (SnapRecord bs s))
           else None)
      | SnapRecord bs s \<Rightarrow> if ch = Run then at (recordSnapshotLocked h (snap_cursor s)) th (SnapEnd bs s) else None
      | SnapEnd bs s \<Rightarrow> send ch h th SnapshotEnd (Backlog bs (Snapshotted s)) Leaving
      | Backlog [] m \<Rightarrow> if ch = Run then at h th (LivePosition m True zeroCursor) else None
      | Backlog (b # bs) m \<Rightarrow> send ch h th (Batch b) (Backlog bs m) Leaving
      | LivePosition m first progressed \<Rightarrow> if ch = Run then live_position h th m first progressed else None
      | LiveDrain m first progressed pos rcv tk \<Rightarrow>
          if ch = Run then live_drain h w th m first progressed pos rcv tk else None
      | LiveSend item m first progressed pos rcv tk \<Rightarrow>
          send ch h th (Batch (batch_of_queued item)) (LiveDrain m first progressed (passed item pos) rcv tk) Leaving
      | LiveProgress m first progressed pos rcv tk \<Rightarrow>
          (if first \<or> later pos progressed
           then send ch h th (Progress pos) (LiveSelect m pos tk) Leaving
           else if ch = Run then at h th (LiveSelect m progressed tk) else None)
      | LiveSelect m progressed tk \<Rightarrow> live_select ch h w th m progressed tk
      | Refusing e \<Rightarrow> send ch h th e (Done None) Done
      | Ending e \<Rightarrow> send ch h th e (Leaving None) Leaving
      | Leaving r \<Rightarrow> if ch = Run then at (unregister h w) th (Done r) else None
      | Done r \<Rightarrow> None)"

text \<open>The whole system: the hub, the watch goroutines, and, as auxiliary variables that no step of the
  code reads, the list \<open>s_hist\<close> of accepted transactions and, for each watcher, the position \<open>s_start\<close> in it of
  the first transaction that was in the ring when the watcher registered.\<close>

record sys =
  s_hub :: hub
  s_threads :: "wid \<Rightarrow> thread"
  s_hist :: "transaction list"
  s_start :: "wid \<Rightarrow> nat"

datatype action =
    Deliver transaction
  | Call wid request
  | Step wid choice
  | StopHub

definition idle_thread :: thread where
  "idle_thread = \<lparr>th_pc = Idle, th_sent = []\<rparr>"

definition start_sys :: "hub \<Rightarrow> sys" where
  "start_sys h = \<lparr>s_hub = h, s_threads = (\<lambda>_. idle_thread), s_hist = [], s_start = (\<lambda>_. 0)\<rparr>"

fun exec :: "(string \<Rightarrow> lsn option) \<Rightarrow> action \<Rightarrow> sys \<Rightarrow> sys option" where
  "exec parse_lsn (Deliver t) s =
     (case Accept (s_hub s) t of
        Inl e \<Rightarrow> Some s
      | Inr h \<Rightarrow> Some (s\<lparr>s_hub := h,
          s_hist := (if \<not> hasReceived (s_hub s) \<or> later (Cursor_of t) (received (s_hub s)) then s_hist s @ [t] else s_hist s)\<rparr>))"
| "exec parse_lsn (Call w req) s =
     (if th_pc (s_threads s w) = Idle
      then Some (s\<lparr>s_threads := (s_threads s)(w := (s_threads s w)\<lparr>th_pc := Called req\<rparr>)\<rparr>) else None)"
| "exec parse_lsn (Step w ch) s =
     (case thread_step parse_lsn ch (s_hub s) w (s_threads s w) of
        None \<Rightarrow> None
      | Some (h, th) \<Rightarrow>
          Some (s\<lparr>s_hub := h, s_threads := (s_threads s)(w := th),
            s_start := (if w \<notin> set (watchers (s_hub s)) \<and> w \<in> set (watchers h)
              then (s_start s)(w := length (s_hist s) - length (ring h)) else s_start s)\<rparr>))"
| "exec parse_lsn StopHub s = Some (s\<lparr>s_hub := Stop (s_hub s)\<rparr>)"

fun exec_all :: "(string \<Rightarrow> lsn option) \<Rightarrow> action list \<Rightarrow> sys \<Rightarrow> sys option" where
  "exec_all parse_lsn [] s = Some s"
| "exec_all parse_lsn (a # as) s = (case exec parse_lsn a s of None \<Rightarrow> None | Some s' \<Rightarrow> exec_all parse_lsn as s')"

text \<open>What the environment may do: deliver the stream in WAL order, or again, and return snapshots of the
  hub's source.\<close>

fun allowed :: "action \<Rightarrow> sys \<Rightarrow> bool" where
  "allowed (Deliver t) s =
     (if \<not> hasReceived (s_hub s) \<or> \<not> (cur_source (Cursor_of t) = cur_source (received (s_hub s)) \<and> cur_lsn (Cursor_of t) \<le> cur_lsn (received (s_hub s)))
      then cur_source (Cursor_of t) = sourceID (s_hub s) \<and> commitLSN t < cur_lsn (Cursor_of t) \<and>
        list_all (\<lambda>u. cur_lsn (Cursor_of u) \<le> commitLSN t) (s_hist s)
      else True)"
| "allowed (Step w (SnapshotReturns (Inr snap))) s = (cur_source (snap_cursor snap) = sourceID (s_hub s))"
| "allowed _ s = True"

inductive reachable :: "(string \<Rightarrow> lsn option) \<Rightarrow> hub \<Rightarrow> sys \<Rightarrow> bool" for parse_lsn h where
  reach_init: "reachable parse_lsn h (start_sys h)"
| reach_step: "reachable parse_lsn h s \<Longrightarrow> allowed a s \<Longrightarrow> exec parse_lsn a s = Some s' \<Longrightarrow> reachable parse_lsn h s'"

end
