(* ===== verification/Hub_Routes.thy ===== *)
theory Hub_Routes
  imports Hub
begin

text \<open>
  The hub's routing index, seen abstractly: \<open>scope_watchers\<close> is the list of watchers registered for
  a table, scope column and scope. Registration, removal, and the collection of a transaction's
  deliveries (scan or hash) are reduced to it.
\<close>

declare evict_loop.simps [simp del]

section \<open>The index\<close>

type_synonym place = "string \<times> string \<times> string"

definition home :: "watcher \<Rightarrow> place" where
  "home w = (pr_table (w_projection w), ScopeColumn (pr_spec (w_projection w)), w_scope w)"

fun scope_watchers :: "hub \<Rightarrow> place \<Rightarrow> wid list" where
  "scope_watchers h (tbl, col, scope) =
     (case find_route (gm_get (routes h) tbl []) col 0 of
        None \<Rightarrow> []
      | Some i \<Rightarrow> gm_get (get_scopes h tbl i) scope [])"

declare scope_watchers.simps [simp del]

definition columns_distinct :: "hub \<Rightarrow> bool" where
  "columns_distinct h \<longleftrightarrow> (\<forall>tbl. distinct (map scopeColumn (gm_get (routes h) tbl [])))"

lemma find_route_Some:
  "find_route rs col n = Some i \<Longrightarrow> n \<le> i \<and> i < n + length rs \<and> scopeColumn (rs ! (i - n)) = col"
proof (induction rs arbitrary: n)
  case (Cons r rs)
  then show ?case
    by (cases "scopeColumn r = col") (force simp: nth_Cons' dest: Cons.IH)+
qed simp

lemma find_route_None: "find_route rs col n = None \<longleftrightarrow> col \<notin> set (map scopeColumn rs)"
  by (induction rs arbitrary: n) auto

lemma find_route_append:
  "find_route (rs @ ss) col n =
     (case find_route rs col n of Some i \<Rightarrow> Some i | None \<Rightarrow> find_route ss col (n + length rs))"
  by (induction rs arbitrary: n) (auto split: option.split)

lemma find_route_nth:
  assumes "distinct (map scopeColumn rs)" "i < length rs"
  shows "find_route rs (scopeColumn (rs ! i)) 0 = Some i"
proof -
  have "scopeColumn (rs ! i) \<in> set (map scopeColumn rs)" using assms(2) by simp
  then obtain j where j: "find_route rs (scopeColumn (rs ! i)) 0 = Some j"
    using find_route_None [of rs "scopeColumn (rs ! i)" 0] by auto
  then have "j < length rs" "map scopeColumn rs ! j = map scopeColumn rs ! i"
    using find_route_Some [OF j] assms(2) by simp_all
  then have "j = i" using assms by (metis length_map nth_eq_iff_index_eq)
  with j show ?thesis by simp
qed

lemma find_route_columns: "map scopeColumn rs = map scopeColumn ss \<Longrightarrow> find_route rs col n = find_route ss col n"
proof (induction rs arbitrary: ss n)
  case (Cons r rs)
  then obtain s ss' where "ss = s # ss'" by (cases ss) auto
  with Cons show ?case by simp
qed simp

section \<open>What registration leaves alone\<close>

definition same_core :: "hub \<Rightarrow> hub \<Rightarrow> bool" where
  "same_core h h' \<longleftrightarrow> (\<exists>ws rs hp ms. h' = h\<lparr>watchers := ws, routes := rs, heap := hp, memos := ms\<rparr>)"

lemma same_core_simps:
  assumes "same_core h h'"
  shows "sourceID h' = sourceID h" "projections h' = projections h" "maxReplay h' = maxReplay h"
    "queueSize h' = queueSize h" "ring h' = ring h" "received h' = received h" "hasReceived h' = hasReceived h"
    "floorCursor h' = floorCursor h" "hasFloor h' = hasFloor h" "lastEvicted h' = lastEvicted h"
    "hasEvicted h' = hasEvicted h" "stale h' = stale h" "tick h' = tick h" "tickTaken h' = tickTaken h"
    "stopped h' = stopped h"
  using assms by (auto simp: same_core_def)

lemma same_core_refl [simp]: "same_core h h"
proof -
  have "h = h\<lparr>watchers := watchers h, routes := routes h, heap := heap h, memos := memos h\<rparr>" by simp
  then show ?thesis unfolding same_core_def by blast
qed

lemma same_core_trans [trans]: "same_core h h' \<Longrightarrow> same_core h' h'' \<Longrightarrow> same_core h h''"
  unfolding same_core_def by (elim exE) (simp, blast)

section \<open>Finding a route\<close>

lemma routeLocked_spec:
  assumes "columns_distinct h" "routeLocked h p = (h', i)"
  shows "columns_distinct h'" and "\<And>k. scope_watchers h' k = scope_watchers h k"
    and "find_route (gm_get (routes h') (pr_table p) []) (ScopeColumn (pr_spec p)) 0 = Some i"
    and "h' = h\<lparr>routes := routes h'\<rparr>"
proof -
  let ?t = "pr_table p" and ?c = "ScopeColumn (pr_spec p)"
  let ?rs = "gm_get (routes h) ?t []"
  have all: "columns_distinct h' \<and> (\<forall>k. scope_watchers h' k = scope_watchers h k) \<and>
      find_route (gm_get (routes h') ?t []) ?c 0 = Some i \<and> h' = h\<lparr>routes := routes h'\<rparr>"
  proof (cases "find_route ?rs ?c 0")
    case (Some j)
    then show ?thesis using assms by (auto simp: routeLocked_def Let_def)
  next
    case None
    then have h': "h' = h\<lparr>routes := AList.update ?t (?rs @ [\<lparr>scopeColumn = ?c, scopes = []\<rparr>]) (routes h)\<rparr>"
      "i = length ?rs"
      using assms(2) by (auto simp: routeLocked_def Let_def)
    have fresh: "?c \<notin> set (map scopeColumn ?rs)" using None by (simp add: find_route_None)
    have "columns_distinct h'"
      using assms(1) fresh by (simp add: columns_distinct_def h')
    moreover have "find_route (gm_get (routes h') ?t []) ?c 0 = Some i"
      using None by (simp add: h' find_route_append)
    moreover have "scope_watchers h' (tbl, col, scope) = scope_watchers h (tbl, col, scope)" for tbl col scope
    proof (cases "tbl = ?t")
      case True
      show ?thesis
      proof (cases "find_route ?rs col 0")
        case (Some j)
        then have "j < length ?rs" using find_route_Some [OF Some] by simp
        then show ?thesis using True Some
          by (simp add: scope_watchers.simps h' find_route_append get_scopes_def nth_append)
      next
        case None
        then show ?thesis using True
          by (auto simp: scope_watchers.simps h' find_route_append get_scopes_def nth_append)
      qed
    qed (simp add: scope_watchers.simps h' get_scopes_def split: option.split)
    ultimately show ?thesis by (auto simp: h')
  qed
  then show "columns_distinct h'" "\<And>k. scope_watchers h' k = scope_watchers h k"
    "find_route (gm_get (routes h') ?t []) ?c 0 = Some i" "h' = h\<lparr>routes := routes h'\<rparr>"
    by blast+
qed

lemma set_scopes_spec:
  assumes "columns_distinct h" "find_route (gm_get (routes h) tbl []) col 0 = Some i"
  shows "columns_distinct (set_scopes h tbl i m)"
    and "scope_watchers (set_scopes h tbl i m) k =
      (case k of (tbl', col', scope) \<Rightarrow>
         if tbl' = tbl \<and> col' = col then gm_get m scope [] else scope_watchers h k)"
proof -
  let ?rs = "gm_get (routes h) tbl []"
  let ?rs' = "?rs[i := (?rs ! i)\<lparr>scopes := m\<rparr>]"
  have i: "i < length ?rs" "scopeColumn (?rs ! i) = col"
    using find_route_Some [OF assms(2)] by simp_all
  have cols: "map scopeColumn ?rs' = map scopeColumn ?rs"
    using i(1) by (simp add: map_update list_update_same_conv)
  show "columns_distinct (set_scopes h tbl i m)"
    using assms(1) cols by (simp add: columns_distinct_def set_scopes_def Let_def)
  show "scope_watchers (set_scopes h tbl i m) k =
      (case k of (tbl', col', scope) \<Rightarrow>
         if tbl' = tbl \<and> col' = col then gm_get m scope [] else scope_watchers h k)"
  proof (cases k)
    case (fields tbl' col' scope)
    show ?thesis
    proof (cases "tbl' = tbl")
      case True
      have find: "find_route ?rs' col' 0 = find_route ?rs col' 0"
        using cols by (rule find_route_columns)
      have ne: "j \<noteq> i" if "find_route ?rs col' 0 = Some j" "col' \<noteq> col" for j
        using find_route_Some [OF that(1)] that(2) i(2) by auto
      show ?thesis
        using fields True find assms(2) i(1) ne
        by (auto simp: scope_watchers.simps set_scopes_def get_scopes_def Let_def split: option.splits)
    qed (use fields in \<open>simp add: scope_watchers.simps set_scopes_def get_scopes_def Let_def split: option.split\<close>)
  qed
qed

lemma set_scopes_frame: "\<exists>rs. set_scopes h tbl i m = h\<lparr>routes := rs\<rparr>"
  by (simp add: set_scopes_def Let_def) blast

section \<open>Registering and removing a watcher\<close>

lemma get_scopes_home:
  assumes "find_route (gm_get (routes h) tbl []) col 0 = Some i"
  shows "gm_get (get_scopes h tbl i) scope [] = scope_watchers h (tbl, col, scope)"
  using assms by (simp add: scope_watchers.simps)

lemma scope_watchers_cong: "routes h' = routes h \<Longrightarrow> scope_watchers h' k = scope_watchers h k"
  by (cases k) (simp add: scope_watchers.simps get_scopes_def split: option.split)

lemma columns_distinct_cong: "routes h' = routes h \<Longrightarrow> columns_distinct h' = columns_distinct h"
  by (simp add: columns_distinct_def)

lemma registerLocked_spec:
  assumes "columns_distinct h"
  shows "columns_distinct (registerLocked h w)"
    and "scope_watchers (registerLocked h w) k = scope_watchers h k @ (if k = home (heap h w) then [w] else [])"
    and "watchers (registerLocked h w) = List.insert w (watchers h)"
    and "heap (registerLocked h w) = heap h" and "same_core h (registerLocked h w)"
proof -
  let ?p = "w_projection (heap h w)" and ?s = "w_scope (heap h w)"
  let ?t = "pr_table ?p" and ?c = "ScopeColumn (pr_spec ?p)"
  let ?h1 = "h\<lparr>watchers := List.insert w (watchers h)\<rparr>"
  obtain h2 i where r: "routeLocked ?h1 ?p = (h2, i)" by (cases "routeLocked ?h1 ?p")
  have c1: "columns_distinct ?h1" using assms columns_distinct_cong [of ?h1 h] by simp
  note r2 = routeLocked_spec [OF c1 r]
  let ?m = "get_scopes h2 ?t i"
  have reg: "registerLocked h w = set_scopes h2 ?t i (AList.update ?s (gm_get ?m ?s [] @ [w]) ?m)"
    using r by (simp add: registerLocked_def Let_def)
  have h2: "\<exists>rs. h2 = ?h1\<lparr>routes := rs\<rparr>" using r2(4) by blast
  have sw2: "scope_watchers h2 k = scope_watchers h k" for k
    using r2(2) scope_watchers_cong [of ?h1 h] by simp
  note get = get_scopes_home [OF r2(3)]
  show "columns_distinct (registerLocked h w)"
    unfolding reg by (rule set_scopes_spec(1) [OF r2(1,3)])
  show "scope_watchers (registerLocked h w) k = scope_watchers h k @ (if k = home (heap h w) then [w] else [])"
    unfolding reg set_scopes_spec(2) [OF r2(1,3)]
    by (cases k) (auto simp: get sw2 home_def)
  obtain rs rs' where eq: "registerLocked h w = (?h1\<lparr>routes := rs\<rparr>)\<lparr>routes := rs'\<rparr>"
    using h2 set_scopes_frame [of h2 ?t i] unfolding reg by metis
  show "watchers (registerLocked h w) = List.insert w (watchers h)" "heap (registerLocked h w) = heap h"
    by (simp_all add: eq)
  have "registerLocked h w = h\<lparr>watchers := List.insert w (watchers h), routes := rs', heap := heap h, memos := memos h\<rparr>"
    by (simp add: eq)
  then show "same_core h (registerLocked h w)" unfolding same_core_def by blast
qed

lemma removeLocked_absent: "w \<notin> set (watchers h) \<Longrightarrow> removeLocked h w = (h, False)"
  by (simp add: removeLocked_def)

lemma removeLocked_spec:
  assumes "columns_distinct h" "w \<in> set (watchers h)"
  shows "snd (removeLocked h w)" and "columns_distinct (fst (removeLocked h w))"
    and "scope_watchers (fst (removeLocked h w)) k =
      (if k = home (heap h w) then filter (\<lambda>x. x \<noteq> w) (scope_watchers h k) else scope_watchers h k)"
    and "watchers (fst (removeLocked h w)) = removeAll w (watchers h)"
    and "heap (fst (removeLocked h w)) = heap h" and "same_core h (fst (removeLocked h w))"
    and "memos (fst (removeLocked h w)) = memos h"
proof -
  let ?p = "w_projection (heap h w)" and ?s = "w_scope (heap h w)"
  let ?t = "pr_table ?p" and ?c = "ScopeColumn (pr_spec ?p)"
  let ?h1 = "h\<lparr>watchers := removeAll w (watchers h)\<rparr>"
  obtain h2 i where r: "routeLocked ?h1 ?p = (h2, i)" by (cases "routeLocked ?h1 ?p")
  have c1: "columns_distinct ?h1" using assms columns_distinct_cong [of ?h1 h] by simp
  note r2 = routeLocked_spec [OF c1 r]
  let ?m = "get_scopes h2 ?t i"
  let ?rem = "filter (\<lambda>x. x \<noteq> w) (gm_get ?m ?s [])"
  let ?m' = "if ?rem = [] then AList.delete ?s ?m else AList.update ?s ?rem ?m"
  have rem: "removeLocked h w = (set_scopes h2 ?t i ?m', True)"
    using r assms(2) by (simp add: removeLocked_def Let_def)
  have h2: "\<exists>rs. h2 = ?h1\<lparr>routes := rs\<rparr>" using r2(4) by blast
  have sw2: "scope_watchers h2 k = scope_watchers h k" for k
    using r2(2) scope_watchers_cong [of ?h1 h] by simp
  note get = get_scopes_home [OF r2(3)]
  show "snd (removeLocked h w)" by (simp add: rem)
  show "columns_distinct (fst (removeLocked h w))"
    unfolding rem fst_conv by (rule set_scopes_spec(1) [OF r2(1,3)])
  show "scope_watchers (fst (removeLocked h w)) k =
      (if k = home (heap h w) then filter (\<lambda>x. x \<noteq> w) (scope_watchers h k) else scope_watchers h k)"
    unfolding rem fst_conv set_scopes_spec(2) [OF r2(1,3)]
    by (cases k) (auto simp: get sw2 home_def)
  obtain rs rs' where eq: "fst (removeLocked h w) = (?h1\<lparr>routes := rs\<rparr>)\<lparr>routes := rs'\<rparr>"
    using h2 set_scopes_frame [of h2 ?t i] unfolding rem fst_conv by metis
  show "watchers (fst (removeLocked h w)) = removeAll w (watchers h)" "heap (fst (removeLocked h w)) = heap h"
    "memos (fst (removeLocked h w)) = memos h"
    by (simp_all add: eq)
  have "fst (removeLocked h w) = h\<lparr>watchers := removeAll w (watchers h), routes := rs', heap := heap h, memos := memos h\<rparr>"
    by (simp add: eq)
  then show "same_core h (fst (removeLocked h w))" unfolding same_core_def by blast
qed

end
