(* ===== verification/Hub_Deliveries.thy ===== *)
theory Hub_Deliveries
  imports Hub_Routes
begin

text \<open>
  Collecting a transaction's deliveries: the scan for few scopes and the hash index for many find the
  same delivery, and every scope that has watchers gets exactly its changes, in order.
\<close>

section \<open>Scan and index\<close>

definition indexed :: "deliveryKey list \<Rightarrow> (deliveryKey, nat) gomap \<Rightarrow> bool" where
  "indexed keys index \<longleftrightarrow> (\<forall>k i. map_of index k = Some i \<longleftrightarrow> i < length keys \<and> keys ! i = k)"

definition scratch_ok :: "scratch \<Rightarrow> bool" where
  "scratch_ok s \<longleftrightarrow> distinct (deliveryKeys s) \<and> length (deliveries s) = length (deliveryKeys s) \<and>
     (if length (deliveryKeys s) \<le> indexedDeliveries then deliveryIndex s = []
      else indexed (deliveryKeys s) (deliveryIndex s))"

definition lookup :: "scratch \<Rightarrow> deliveryKey \<Rightarrow> delivery option" where
  "lookup s k = map_of (zip (deliveryKeys s) (deliveries s)) k"

lemma scan_keys_Some: "scan_keys keys key n = Some i \<Longrightarrow> i < n \<and> keys ! i = key"
  by (induction n) (auto split: if_splits)

lemma scan_keys_None: "scan_keys keys key n = None \<longleftrightarrow> (\<forall>i < n. keys ! i \<noteq> key)"
  by (induction n) (auto simp: less_Suc_eq)

lemma index_keys_spec:
  "distinct ks \<Longrightarrow> map_of (index_keys ks n m) k = Some i \<longleftrightarrow>
     (\<exists>j < length ks. ks ! j = k \<and> i = n + j) \<or> k \<notin> set ks \<and> map_of m k = Some i"
proof (induction ks arbitrary: n m)
  case (Cons x ks)
  then have IH: "map_of (index_keys ks (Suc n) (AList.update x n m)) k = Some i \<longleftrightarrow>
     (\<exists>j < length ks. ks ! j = k \<and> i = Suc n + j) \<or> k \<notin> set ks \<and> map_of (AList.update x n m) k = Some i"
    by simp
  have "(\<exists>j < length (x # ks). (x # ks) ! j = k \<and> i = n + j) \<longleftrightarrow>
      k = x \<and> i = n \<or> (\<exists>j < length ks. ks ! j = k \<and> i = Suc n + j)"
    by (auto simp: less_Suc_eq_0_disj)
  with IH Cons.prems show ?case by (auto simp: update_conv')
qed simp

lemma indexed_snoc:
  assumes "indexed keys index" "key \<notin> set keys"
  shows "indexed (keys @ [key]) (AList.update key (length keys) index)"
  using assms unfolding indexed_def
  by (auto simp: update_conv' nth_append less_Suc_eq dest: nth_mem)

lemma indexed_index_keys: "distinct ks \<Longrightarrow> indexed ks (index_keys ks 0 [])"
  by (auto simp: indexed_def index_keys_spec)

lemma deliveryLocked_found:
  assumes "scratch_ok s" "i < length (deliveryKeys s)" "deliveryKeys s ! i = key"
  shows "deliveryLocked s key ws = (s, i)"
proof (cases "length (deliveryKeys s) \<le> indexedDeliveries")
  case True
  obtain j where j: "scan_keys (deliveryKeys s) key (length (deliveryKeys s)) = Some j"
    using scan_keys_None [of "deliveryKeys s" key "length (deliveryKeys s)"] assms(2,3) by blast
  from scan_keys_Some [OF j] have "j = i"
    using assms nth_eq_iff_index_eq [of "deliveryKeys s" j i] by (simp add: scratch_ok_def)
  with j True show ?thesis by (simp add: deliveryLocked_def)
next
  case False
  then have "map_of (deliveryIndex s) key = Some i"
    using assms by (simp add: scratch_ok_def indexed_def del: split_paired_All)
  with False show ?thesis by (simp add: deliveryLocked_def)
qed

lemma deliveryLocked_new:
  assumes "scratch_ok s" "key \<notin> set (deliveryKeys s)" "deliveryLocked s key ws = (s', i)"
  shows "scratch_ok s'" and "deliveryKeys s' = deliveryKeys s @ [key]"
    and "deliveries s' = deliveries s @ [\<lparr>d_watchers = ws, d_changes = []\<rparr>]" and "i = length (deliveries s)"
proof -
  let ?ks = "deliveryKeys s" and ?n = "length (deliveryKeys s)"
  have none: "(if ?n \<le> indexedDeliveries then scan_keys ?ks key ?n else map_of (deliveryIndex s) key) = None"
  proof (cases "?n \<le> indexedDeliveries")
    case True
    with assms(2) show ?thesis by (auto simp: scan_keys_None)
  next
    case False
    then have "map_of (deliveryIndex s) key \<noteq> Some j" for j
      using assms(1,2) by (auto simp: scratch_ok_def indexed_def simp del: split_paired_All)
    with False show ?thesis by (metis (full_types) not_None_eq)
  qed
  let ?index = "if Suc ?n = indexedDeliveries + 1 then index_keys (?ks @ [key]) 0 (deliveryIndex s)
    else if Suc ?n > indexedDeliveries + 1 then AList.update key ?n (deliveryIndex s) else deliveryIndex s"
  have s': "s' = \<lparr>deliveries = deliveries s @ [\<lparr>d_watchers = ws, d_changes = []\<rparr>],
      deliveryKeys = ?ks @ [key], deliveryIndex = ?index\<rparr>" "i = length (deliveries s)"
    using assms(3) none by (simp_all add: deliveryLocked_def Let_def split: if_splits)
  have ok: "distinct (?ks @ [key])" "length (deliveries s) = ?n"
    using assms(1,2) by (simp_all add: scratch_ok_def)
  have "indexed (?ks @ [key]) ?index" if "Suc ?n > indexedDeliveries"
  proof (cases "?n = indexedDeliveries")
    case True
    then have "deliveryIndex s = []" using assms(1) by (simp add: scratch_ok_def)
    with True ok(1) indexed_index_keys [of "?ks @ [key]"] show ?thesis by simp
  next
    case False
    with that have "?n > indexedDeliveries" by simp
    moreover from this have "indexed ?ks (deliveryIndex s)" using assms(1) by (simp add: scratch_ok_def)
    ultimately show ?thesis using indexed_snoc [OF _ assms(2)] by simp
  qed
  moreover have "?index = []" if "Suc ?n \<le> indexedDeliveries"
    using that assms(1) by (simp add: scratch_ok_def)
  ultimately show "scratch_ok s'" using ok by (simp add: scratch_ok_def s')
  show "deliveryKeys s' = ?ks @ [key]" "deliveries s' = deliveries s @ [\<lparr>d_watchers = ws, d_changes = []\<rparr>]"
    "i = length (deliveries s)" by (simp_all add: s')
qed

section \<open>Adding a change\<close>

lemma map_of_zip_None_iff:
  "length ds = length ks \<Longrightarrow> map_of (zip ks ds) k = None \<longleftrightarrow> k \<notin> set ks"
  by (simp add: map_of_zip_is_None)

lemma map_of_zip_update:
  assumes "distinct ks" "length ds = length ks" "i < length ks"
  shows "map_of (zip ks (ds[i := d])) k = (if k = ks ! i then Some d else map_of (zip ks ds) k)"
proof (cases "k \<in> set ks")
  case True
  then obtain j where j: "j < length ks" "k = ks ! j" by (metis in_set_conv_nth)
  then have "j = i \<longleftrightarrow> k = ks ! i" using assms nth_eq_iff_index_eq by metis
  moreover have "map_of (zip ks (ds[i := d])) k = Some (ds[i := d] ! j)" "map_of (zip ks ds) k = Some (ds ! j)"
    using j assms by (simp_all add: map_of_zip_nth)
  ultimately show ?thesis using j assms by auto
next
  case False
  then have "map_of (zip ks (ds[i := d])) k = None" "map_of (zip ks ds) k = None"
    using assms(2) by (simp_all add: map_of_zip_None_iff)
  with False assms(3) show ?thesis by auto
qed

lemma add_change_spec:
  assumes "scratch_ok s"
  shows "scratch_ok (add_change s key ws ch)"
    and "lookup (add_change s key ws ch) k =
      (if k = key then Some (case lookup s key of
           None \<Rightarrow> \<lparr>d_watchers = ws, d_changes = [ch]\<rparr> | Some d \<Rightarrow> d\<lparr>d_changes := d_changes d @ [ch]\<rparr>)
       else lookup s k)"
proof -
  obtain s1 i where s1: "deliveryLocked s key ws = (s1, i)" by (cases "deliveryLocked s key ws")
  have dist: "distinct (deliveryKeys s)" "length (deliveries s) = length (deliveryKeys s)"
    using assms by (simp_all add: scratch_ok_def)
  have all: "scratch_ok s1 \<and> i < length (deliveryKeys s1) \<and> deliveryKeys s1 ! i = key \<and>
      lookup s1 = (lookup s)(key \<mapsto> (case lookup s key of None \<Rightarrow> \<lparr>d_watchers = ws, d_changes = []\<rparr> | Some d \<Rightarrow> d))"
  proof (cases "key \<in> set (deliveryKeys s)")
    case True
    then obtain j where j: "j < length (deliveryKeys s)" "deliveryKeys s ! j = key" by (metis in_set_conv_nth)
    then have "s1 = s" "i = j" using deliveryLocked_found [OF assms j] s1 by simp_all
    moreover have "lookup s key = Some (deliveries s ! j)"
      unfolding lookup_def using j dist by (auto simp: map_of_zip_nth simp del: map_of_eq_Some_iff)
    ultimately show ?thesis using assms j by auto
  next
    case False
    note new = deliveryLocked_new [OF assms False s1]
    have "lookup s key = None" unfolding lookup_def using False dist(2) by (simp add: map_of_zip_None_iff)
    moreover have "lookup s1 k = (if k = key then Some \<lparr>d_watchers = ws, d_changes = []\<rparr> else lookup s k)" for k
    proof -
      have "lookup s1 k = (case lookup s k of None \<Rightarrow> [key \<mapsto> \<lparr>d_watchers = ws, d_changes = []\<rparr>] k | Some d \<Rightarrow> Some d)"
        using dist(2) by (simp add: lookup_def new map_add_def)
      then show ?thesis using \<open>lookup s key = None\<close> by (cases "lookup s k") auto
    qed
    ultimately show ?thesis using new dist(2) by (auto simp: nth_append)
  qed
  have add: "add_change s key ws ch = s1\<lparr>deliveries := (deliveries s1)[i := (deliveries s1 ! i)\<lparr>d_changes := d_changes (deliveries s1 ! i) @ [ch]\<rparr>]\<rparr>"
    using s1 by (simp add: add_change_def Let_def)
  have dist1: "distinct (deliveryKeys s1)" "length (deliveries s1) = length (deliveryKeys s1)"
    using all by (simp_all add: scratch_ok_def)
  show "scratch_ok (add_change s key ws ch)" using all by (simp add: add scratch_ok_def)
  have at: "lookup s1 key = Some (deliveries s1 ! i)"
    unfolding lookup_def using all dist1 by (auto simp: map_of_zip_nth simp del: map_of_eq_Some_iff)
  have s1_eq: "lookup s1 = (lookup s)(key \<mapsto> (case lookup s key of None \<Rightarrow> \<lparr>d_watchers = ws, d_changes = []\<rparr> | Some d \<Rightarrow> d))"
    using all by blast
  have elem: "deliveries s1 ! i = (case lookup s key of None \<Rightarrow> \<lparr>d_watchers = ws, d_changes = []\<rparr> | Some d \<Rightarrow> d)"
    using at s1_eq by simp
  have other: "k \<noteq> key \<Longrightarrow> lookup s1 k = lookup s k" using s1_eq by simp
  have "lookup (add_change s key ws ch) k = (if k = key then
      Some ((deliveries s1 ! i)\<lparr>d_changes := d_changes (deliveries s1 ! i) @ [ch]\<rparr>) else lookup s1 k)"
    using map_of_zip_update [OF dist1, of i _ k] conjunct1 [OF conjunct2 [OF all]]
      conjunct1 [OF conjunct2 [OF conjunct2 [OF all]]]
    unfolding lookup_def add by simp
  then show "lookup (add_change s key ws ch) k =
      (if k = key then Some (case lookup s key of
           None \<Rightarrow> \<lparr>d_watchers = ws, d_changes = [ch]\<rparr> | Some d \<Rightarrow> d\<lparr>d_changes := d_changes d @ [ch]\<rparr>)
       else lookup s k)"
    using elem other by (cases "lookup s key") simp_all
qed

section \<open>Collecting\<close>

text \<open>The watchers a change reaches through the \<open>i\<close>-th route of its table.\<close>

definition reached :: "route \<Rightarrow> change \<Rightarrow> wid list" where
  "reached r ch = gm_get (scopes r) (gm_get (Key ch) (scopeColumn r) []) []"

lemma route_change_ok: "scratch_ok s \<Longrightarrow> scratch_ok (route_change tbl ch rs n s)"
  by (induction rs arbitrary: n s) (auto simp: Let_def add_change_spec(1))

lemma route_change_lookup:
  "scratch_ok s \<Longrightarrow> lookup (route_change tbl ch rs n s) ((tbl', i), scope) =
      (if tbl' = tbl \<and> n \<le> i \<and> i < n + length rs \<and> scope = gm_get (Key ch) (scopeColumn (rs ! (i - n))) [] \<and>
          reached (rs ! (i - n)) ch \<noteq> []
       then Some (case lookup s ((tbl', i), scope) of
           None \<Rightarrow> \<lparr>d_watchers = reached (rs ! (i - n)) ch, d_changes = [ch]\<rparr>
         | Some d \<Rightarrow> d\<lparr>d_changes := d_changes d @ [ch]\<rparr>)
       else lookup s ((tbl', i), scope))"
proof (induction rs arbitrary: n s)
  case (Cons r rs)
  let ?scope = "gm_get (Key ch) (scopeColumn r) []"
  let ?s = "if reached r ch = [] then s else add_change s ((tbl, n), ?scope) (reached r ch) ch"
  have step: "route_change tbl ch (r # rs) n s = route_change tbl ch rs (Suc n) ?s"
    by (simp add: Let_def reached_def)
  have ok: "scratch_ok ?s" using Cons.prems add_change_spec(1) by simp
  show ?case
  proof (cases "i = n")
    case True
    then show ?thesis
      unfolding step Cons.IH [OF ok] using add_change_spec(2) [OF Cons.prems]
      by (auto split: option.split)
  next
    case False
    then have "lookup ?s ((tbl', i), scope) = lookup s ((tbl', i), scope)"
      using add_change_spec(2) [OF Cons.prems] by simp
    moreover have "n \<le> i \<longleftrightarrow> Suc n \<le> i" using False by auto
    moreover have "(r # rs) ! (i - n) = rs ! (i - Suc n)" if "Suc n \<le> i" using that by (simp add: nth_Cons')
    ultimately show ?thesis unfolding step Cons.IH [OF ok] by (auto split: option.split)
  qed
qed auto

definition routed_changes :: "string \<Rightarrow> string \<Rightarrow> string \<Rightarrow> change list \<Rightarrow> change list" where
  "routed_changes tbl col scope chs = filter (\<lambda>ch. Table ch = tbl \<and> gm_get (Key ch) col [] = scope) chs"

text \<open>Every scope with watchers gets its changes, in order, and nothing else gets a delivery.\<close>

lemma collect_deliveries_snoc:
  "collect_deliveries h (chs @ [ch]) =
     route_change (Table ch) ch (gm_get (routes h) (Table ch) []) 0 (collect_deliveries h chs)"
  by (simp add: collect_deliveries_def)

lemma collect_deliveries_ok: "scratch_ok (collect_deliveries h chs)"
proof (induction chs rule: rev_induct)
  case Nil
  show ?case by (simp add: collect_deliveries_def no_deliveries_def scratch_ok_def)
next
  case (snoc ch chs)
  then show ?case by (simp add: collect_deliveries_snoc route_change_ok)
qed

lemma collect_deliveries_lookup:
  "lookup (collect_deliveries h chs) ((tbl, i), scope) =
     (let rs = gm_get (routes h) tbl []; ws = gm_get (scopes (rs ! i)) scope [];
          cs = routed_changes tbl (scopeColumn (rs ! i)) scope chs
      in if i < length rs \<and> ws \<noteq> [] \<and> cs \<noteq> [] then Some \<lparr>d_watchers = ws, d_changes = cs\<rparr> else None)"
proof (induction chs rule: rev_induct)
  case Nil
  show ?case by (simp add: collect_deliveries_def no_deliveries_def lookup_def routed_changes_def Let_def)
next
  case (snoc ch chs)
  show ?case
    unfolding collect_deliveries_snoc route_change_lookup [OF collect_deliveries_ok] snoc.IH
    by (auto simp: Let_def routed_changes_def reached_def)
qed

end
