(* ===== verification/Hub_Accept.thy ===== *)
theory Hub_Accept
  imports Hub_Deliveries
begin

text \<open>
  \<open>Accept\<close> against its specification: each registered watcher gets its part of the transaction or
  is ended, and nothing else about any watcher changes, whatever routes and deliveries the hub keeps.
\<close>

section \<open>The registration invariant\<close>

definition hub_ok :: "hub \<Rightarrow> bool" where
  "hub_ok h \<longleftrightarrow> columns_distinct h \<and> distinct (watchers h) \<and>
     (\<forall>k. distinct (scope_watchers h k) \<and> set (scope_watchers h k) = {w \<in> set (watchers h). home (heap h w) = k}) \<and>
     (\<forall>w \<in> set (watchers h). \<not> w_overflow (heap h w))"

lemma hub_okD:
  assumes "hub_ok h"
  shows "columns_distinct h" "distinct (watchers h)" "distinct (scope_watchers h k)"
    "set (scope_watchers h k) = {w \<in> set (watchers h). home (heap h w) = k}"
    "w \<in> set (watchers h) \<Longrightarrow> \<not> w_overflow (heap h w)"
  using assms unfolding hub_ok_def by blast+

lemma hub_okI:
  assumes "columns_distinct h" "distinct (watchers h)" "\<And>k. distinct (scope_watchers h k)"
    "\<And>k. set (scope_watchers h k) = {w \<in> set (watchers h). home (heap h w) = k}"
    "\<And>w. w \<in> set (watchers h) \<Longrightarrow> \<not> w_overflow (heap h w)"
  shows "hub_ok h"
  using assms unfolding hub_ok_def by blast

lemma hub_ok_cong:
  assumes "hub_ok h" "watchers h' = watchers h" "routes h' = routes h"
    and "\<And>w. w \<in> set (watchers h) \<Longrightarrow> home (heap h' w) = home (heap h w)"
    and "\<And>w. w \<in> set (watchers h) \<Longrightarrow> w_overflow (heap h' w) = w_overflow (heap h w)"
  shows "hub_ok h'"
proof (rule hub_okI)
  have sw: "scope_watchers h' k = scope_watchers h k" for k using scope_watchers_cong [OF assms(3)] .
  show "columns_distinct h'" using columns_distinct_cong [OF assms(3)] hub_okD(1) [OF assms(1)] by simp
  show "distinct (watchers h')" using hub_okD(2) [OF assms(1)] assms(2) by simp
  show "distinct (scope_watchers h' k)" for k using hub_okD(3) [OF assms(1)] sw by simp
  show "set (scope_watchers h' k) = {w \<in> set (watchers h'). home (heap h' w) = k}" for k
    using hub_okD(4) [OF assms(1)] assms(2,4) sw by auto
  show "\<not> w_overflow (heap h' w)" if "w \<in> set (watchers h')" for w
    using that hub_okD(5) [OF assms(1)] assms(2,5) by simp
qed

lemma registerLocked_ok:
  assumes "hub_ok h" "w \<notin> set (watchers h)" "\<not> w_overflow (heap h w)"
  shows "hub_ok (registerLocked h w)"
proof (rule hub_okI)
  note r = registerLocked_spec [OF hub_okD(1) [OF assms(1)]]
  note ok = hub_okD [OF assms(1)]
  show "columns_distinct (registerLocked h w)" by (rule r(1))
  show "distinct (watchers (registerLocked h w))" using ok(2) by (simp add: r)
  show "distinct (scope_watchers (registerLocked h w) k)" for k
    using ok(3) [of k] ok(4) [of k] assms(2) by (simp add: r)
  show "set (scope_watchers (registerLocked h w) k) =
      {x \<in> set (watchers (registerLocked h w)). home (heap (registerLocked h w) x) = k}" for k
    using ok(4) [of k] by (auto simp: r)
  show "\<not> w_overflow (heap (registerLocked h w) x)" if "x \<in> set (watchers (registerLocked h w))" for x
    using that ok(5) assms(3) by (auto simp: r)
qed

lemma removeLocked_ok:
  assumes "hub_ok h" shows "hub_ok (fst (removeLocked h w))"
proof (cases "w \<in> set (watchers h)")
  case True
  note r = removeLocked_spec [OF hub_okD(1) [OF assms(1)] True]
  note ok = hub_okD [OF assms(1)]
  show ?thesis
  proof (rule hub_okI)
    show "columns_distinct (fst (removeLocked h w))" by (rule r(2))
    show "distinct (watchers (fst (removeLocked h w)))" using ok(2) by (simp add: r distinct_removeAll)
    show "distinct (scope_watchers (fst (removeLocked h w)) k)" for k using ok(3) [of k] by (auto simp: r)
    show "set (scope_watchers (fst (removeLocked h w)) k) =
        {x \<in> set (watchers (fst (removeLocked h w))). home (heap (fst (removeLocked h w)) x) = k}" for k
      using ok(4) [of k] by (auto simp: r)
    show "\<not> w_overflow (heap (fst (removeLocked h w)) x)" if "x \<in> set (watchers (fst (removeLocked h w)))" for x
      using that ok(5) by (auto simp: r)
  qed
qed (use assms removeLocked_absent in simp)

section \<open>Ending a watcher\<close>

definition ended :: "resyncReason \<Rightarrow> watcher \<Rightarrow> watcher" where
  "ended reason w = w\<lparr>w_reason := Some reason, w_overflow := True\<rparr>"

lemma home_ended [simp]: "home (ended reason w) = home w"
  by (simp add: ended_def home_def)

lemma endLocked_absent: "w \<notin> set (watchers h) \<Longrightarrow> endLocked h w reason = h"
  by (simp add: endLocked_def removeLocked_absent)

lemma endLocked_spec:
  assumes "hub_ok h" "w \<in> set (watchers h)"
  shows "hub_ok (endLocked h w reason)" and "heap (endLocked h w reason) = (heap h)(w := ended reason (heap h w))"
    and "watchers (endLocked h w reason) = removeAll w (watchers h)" and "same_core h (endLocked h w reason)"
    and "memos (endLocked h w reason) = memos h"
proof -
  note r = removeLocked_spec [OF hub_okD(1) [OF assms(1)] assms(2)]
  let ?h = "fst (removeLocked h w)"
  have e: "endLocked h w reason = ?h\<lparr>heap := (heap h)(w := ended reason (heap h w))\<rparr>"
    using r(1,5) by (cases "removeLocked h w") (simp add: endLocked_def ended_def)
  show "heap (endLocked h w reason) = (heap h)(w := ended reason (heap h w))"
    "watchers (endLocked h w reason) = removeAll w (watchers h)" "memos (endLocked h w reason) = memos h"
    by (simp_all add: e r)
  have "same_core ?h (endLocked h w reason)"
  proof -
    have "endLocked h w reason = ?h\<lparr>watchers := watchers ?h, routes := routes ?h,
        heap := (heap h)(w := ended reason (heap h w)), memos := memos ?h\<rparr>" by (simp add: e)
    then show ?thesis unfolding same_core_def by blast
  qed
  with r(6) show "same_core h (endLocked h w reason)" by (rule same_core_trans)
  show "hub_ok (endLocked h w reason)"
    by (rule hub_ok_cong [OF removeLocked_ok [OF assms(1), of w]]) (auto simp: e r)
qed

section \<open>Queueing\<close>

definition fits :: "int \<Rightarrow> watcher \<Rightarrow> bool" where
  "fits cap w \<longleftrightarrow> int (length (w_queue w)) < cap"

definition sent_to :: "int \<Rightarrow> queued \<Rightarrow> watcher \<Rightarrow> watcher" where
  "sent_to cap item w = (if fits cap w then w\<lparr>w_queue := w_queue w @ [item]\<rparr> else ended ResyncSlowWatcher w)"

lemma home_sent_to [simp]: "home (sent_to cap item w) = home w"
  by (simp add: sent_to_def home_def ended_def)

lemma send_queued_spec:
  assumes "hub_ok h" "w \<in> set (watchers h)"
  shows "hub_ok (send_queued item h w)"
    and "heap (send_queued item h w) = (heap h)(w := sent_to (queueSize h) item (heap h w))"
    and "set (watchers (send_queued item h w)) = {x \<in> set (watchers h). x = w \<longrightarrow> fits (queueSize h) (heap h w)}"
    and "same_core h (send_queued item h w)" and "memos (send_queued item h w) = memos h"
proof -
  have all: "hub_ok (send_queued item h w) \<and>
      heap (send_queued item h w) = (heap h)(w := sent_to (queueSize h) item (heap h w)) \<and>
      set (watchers (send_queued item h w)) = {x \<in> set (watchers h). x = w \<longrightarrow> fits (queueSize h) (heap h w)} \<and>
      same_core h (send_queued item h w) \<and> memos (send_queued item h w) = memos h"
  proof (cases "fits (queueSize h) (heap h w)")
    case True
    let ?hp = "(heap h)(w := sent_to (queueSize h) item (heap h w))"
    have s: "send_queued item h w = h\<lparr>heap := ?hp\<rparr>"
      using True by (simp add: send_queued_def fits_def sent_to_def)
    have "h\<lparr>heap := ?hp\<rparr> = h\<lparr>watchers := watchers h, routes := routes h, heap := ?hp, memos := memos h\<rparr>" by simp
    then have "same_core h (h\<lparr>heap := ?hp\<rparr>)" unfolding same_core_def by blast
    moreover have "hub_ok (h\<lparr>heap := ?hp\<rparr>)"
      by (rule hub_ok_cong [OF assms(1)]) (use True in \<open>auto simp: sent_to_def home_def\<close>)
    ultimately show ?thesis using True by (auto simp: s)
  next
    case False
    then have s: "send_queued item h w = endLocked h w ResyncSlowWatcher"
      by (simp add: send_queued_def fits_def dropLocked_def)
    show ?thesis
      using endLocked_spec [OF assms] False by (auto simp: s sent_to_def)
  qed
  then show "hub_ok (send_queued item h w)"
    "heap (send_queued item h w) = (heap h)(w := sent_to (queueSize h) item (heap h w))"
    "set (watchers (send_queued item h w)) = {x \<in> set (watchers h). x = w \<longrightarrow> fits (queueSize h) (heap h w)}"
    "same_core h (send_queued item h w)" "memos (send_queued item h w) = memos h"
    by blast+
qed

lemma send_all_spec:
  assumes "hub_ok h" "distinct ws" "set ws \<subseteq> set (watchers h)"
  shows "hub_ok (foldl (send_queued item) h ws) \<and>
     (\<forall>x. heap (foldl (send_queued item) h ws) x =
        (if x \<in> set ws then sent_to (queueSize h) item (heap h x) else heap h x)) \<and>
     set (watchers (foldl (send_queued item) h ws)) =
       {x \<in> set (watchers h). x \<in> set ws \<longrightarrow> fits (queueSize h) (heap h x)} \<and>
     same_core h (foldl (send_queued item) h ws) \<and> memos (foldl (send_queued item) h ws) = memos h"
  using assms
proof (induction ws arbitrary: h)
  case (Cons w ws)
  let ?h = "send_queued item h w"
  have w: "w \<in> set (watchers h)" "w \<notin> set ws" "distinct ws" "set ws \<subseteq> set (watchers h)"
    using Cons.prems by simp_all
  note s = send_queued_spec [OF Cons.prems(1) w(1), of item]
  have "set ws \<subseteq> set (watchers ?h)" using w s(3) by auto
  note IH = Cons.IH [OF s(1) w(3) this]
  have q: "queueSize ?h = queueSize h" using s(4) by (simp add: same_core_simps)
  have hp: "heap ?h x = heap h x" if "x \<noteq> w" for x using s(2) that by simp
  show ?case
    using IH s same_core_trans [OF s(4)] w(2) unfolding foldl_Cons q by (auto simp: hp)
qed simp

section \<open>Delivering\<close>

definition delivered_item :: "transaction \<Rightarrow> delivery \<Rightarrow> nat option \<Rightarrow> queued" where
  "delivered_item t d memo = \<lparr>q_transaction = t, q_changes = d_changes d, q_memo = memo\<rparr>"

lemma deliver_spec:
  assumes "hub_ok h" "distinct (d_watchers d)" "set (d_watchers d) \<subseteq> set (watchers h)"
  shows "hub_ok (deliver t h d) \<and> same_core h (deliver t h d) \<and>
     (\<exists>memo. (memo = None \<longleftrightarrow> length (d_watchers d) \<le> 1) \<and>
       (\<forall>x. heap (deliver t h d) x =
          (if x \<in> set (d_watchers d) then sent_to (queueSize h) (delivered_item t d memo) (heap h x) else heap h x))) \<and>
     set (watchers (deliver t h d)) =
       {x \<in> set (watchers h). x \<in> set (d_watchers d) \<longrightarrow> fits (queueSize h) (heap h x)}"
proof -
  define memo where "memo = (if length (d_watchers d) > 1 then Some (memos h) else None)"
  define h1 where "h1 = (if length (d_watchers d) > 1 then h\<lparr>memos := memos h + 1\<rparr> else h)"
  have d: "deliver t h d = foldl (send_queued (delivered_item t d memo)) h1 (d_watchers d)"
    by (simp add: deliver_def memo_def h1_def delivered_item_def Let_def)
  have eq: "watchers h1 = watchers h" "routes h1 = routes h" "heap h1 = heap h" "queueSize h1 = queueSize h"
    by (simp_all add: h1_def)
  have core: "same_core h h1"
  proof -
    have "h1 = h\<lparr>watchers := watchers h, routes := routes h, heap := heap h, memos := memos h1\<rparr>"
      by (simp add: h1_def)
    then show ?thesis unfolding same_core_def by blast
  qed
  have "hub_ok h1" by (rule hub_ok_cong [OF assms(1)]) (simp_all add: eq)
  moreover have "set (d_watchers d) \<subseteq> set (watchers h1)" using assms(3) eq by simp
  ultimately have s: "hub_ok (deliver t h d) \<and>
     (\<forall>x. heap (deliver t h d) x =
        (if x \<in> set (d_watchers d) then sent_to (queueSize h) (delivered_item t d memo) (heap h x) else heap h x)) \<and>
     set (watchers (deliver t h d)) =
       {x \<in> set (watchers h). x \<in> set (d_watchers d) \<longrightarrow> fits (queueSize h) (heap h x)} \<and>
     same_core h1 (deliver t h d)"
    using send_all_spec [of h1 "d_watchers d" "delivered_item t d memo"] assms(2) by (simp add: d eq)
  have m: "memo = None \<longleftrightarrow> length (d_watchers d) \<le> 1" by (auto simp: memo_def)
  from s have "same_core h (deliver t h d)" using same_core_trans [OF core] by blast
  with s m show ?thesis by blast
qed

text \<open>One delivery's effect on its watchers.\<close>

definition delivered :: "hub \<Rightarrow> transaction \<Rightarrow> delivery \<Rightarrow> hub \<Rightarrow> bool" where
  "delivered h t d h' \<longleftrightarrow> (\<exists>memo. (memo = None \<longleftrightarrow> length (d_watchers d) \<le> 1) \<and>
     (\<forall>x \<in> set (d_watchers d). heap h' x = sent_to (queueSize h) (delivered_item t d memo) (heap h x)))"

lemma deliver_all_spec:
  assumes "hub_ok h" "distinct (concat (map d_watchers ds))" "set (concat (map d_watchers ds)) \<subseteq> set (watchers h)"
  shows "hub_ok (foldl (deliver t) h ds) \<and> same_core h (foldl (deliver t) h ds) \<and>
     (\<forall>d \<in> set ds. delivered h t d (foldl (deliver t) h ds)) \<and>
     (\<forall>x. x \<notin> set (concat (map d_watchers ds)) \<longrightarrow> heap (foldl (deliver t) h ds) x = heap h x) \<and>
     set (watchers (foldl (deliver t) h ds)) =
       {x \<in> set (watchers h). x \<in> set (concat (map d_watchers ds)) \<longrightarrow> fits (queueSize h) (heap h x)}"
  using assms
proof (induction ds arbitrary: h)
  case (Cons d ds)
  let ?h = "deliver t h d" and ?rest = "set (concat (map d_watchers ds))"
  let ?h' = "foldl (deliver t) ?h ds"
  have d: "distinct (d_watchers d)" "set (d_watchers d) \<subseteq> set (watchers h)"
    "distinct (concat (map d_watchers ds))" "?rest \<subseteq> set (watchers h)" "set (d_watchers d) \<inter> ?rest = {}"
    using Cons.prems(2,3) by auto
  obtain memo where s: "hub_ok ?h" "same_core h ?h" "memo = None \<longleftrightarrow> length (d_watchers d) \<le> 1"
    "\<And>x. heap ?h x = (if x \<in> set (d_watchers d) then sent_to (queueSize h) (delivered_item t d memo) (heap h x) else heap h x)"
    "set (watchers ?h) = {x \<in> set (watchers h). x \<in> set (d_watchers d) \<longrightarrow> fits (queueSize h) (heap h x)}"
    using deliver_spec [OF Cons.prems(1) d(1,2), of t] by blast
  have "?rest \<subseteq> set (watchers ?h)" using s(5) d(4,5) by auto
  note IH = Cons.IH [OF s(1) d(3) this]
  have q: "queueSize ?h = queueSize h" using s(2) by (simp add: same_core_simps)
  have same: "heap ?h x = heap h x" if "x \<in> ?rest" for x using that d(5) s(4) [of x] by auto
  have "delivered h t d' ?h'" if d': "d' \<in> set ds" for d'
  proof -
    have sub: "set (d_watchers d') \<subseteq> ?rest" using d' by auto
    have "delivered ?h t d' ?h'" using IH d' by blast
    then obtain m where m: "m = None \<longleftrightarrow> length (d_watchers d') \<le> 1"
      "\<And>x. x \<in> set (d_watchers d') \<Longrightarrow> heap ?h' x = sent_to (queueSize h) (delivered_item t d' m) (heap ?h x)"
      unfolding delivered_def q by blast
    have "heap ?h' x = sent_to (queueSize h) (delivered_item t d' m) (heap h x)" if "x \<in> set (d_watchers d')" for x
      using m(2) [OF that] same [OF subsetD [OF sub that]] by simp
    with m(1) show ?thesis unfolding delivered_def by blast
  qed
  moreover have "delivered h t d ?h'"
  proof -
    have "heap ?h' x = heap ?h x" if "x \<in> set (d_watchers d)" for x using that d(5) IH by blast
    then have "heap ?h' x = sent_to (queueSize h) (delivered_item t d memo) (heap h x)" if "x \<in> set (d_watchers d)" for x
      using that s(4) by simp
    with s(3) show ?thesis unfolding delivered_def by blast
  qed
  moreover have "heap ?h' x = heap h x" if "x \<notin> set (d_watchers d) \<union> ?rest" for x
    using that IH s(4) [of x] by auto
  moreover have "set (watchers ?h') = {x \<in> set (watchers h).
      x \<in> set (d_watchers d) \<union> ?rest \<longrightarrow> fits (queueSize h) (heap h x)}"
  proof -
    have "set (watchers ?h') = {x \<in> set (watchers ?h). x \<in> ?rest \<longrightarrow> fits (queueSize h) (heap ?h x)}"
      using IH q by simp
    then show ?thesis using s(5) same by auto
  qed
  moreover have "same_core h ?h'" using IH same_core_trans [OF s(2)] by blast
  ultimately show ?case using IH by auto
qed simp

end
