(* ===== verification/Hub_Fanout.thy ===== *)
theory Hub_Fanout
  imports Hub_Accept
begin

text \<open>
  The whole of \<open>Accept\<close>: advancing the replay window, ending the watchers of tables that changed
  shape, and fanning the transaction out.
\<close>

section \<open>Tables that changed shape\<close>

definition table_of :: "watcher \<Rightarrow> string" where
  "table_of w = pr_table (w_projection w)"

lemma table_of_ended [simp]: "table_of (ended reason w) = table_of w"
  by (simp add: table_of_def ended_def)

lemma end_table_spec:
  assumes "hub_ok h"
  shows "hub_ok (foldl (\<lambda>h' w. if pr_table (w_projection (heap h' w)) = tbl then endLocked h' w reason else h') h ws) \<and>
    same_core h (foldl (\<lambda>h' w. if pr_table (w_projection (heap h' w)) = tbl then endLocked h' w reason else h') h ws) \<and>
    (\<forall>x. heap (foldl (\<lambda>h' w. if pr_table (w_projection (heap h' w)) = tbl then endLocked h' w reason else h') h ws) x =
       (if x \<in> set ws \<and> x \<in> set (watchers h) \<and> table_of (heap h x) = tbl then ended reason (heap h x) else heap h x)) \<and>
    set (watchers (foldl (\<lambda>h' w. if pr_table (w_projection (heap h' w)) = tbl then endLocked h' w reason else h') h ws)) =
      {x \<in> set (watchers h). \<not> (x \<in> set ws \<and> table_of (heap h x) = tbl)}"
  using assms
proof (induction ws arbitrary: h)
  case (Cons w ws)
  let ?h = "if pr_table (w_projection (heap h w)) = tbl then endLocked h w reason else h"
  have step: "hub_ok ?h \<and> same_core h ?h \<and>
      (\<forall>x. heap ?h x = (if x = w \<and> w \<in> set (watchers h) \<and> table_of (heap h w) = tbl then ended reason (heap h x) else heap h x)) \<and>
      set (watchers ?h) = {x \<in> set (watchers h). \<not> (x = w \<and> table_of (heap h w) = tbl)}"
  proof (cases "w \<in> set (watchers h)")
    case True
    then show ?thesis using endLocked_spec [OF Cons.prems True, of reason] Cons.prems by (auto simp: table_of_def)
  next
    case False
    then show ?thesis using Cons.prems by (auto simp: endLocked_absent)
  qed
  note IH = Cons.IH [of ?h]
  show ?case
    using IH step same_core_trans [of h ?h] unfolding foldl_Cons by auto
qed simp

definition same_window :: "hub \<Rightarrow> hub \<Rightarrow> bool" where
  "same_window h h' \<longleftrightarrow> ring h' = ring h \<and> received h' = received h \<and> hasReceived h' = hasReceived h \<and>
     queueSize h' = queueSize h \<and> maxReplay h' = maxReplay h \<and> hasFloor h' = hasFloor h \<and>
     sourceID h' = sourceID h \<and> projections h' = projections h \<and> tick h' = tick h \<and> stopped h' = stopped h"

lemma same_core_window: "same_core h h' \<Longrightarrow> same_window h h'"
  by (simp add: same_window_def same_core_simps)

definition moved_up :: "cursor \<Rightarrow> cursor \<Rightarrow> cursor" where
  "moved_up c old = (if later c old then c else old)"

lemma invalidateLocked_spec:
  assumes "hub_ok h"
  shows "hub_ok (invalidateLocked h tbl c)" and "same_window h (invalidateLocked h tbl c)"
    and "heap (invalidateLocked h tbl c) x =
      (if x \<in> set (watchers h) \<and> table_of (heap h x) = tbl then ended ResyncSchemaChanged (heap h x) else heap h x)"
    and "set (watchers (invalidateLocked h tbl c)) = {x \<in> set (watchers h). table_of (heap h x) \<noteq> tbl}"
    and "stale (invalidateLocked h tbl c) = List.insert tbl (stale h)"
    and "floorCursor (invalidateLocked h tbl c) = (if hasFloor h then moved_up c (floorCursor h) else floorCursor h)"
    and "hasEvicted (invalidateLocked h tbl c)"
    and "lastEvicted (invalidateLocked h tbl c) = (if hasEvicted h then moved_up c (lastEvicted h) else c)"
proof -
  let ?h1 = "h\<lparr>stale := List.insert tbl (stale h)\<rparr>"
  define h2 where "h2 = foldl (\<lambda>h' w. if pr_table (w_projection (heap h' w)) = tbl
      then endLocked h' w ResyncSchemaChanged else h') ?h1 (watchers ?h1)"
  define h3 where "h3 = (if hasFloor h2 \<and> later c (floorCursor h2) then h2\<lparr>floorCursor := c\<rparr> else h2)"
  define h4 where "h4 = (if \<not> hasEvicted h3 \<or> later c (lastEvicted h3) then h3\<lparr>lastEvicted := c, hasEvicted := True\<rparr> else h3)"
  have inv: "invalidateLocked h tbl c = h4"
    unfolding invalidateLocked_def Let_def h4_def h3_def h2_def by (rule refl)
  have "hub_ok ?h1" by (rule hub_ok_cong [OF assms]) simp_all
  note s = end_table_spec [OF this, of tbl ResyncSchemaChanged "watchers ?h1", folded h2_def]
  have core: "same_core ?h1 h2" using s by blast
  note c2 = same_core_simps [OF core]
  have eq: "watchers h4 = watchers h2" "routes h4 = routes h2" "heap h4 = heap h2" "ring h4 = ring h2"
    "received h4 = received h2" "hasReceived h4 = hasReceived h2" "queueSize h4 = queueSize h2" "maxReplay h4 = maxReplay h2"
    "hasFloor h4 = hasFloor h2" "sourceID h4 = sourceID h2" "projections h4 = projections h2" "tick h4 = tick h2"
    "stopped h4 = stopped h2" "stale h4 = stale h2"
    by (simp_all add: h4_def h3_def)
  have "hub_ok h2" using s by blast
  then have "hub_ok h4" by (rule hub_ok_cong) (simp_all add: eq)
  then show "hub_ok (invalidateLocked h tbl c)" by (simp add: inv)
  show "same_window h (invalidateLocked h tbl c)" by (simp add: inv same_window_def eq c2)
  show "heap (invalidateLocked h tbl c) x =
      (if x \<in> set (watchers h) \<and> table_of (heap h x) = tbl then ended ResyncSchemaChanged (heap h x) else heap h x)"
    using s by (simp add: inv eq)
  show "set (watchers (invalidateLocked h tbl c)) = {x \<in> set (watchers h). table_of (heap h x) \<noteq> tbl}"
    using s by (auto simp: inv eq)
  show "stale (invalidateLocked h tbl c) = List.insert tbl (stale h)" by (simp add: inv eq c2)
  show "floorCursor (invalidateLocked h tbl c) = (if hasFloor h then moved_up c (floorCursor h) else floorCursor h)"
    by (simp add: inv h4_def h3_def c2 moved_up_def)
  show "hasEvicted (invalidateLocked h tbl c)"
    by (simp add: inv h4_def)
  show "lastEvicted (invalidateLocked h tbl c) = (if hasEvicted h then moved_up c (lastEvicted h) else c)"
    by (simp add: inv h4_def h3_def c2 moved_up_def)
qed

definition invalidate_all :: "hub \<Rightarrow> incompatible list \<Rightarrow> cursor \<Rightarrow> hub" where
  "invalidate_all h incs c = foldl (\<lambda>h' inc. invalidateLocked h' (inc_table inc) c) h incs"

lemma same_window_trans: "same_window h h' \<Longrightarrow> same_window h' h'' \<Longrightarrow> same_window h h''"
  by (simp add: same_window_def)

lemma invalidate_all_spec:
  assumes "hub_ok h"
  shows "hub_ok (invalidate_all h incs c) \<and> same_window h (invalidate_all h incs c) \<and>
    (\<forall>x. heap (invalidate_all h incs c) x =
      (if x \<in> set (watchers h) \<and> table_of (heap h x) \<in> inc_table ` set incs then ended ResyncSchemaChanged (heap h x) else heap h x)) \<and>
    set (watchers (invalidate_all h incs c)) = {x \<in> set (watchers h). table_of (heap h x) \<notin> inc_table ` set incs} \<and>
    set (stale (invalidate_all h incs c)) = set (stale h) \<union> inc_table ` set incs"
  using assms
proof (induction incs arbitrary: h)
  case Nil
  then show ?case by (simp add: invalidate_all_def same_window_def)
next
  case (Cons inc incs)
  let ?h = "invalidateLocked h (inc_table inc) c"
  note s = invalidateLocked_spec [OF Cons.prems, of "inc_table inc" c]
  note IH = Cons.IH [OF s(1)]
  have step: "invalidate_all h (inc # incs) c = invalidate_all ?h incs c" by (simp add: invalidate_all_def)
  have hp: "heap (invalidate_all ?h incs c) x =
      (if x \<in> set (watchers ?h) \<and> table_of (heap ?h x) \<in> inc_table ` set incs then ended ResyncSchemaChanged (heap ?h x) else heap ?h x)" for x
    using IH by blast
  have "set (watchers (invalidate_all ?h incs c)) = {x \<in> set (watchers ?h). table_of (heap ?h x) \<notin> inc_table ` set incs}"
    using IH by blast
  moreover have "same_window h (invalidate_all ?h incs c)" using IH same_window_trans [OF s(2)] by blast
  ultimately show ?case
    unfolding step using IH by (auto simp: hp s(3-5))
qed

section \<open>Advancing the window\<close>

lemma evict_loop_frame:
  "watchers (evict_loop h) = watchers h \<and> routes (evict_loop h) = routes h \<and> heap (evict_loop h) = heap h \<and>
   received (evict_loop h) = received h \<and> hasReceived (evict_loop h) = hasReceived h \<and>
   queueSize (evict_loop h) = queueSize h \<and> maxReplay (evict_loop h) = maxReplay h \<and> stale (evict_loop h) = stale h \<and>
   hasFloor (evict_loop h) = hasFloor h \<and> sourceID (evict_loop h) = sourceID h \<and> projections (evict_loop h) = projections h \<and>
   tick (evict_loop h) = tick h \<and> tickTaken (evict_loop h) = tickTaken h \<and> stopped (evict_loop h) = stopped h"
proof (induction h rule: evict_loop.induct)
  case (1 h)
  show ?case
    using 1 by (subst (1 2 3 4 5 6 7 8 9 10 11 12 13 14) evict_loop.simps) (simp add: evictLocked_def Let_def)
qed

lemma advance_frame:
  "watchers (advance h t) = watchers h" "routes (advance h t) = routes h" "heap (advance h t) = heap h"
  "received (advance h t) = Cursor_of t" "hasReceived (advance h t)" "queueSize (advance h t) = queueSize h"
  "maxReplay (advance h t) = maxReplay h" "stale (advance h t) = stale h" "hasFloor (advance h t) = hasFloor h"
  "sourceID (advance h t) = sourceID h" "projections (advance h t) = projections h" "stopped (advance h t) = stopped h"
  by (simp_all add: advance_def Let_def evict_loop_frame)

lemma advance_ok: "hub_ok h \<Longrightarrow> hub_ok (advance h t)"
  by (erule hub_ok_cong) (simp_all add: advance_frame)

section \<open>Deliveries and registered watchers\<close>

definition place_of :: "hub \<Rightarrow> deliveryKey \<Rightarrow> place" where
  "place_of h key = (case key of ((tbl, i), scope) \<Rightarrow> (tbl, scopeColumn (gm_get (routes h) tbl [] ! i), scope))"

definition place_changes :: "place \<Rightarrow> change list \<Rightarrow> change list" where
  "place_changes k chs = (case k of (tbl, col, scope) \<Rightarrow> routed_changes tbl col scope chs)"

lemma place_changes_home: "place_changes (home w) (Changes t) = projection_changes (w_projection w) (w_scope w) t"
  by (simp add: place_changes_def home_def routed_changes_def projection_changes_def)

lemma collected_delivery:
  assumes "columns_distinct h" "j < length (deliveryKeys (collect_deliveries h chs))"
  defines "key \<equiv> deliveryKeys (collect_deliveries h chs) ! j"
  defines "d \<equiv> deliveries (collect_deliveries h chs) ! j"
  shows "snd (fst key) < length (gm_get (routes h) (fst (fst key)) [])"
    and "d_watchers d = scope_watchers h (place_of h key)" and "d_watchers d \<noteq> []"
    and "d_changes d = place_changes (place_of h key) chs"
proof -
  let ?s = "collect_deliveries h chs"
  obtain tbl i scope where key: "key = ((tbl, i), scope)" by (cases key) auto
  let ?rs = "gm_get (routes h) tbl []"
  have ok: "distinct (deliveryKeys ?s)" "length (deliveries ?s) = length (deliveryKeys ?s)"
    using collect_deliveries_ok [of h chs] by (simp_all add: scratch_ok_def)
  have "lookup ?s key = Some d"
    unfolding lookup_def key_def d_def using ok assms(2) by (simp add: map_of_zip_nth del: map_of_eq_Some_iff)
  then have i: "i < length ?rs" and d: "gm_get (scopes (?rs ! i)) scope [] \<noteq> []"
    "d = \<lparr>d_watchers = gm_get (scopes (?rs ! i)) scope [],
      d_changes = routed_changes tbl (scopeColumn (?rs ! i)) scope chs\<rparr>"
    unfolding key collect_deliveries_lookup by (auto simp: Let_def split: if_splits)
  have "find_route ?rs (scopeColumn (?rs ! i)) 0 = Some i"
    using assms(1) i by (intro find_route_nth) (simp_all add: columns_distinct_def)
  then have "scope_watchers h (place_of h key) = gm_get (scopes (?rs ! i)) scope []"
    by (simp add: key place_of_def scope_watchers.simps get_scopes_def)
  then show "snd (fst key) < length (gm_get (routes h) (fst (fst key)) [])"
    "d_watchers d = scope_watchers h (place_of h key)" "d_watchers d \<noteq> []"
    "d_changes d = place_changes (place_of h key) chs"
    using i d by (simp_all add: key place_of_def place_changes_def)
qed

lemma place_of_inject:
  assumes "columns_distinct h" "place_of h key = place_of h key'"
    and "snd (fst key) < length (gm_get (routes h) (fst (fst key)) [])"
    and "snd (fst key') < length (gm_get (routes h) (fst (fst key')) [])"
  shows "key = key'"
proof -
  obtain tbl i scope where key: "key = ((tbl, i), scope)" by (cases key) auto
  obtain tbl' i' scope' where key': "key' = ((tbl', i'), scope')" by (cases key') auto
  let ?rs = "gm_get (routes h) tbl []"
  have "tbl' = tbl" "scope' = scope" "map scopeColumn ?rs ! i = map scopeColumn ?rs ! i'"
    using assms(2-4) by (auto simp: key key' place_of_def)
  moreover have "distinct (map scopeColumn ?rs)" using assms(1) by (simp add: columns_distinct_def)
  ultimately show ?thesis using assms(3,4) nth_eq_iff_index_eq [of "map scopeColumn ?rs" i i'] by (simp add: key key')
qed

lemma deliveries_disjoint:
  assumes "hub_ok h"
  shows "distinct (concat (map d_watchers (deliveries (collect_deliveries h chs))))"
    and "set (concat (map d_watchers (deliveries (collect_deliveries h chs)))) \<subseteq> set (watchers h)"
proof -
  let ?s = "collect_deliveries h chs"
  let ?ds = "deliveries ?s" and ?ks = "deliveryKeys ?s"
  have len: "length ?ds = length ?ks" and dist: "distinct ?ks"
    using collect_deliveries_ok [of h chs] by (simp_all add: scratch_ok_def)
  note c = collected_delivery [OF hub_okD(1) [OF assms], of _ chs]
  note sw = hub_okD(3,4) [OF assms]
  have disj: "set (d_watchers (?ds ! i)) \<inter> set (d_watchers (?ds ! j)) = {}"
    if "i < length ?ks" "j < length ?ks" "i \<noteq> j" for i j
  proof -
    have "?ks ! i \<noteq> ?ks ! j" using that dist by (simp add: nth_eq_iff_index_eq)
    then have "place_of h (?ks ! i) \<noteq> place_of h (?ks ! j)"
      using place_of_inject [OF hub_okD(1) [OF assms]] c(1) that by blast
    then show ?thesis using that by (auto simp: c(2) sw(2))
  qed
  have "distinct (map d_watchers ?ds)"
    unfolding distinct_conv_nth
  proof (intro allI impI)
    fix i j assume ij: "i < length (map d_watchers ?ds)" "j < length (map d_watchers ?ds)" "i \<noteq> j"
    then have "set (d_watchers (?ds ! i)) \<inter> set (d_watchers (?ds ! j)) = {}" "d_watchers (?ds ! i) \<noteq> []"
      using disj c(3) len by simp_all
    then show "map d_watchers ?ds ! i \<noteq> map d_watchers ?ds ! j" using ij by auto
  qed
  moreover have "distinct ws" if ws: "ws \<in> set (map d_watchers ?ds)" for ws
  proof -
    obtain j where j: "j < length ?ks" "ws = d_watchers (?ds ! j)" using ws len by (auto simp: in_set_conv_nth)
    show ?thesis unfolding j(2) c(2) [OF j(1)] by (rule sw(1))
  qed
  moreover have "set ws \<inter> set ws' = {}"
    if ws: "ws \<in> set (map d_watchers ?ds)" "ws' \<in> set (map d_watchers ?ds)" "ws \<noteq> ws'" for ws ws'
  proof -
    obtain i where i: "i < length ?ks" "ws = d_watchers (?ds ! i)" using ws(1) len by (auto simp: in_set_conv_nth)
    obtain j where j: "j < length ?ks" "ws' = d_watchers (?ds ! j)" using ws(2) len by (auto simp: in_set_conv_nth)
    have "i \<noteq> j" using ws(3) i(2) j(2) by auto
    then show ?thesis unfolding i(2) j(2) using i(1) j(1) by (intro disj)
  qed
  ultimately show "distinct (concat (map d_watchers ?ds))" by (rule distinct_concat)
  show "set (concat (map d_watchers ?ds)) \<subseteq> set (watchers h)"
  proof
    fix x assume "x \<in> set (concat (map d_watchers ?ds))"
    then obtain d where "d \<in> set ?ds" "x \<in> set (d_watchers d)" by auto
    then obtain j where "j < length ?ks" "x \<in> set (d_watchers (?ds ! j))"
      using len by (metis in_set_conv_nth)
    then have "x \<in> set (scope_watchers h (place_of h (?ks ! j)))" using c(2) by simp
    then show "x \<in> set (watchers h)" unfolding sw(2) by simp
  qed
qed

text \<open>A registered watcher has a delivery exactly when the transaction has changes for it.\<close>

lemma watcher_delivery:
  assumes "hub_ok h" "w \<in> set (watchers h)"
  shows "(\<exists>d \<in> set (deliveries (collect_deliveries h chs)). w \<in> set (d_watchers d) \<and> d_changes d = place_changes (home (heap h w)) chs)
      \<longleftrightarrow> place_changes (home (heap h w)) chs \<noteq> []"
    and "w \<in> set (concat (map d_watchers (deliveries (collect_deliveries h chs)))) \<longleftrightarrow> place_changes (home (heap h w)) chs \<noteq> []"
proof -
  let ?s = "collect_deliveries h chs"
  let ?ds = "deliveries ?s" and ?ks = "deliveryKeys ?s" and ?k = "home (heap h w)"
  have len: "length ?ds = length ?ks" using collect_deliveries_ok [of h chs] by (simp add: scratch_ok_def)
  note c = collected_delivery [OF hub_okD(1) [OF assms(1)], of _ chs]
  note sw = hub_okD(4) [OF assms(1)]
  have has: "d_changes d = place_changes ?k chs \<and> place_changes ?k chs \<noteq> []"
    if d: "d \<in> set ?ds" "w \<in> set (d_watchers d)" for d
  proof -
    obtain j where j: "j < length ?ks" "d = ?ds ! j" using d(1) len by (metis in_set_conv_nth)
    have "place_of h (?ks ! j) = ?k" using d(2) c(2) [OF j(1)] sw j(2) by auto
    then have ch: "d_changes d = place_changes ?k chs" using c(4) [OF j(1)] j(2) by simp
    obtain tbl i scope where key: "?ks ! j = ((tbl, i), scope)" by (metis prod.collapse)
    have "lookup ?s (?ks ! j) = Some d"
      unfolding lookup_def using j len collect_deliveries_ok [of h chs]
      by (simp add: map_of_zip_nth scratch_ok_def del: map_of_eq_Some_iff)
    then have "d_changes d \<noteq> []"
      unfolding key collect_deliveries_lookup by (auto simp: Let_def split: if_splits)
    with ch show ?thesis by simp
  qed
  have ex: "\<exists>d \<in> set ?ds. w \<in> set (d_watchers d)" if ne: "place_changes ?k chs \<noteq> []"
  proof -
    obtain tbl col scope where k: "?k = (tbl, col, scope)" by (metis prod.collapse)
    let ?rs = "gm_get (routes h) tbl []"
    have "w \<in> set (scope_watchers h ?k)" using assms(2) sw by auto
    then obtain i where i: "find_route ?rs col 0 = Some i" "w \<in> set (gm_get (scopes (?rs ! i)) scope [])"
      unfolding k scope_watchers.simps by (cases "find_route ?rs col 0") (auto simp: get_scopes_def)
    have "i < length ?rs" "scopeColumn (?rs ! i) = col" using find_route_Some [OF i(1)] by simp_all
    then have "\<exists>d. lookup ?s ((tbl, i), scope) = Some d \<and> d_watchers d = gm_get (scopes (?rs ! i)) scope []"
      using i(2) ne length_pos_if_in_set [OF i(2)] unfolding collect_deliveries_lookup k place_changes_def
      by (simp add: Let_def)
    then obtain d where d: "lookup ?s ((tbl, i), scope) = Some d" "d_watchers d = gm_get (scopes (?rs ! i)) scope []"
      by blast
    then have "d \<in> set ?ds" unfolding lookup_def by (metis in_set_zipE map_of_SomeD)
    moreover have "w \<in> set (d_watchers d)" using d(2) i(2) by simp
    ultimately show ?thesis by blast
  qed
  show "(\<exists>d \<in> set ?ds. w \<in> set (d_watchers d) \<and> d_changes d = place_changes ?k chs) \<longleftrightarrow> place_changes ?k chs \<noteq> []"
    using has ex by blast
  show "w \<in> set (concat (map d_watchers ?ds)) \<longleftrightarrow> place_changes ?k chs \<noteq> []"
    using has ex by auto
qed

section \<open>Accept\<close>

text \<open>What \<open>Accept\<close> of \<open>t\<close> does to a registered watcher: \<open>w'\<close> is the watcher afterwards and \<open>kept\<close>
  whether it is still registered. Which \<open>Memo\<close> a queued item carries is left open.\<close>

definition accept_outcome :: "int \<Rightarrow> transaction \<Rightarrow> watcher \<Rightarrow> watcher \<Rightarrow> bool \<Rightarrow> bool" where
  "accept_outcome cap t w w' kept \<longleftrightarrow>
     (let cs = projection_changes (w_projection w) (w_scope w) t in
      if table_of w \<in> inc_table ` set (Incompatible t)
      then w' = ended ResyncSchemaChanged w \<and> \<not> kept
      else if cs = [] then w' = w \<and> kept
      else (\<exists>memo. w' = sent_to cap \<lparr>q_transaction = t, q_changes = cs, q_memo = memo\<rparr> w) \<and> kept = fits cap w)"

lemma accept_new_outcome:
  assumes "hub_ok h"
  shows "hub_ok (accept_new h t)"
    and "w \<in> set (watchers h) \<Longrightarrow>
      accept_outcome (queueSize h) t (heap h w) (heap (accept_new h t) w) (w \<in> set (watchers (accept_new h t)))"
    and "w \<notin> set (watchers h) \<Longrightarrow> heap (accept_new h t) w = heap h w \<and> w \<notin> set (watchers (accept_new h t))"
    and "same_core (invalidate_all (advance h t) (Incompatible t) (Cursor_of t)) (accept_new h t)"
proof -
  define h1 where "h1 = advance h t"
  define h2 where "h2 = invalidate_all h1 (Incompatible t) (Cursor_of t)"
  define ds where "ds = deliveries (collect_deliveries h2 (Changes t))"
  have acc: "accept_new h t = foldl (deliver t) h2 ds"
    by (simp add: accept_new_def Let_def h1_def h2_def ds_def invalidate_all_def)
  have ok1: "hub_ok h1" unfolding h1_def by (rule advance_ok [OF assms])
  note f1 = advance_frame [of h t, folded h1_def]
  note inv = invalidate_all_spec [OF ok1, of "Incompatible t" "Cursor_of t", folded h2_def]
  have ok2: "hub_ok h2" using inv by blast
  have hp2: "heap h2 x = (if x \<in> set (watchers h) \<and> table_of (heap h x) \<in> inc_table ` set (Incompatible t)
      then ended ResyncSchemaChanged (heap h x) else heap h x)" for x
    using inv f1 by simp
  have w2: "set (watchers h2) = {x \<in> set (watchers h). table_of (heap h x) \<notin> inc_table ` set (Incompatible t)}"
    using inv f1 by simp
  have q2: "queueSize h2 = queueSize h" using inv f1 by (simp add: same_window_def)
  note disj = deliveries_disjoint [OF ok2, of "Changes t", folded ds_def]
  note del = deliver_all_spec [OF ok2 disj, of t, folded acc]
  show "hub_ok (accept_new h t)" using del by blast
  show "same_core (invalidate_all (advance h t) (Incompatible t) (Cursor_of t)) (accept_new h t)"
    using del by (simp add: h2_def h1_def)
  have kept: "set (watchers (accept_new h t)) =
      {x \<in> set (watchers h2). x \<in> set (concat (map d_watchers ds)) \<longrightarrow> fits (queueSize h) (heap h2 x)}"
    using del q2 by simp
  have rest: "x \<notin> set (concat (map d_watchers ds)) \<Longrightarrow> heap (accept_new h t) x = heap h2 x" for x
    using del by blast
  show "w \<notin> set (watchers h) \<Longrightarrow> heap (accept_new h t) w = heap h w \<and> w \<notin> set (watchers (accept_new h t))"
    using rest [of w] disj(2) w2 hp2 [of w] kept by auto
  show "accept_outcome (queueSize h) t (heap h w) (heap (accept_new h t) w) (w \<in> set (watchers (accept_new h t)))"
    if w: "w \<in> set (watchers h)"
  proof (cases "table_of (heap h w) \<in> inc_table ` set (Incompatible t)")
    case True
    then have "w \<notin> set (watchers h2)" using w2 by simp
    then show ?thesis
      using True w hp2 [of w] rest [of w] disj(2) kept by (auto simp: accept_outcome_def Let_def)
  next
    case False
    then have in2: "w \<in> set (watchers h2)" and same: "heap h2 w = heap h w" using w w2 hp2 [of w] by auto
    note wd = watcher_delivery [OF ok2 in2, of "Changes t", folded ds_def, unfolded same place_changes_home]
    show ?thesis
    proof (cases "projection_changes (w_projection (heap h w)) (w_scope (heap h w)) t = []")
      case True
      then show ?thesis
        using False in2 same wd(2) rest [of w] kept by (simp add: accept_outcome_def Let_def)
    next
      case changes: False
      then obtain d where d: "d \<in> set ds" "w \<in> set (d_watchers d)"
        "d_changes d = projection_changes (w_projection (heap h w)) (w_scope (heap h w)) t"
        using wd(1) by blast
      have "delivered h2 t d (accept_new h t)" using del d(1) by blast
      then obtain memo where "heap (accept_new h t) w = sent_to (queueSize h) (delivered_item t d memo) (heap h w)"
        using d(2) same q2 unfolding delivered_def by metis
      then show ?thesis
        using changes False in2 same wd(2) kept d(3)
        by (auto simp: accept_outcome_def Let_def delivered_item_def)
    qed
  qed
qed

end
