(* ===== verification/Hub_Window.thy ===== *)
theory Hub_Window
  imports Hub_Fanout
begin

text \<open>
  The replay window and redelivery. \<open>hist\<close> is the list of the transactions the hub has accepted
  since it was created; the hub itself only keeps the ring.

  The stream's order is PostgreSQL's: a transaction's commit record starts before it ends, and the
  next transaction's commit record starts at or after that end (\<open>wal_ordered\<close>).
\<close>

section \<open>The order of the stream\<close>

definition wal_ordered :: "string \<Rightarrow> transaction list \<Rightarrow> bool" where
  "wal_ordered src ts \<longleftrightarrow>
     (\<forall>t \<in> set ts. cur_source (Cursor_of t) = src \<and> commitLSN t < cur_lsn (Cursor_of t)) \<and>
     sorted_wrt (\<lambda>a b. cur_lsn (Cursor_of a) \<le> commitLSN b) ts"

lemma wal_orderedD:
  assumes "wal_ordered src ts" "t \<in> set ts"
  shows "cur_source (Cursor_of t) = src" "commitLSN t < cur_lsn (Cursor_of t)"
  using assms by (auto simp: wal_ordered_def)

lemma wal_ordered_append:
  "wal_ordered src (ts @ us) \<longleftrightarrow> wal_ordered src ts \<and> wal_ordered src us \<and>
     (\<forall>t \<in> set ts. \<forall>u \<in> set us. cur_lsn (Cursor_of t) \<le> commitLSN u)"
  by (auto simp: wal_ordered_def sorted_wrt_append)

lemma wal_ordered_before:
  assumes "wal_ordered src (ts @ u # us)" "t \<in> set ts"
  shows "at_or_before (Cursor_of t) (Cursor_of u)" "cur_lsn (Cursor_of t) < cur_lsn (Cursor_of u)"
proof -
  have "cur_lsn (Cursor_of t) \<le> commitLSN u" "commitLSN u < cur_lsn (Cursor_of u)"
    "cur_source (Cursor_of t) = src" "cur_source (Cursor_of u) = src"
    using assms by (auto simp: wal_ordered_def sorted_wrt_append)
  then show "at_or_before (Cursor_of t) (Cursor_of u)" "cur_lsn (Cursor_of t) < cur_lsn (Cursor_of u)"
    by (auto simp: at_or_before_def)
qed

section \<open>The window invariant\<close>

text \<open>\<open>ev\<close> are the transactions already evicted.\<close>

definition evicted_below :: "hub \<Rightarrow> transaction list \<Rightarrow> bool" where
  "evicted_below h ev \<longleftrightarrow> (\<forall>t \<in> set ev. hasEvicted h \<and> at_or_before (Cursor_of t) (lastEvicted h) \<and>
     (hasFloor h \<longrightarrow> at_or_before (Cursor_of t) (floorCursor h)))"

definition window_core :: "string \<Rightarrow> transaction list \<Rightarrow> hub \<Rightarrow> bool" where
  "window_core src hist h \<longleftrightarrow> wal_ordered src hist \<and> 0 \<le> maxReplay h \<and>
     (\<exists>ev. hist = ev @ ring h \<and> evicted_below h ev) \<and>
     (hasReceived h \<longleftrightarrow> hist \<noteq> []) \<and> (hist \<noteq> [] \<longrightarrow> received h = Cursor_of (last hist)) \<and>
     (hasEvicted h \<longrightarrow> cur_source (lastEvicted h) = src) \<and> (hasFloor h \<longrightarrow> cur_source (floorCursor h) = src)"

definition window_ok :: "string \<Rightarrow> transaction list \<Rightarrow> hub \<Rightarrow> bool" where
  "window_ok src hist h \<longleftrightarrow> window_core src hist h \<and> int (length (ring h)) \<le> maxReplay h"

lemma moved_up_above: "cur_source c = cur_source old \<Longrightarrow> at_or_before old (moved_up c old) \<and> at_or_before c (moved_up c old)"
  by (auto simp: moved_up_def later_iff at_or_before_def)

lemma moved_up_source: "cur_source c = cur_source old \<Longrightarrow> cur_source (moved_up c old) = cur_source old"
  by (simp add: moved_up_def)

lemma evictLocked_simps:
  "hasEvicted (evictLocked h)" "lastEvicted (evictLocked h) = Cursor_of (hd (ring h))"
  "hasFloor (evictLocked h) = hasFloor h" "ring (evictLocked h) = tl (ring h)" "maxReplay (evictLocked h) = maxReplay h"
  "hasReceived (evictLocked h) = hasReceived h" "received (evictLocked h) = received h"
  "hasFloor h \<Longrightarrow> floorCursor (evictLocked h) = moved_up (Cursor_of (hd (ring h))) (floorCursor h)"
  by (simp_all add: evictLocked_def Let_def moved_up_def)

lemma evictLocked_core:
  assumes "window_core src hist h" "ring h \<noteq> []"
  shows "window_core src hist (evictLocked h)"
proof -
  obtain r rs where r: "ring h = r # rs" using assms(2) by (cases "ring h") auto
  obtain ev where ev: "hist = ev @ r # rs" "evicted_below h ev"
    using assms(1) r by (auto simp: window_core_def)
  have wal: "wal_ordered src (ev @ r # rs)" using assms(1) ev(1) by (simp add: window_core_def)
  have src: "cur_source (Cursor_of r) = src" using wal by (simp add: wal_ordered_def)
  have le: "at_or_before (Cursor_of t) (Cursor_of r)" if "t \<in> set ev" for t
    using wal_ordered_before(1) [OF wal that] .
  have fsrc: "hasFloor h \<Longrightarrow> cur_source (floorCursor h) = src" using assms(1) by (simp add: window_core_def)
  have up: "hasFloor h \<Longrightarrow> at_or_before (Cursor_of r) (floorCursor (evictLocked h))"
    using moved_up_above [of "Cursor_of r" "floorCursor h"] src fsrc r by (simp add: evictLocked_simps)
  have "evicted_below (evictLocked h) (ev @ [r])"
    unfolding evicted_below_def
  proof (intro ballI conjI impI)
    fix t assume "t \<in> set (ev @ [r])"
    then have t: "at_or_before (Cursor_of t) (Cursor_of r)" using le by auto
    then show "at_or_before (Cursor_of t) (lastEvicted (evictLocked h))" using r by (simp add: evictLocked_simps)
    show "at_or_before (Cursor_of t) (floorCursor (evictLocked h))" if "hasFloor (evictLocked h)"
      using at_or_before_trans [OF t up] that by (simp add: evictLocked_simps)
  qed (simp add: evictLocked_simps)
  moreover have "hist = (ev @ [r]) @ ring (evictLocked h)" using ev(1) r by (simp add: evictLocked_simps)
  ultimately have ex: "\<exists>ev. hist = ev @ ring (evictLocked h) \<and> evicted_below (evictLocked h) ev" by blast
  have "hasFloor h \<Longrightarrow> cur_source (floorCursor (evictLocked h)) = src"
    using up src by (simp add: at_or_before_def)
  with ex show ?thesis
    using assms(1) src r by (simp add: window_core_def evictLocked_simps)
qed

lemma evict_loop_ok: "window_core src hist h \<Longrightarrow> window_ok src hist (evict_loop h)"
proof (induction h rule: evict_loop.induct)
  case (1 h)
  show ?case
  proof (cases "ring h \<noteq> [] \<and> int (length (ring h)) > maxReplay h")
    case True
    then have "evict_loop h = evict_loop (evictLocked h)" by (subst evict_loop.simps) simp
    then show ?thesis using 1(1) [OF True] evictLocked_core [OF 1(2)] True by simp
  next
    case False
    then have e: "evict_loop h = h" by (subst evict_loop.simps) (rule if_not_P)
    have "int (length (ring h)) \<le> maxReplay h"
      using False 1(2) by (cases "ring h") (auto simp: window_core_def)
    then show ?thesis using 1(2) e by (simp add: window_ok_def)
  qed
qed

lemma window_core_snoc:
  assumes "window_ok src hist h" "wal_ordered src (hist @ [t])"
  shows "window_core src (hist @ [t]) (h\<lparr>received := Cursor_of t, hasReceived := True, tick := n, tickTaken := b, ring := ring h @ [t]\<rparr>)"
  using assms by (auto simp: window_ok_def window_core_def evicted_below_def)

lemma advance_eq:
  "advance h t = evict_loop (h\<lparr>received := Cursor_of t, hasReceived := True,
     tick := (if tickTaken h then tick h + 1 else tick h), tickTaken := False, ring := ring h @ [t]\<rparr>)"
  by (cases h) (simp add: advance_def Let_def)

lemma advance_window:
  assumes "window_ok src hist h" "wal_ordered src (hist @ [t])"
  shows "window_ok src (hist @ [t]) (advance h t)"
proof -
  show ?thesis unfolding advance_eq using evict_loop_ok [OF window_core_snoc [OF assms]] by simp
qed

lemma evicted_below_mono:
  assumes "evicted_below h ev" "hasEvicted h \<Longrightarrow> hasEvicted h' \<and> at_or_before (lastEvicted h) (lastEvicted h')"
    and "hasFloor h' = hasFloor h" "hasFloor h \<Longrightarrow> at_or_before (floorCursor h) (floorCursor h')"
  shows "evicted_below h' ev"
  using assms unfolding evicted_below_def by (blast intro: at_or_before_trans)

lemma invalidateLocked_window:
  assumes "hub_ok h" "window_ok src hist h" "cur_source c = src"
  shows "window_ok src hist (invalidateLocked h tbl c)"
    and "hasFloor h \<Longrightarrow> at_or_before c (floorCursor (invalidateLocked h tbl c)) \<and>
      at_or_before (floorCursor h) (floorCursor (invalidateLocked h tbl c))"
proof -
  note s = invalidateLocked_spec [OF assms(1), of tbl c]
  have win: "ring (invalidateLocked h tbl c) = ring h" "received (invalidateLocked h tbl c) = received h"
    "hasReceived (invalidateLocked h tbl c) = hasReceived h" "maxReplay (invalidateLocked h tbl c) = maxReplay h"
    "hasFloor (invalidateLocked h tbl c) = hasFloor h"
    using s(2) by (simp_all add: same_window_def)
  have src: "hasFloor h \<Longrightarrow> cur_source (floorCursor h) = src" "hasEvicted h \<Longrightarrow> cur_source (lastEvicted h) = src"
    using assms(2) by (auto simp: window_ok_def window_core_def)
  have up: "hasFloor h \<Longrightarrow> at_or_before c (moved_up c (floorCursor h)) \<and> at_or_before (floorCursor h) (moved_up c (floorCursor h))"
    "hasEvicted h \<Longrightarrow> at_or_before (lastEvicted h) (moved_up c (lastEvicted h))"
    using moved_up_above src assms(3) by simp_all
  then show "hasFloor h \<Longrightarrow> at_or_before c (floorCursor (invalidateLocked h tbl c)) \<and>
      at_or_before (floorCursor h) (floorCursor (invalidateLocked h tbl c))"
    by (simp add: s(6))
  have below: "evicted_below (invalidateLocked h tbl c) ev" if "evicted_below h ev" for ev
    by (rule evicted_below_mono [OF that]) (use up in \<open>simp_all add: s(6-8) win\<close>)
  show "window_ok src hist (invalidateLocked h tbl c)"
    using assms(2,3) src below moved_up_source unfolding window_ok_def window_core_def win
    by (auto simp: s(6-8))
qed

lemma invalidate_all_window:
  assumes "hub_ok h" "window_ok src hist h" "cur_source c = src"
  shows "window_ok src hist (invalidate_all h incs c) \<and>
    (hasFloor h \<longrightarrow> at_or_before (floorCursor h) (floorCursor (invalidate_all h incs c)) \<and>
      (incs \<noteq> [] \<longrightarrow> at_or_before c (floorCursor (invalidate_all h incs c))))"
  using assms
proof (induction incs arbitrary: h)
  case Nil
  then show ?case by (simp add: invalidate_all_def)
next
  case (Cons inc incs)
  let ?h = "invalidateLocked h (inc_table inc) c"
  note s = invalidateLocked_spec [OF Cons.prems(1), of "inc_table inc" c]
  note w = invalidateLocked_window [OF Cons.prems, of "inc_table inc"]
  have f: "hasFloor ?h = hasFloor h" using s(2) by (simp add: same_window_def)
  have step: "invalidate_all h (inc # incs) c = invalidate_all ?h incs c" by (simp add: invalidate_all_def)
  show ?case
    unfolding step using Cons.IH [OF s(1) w(1) Cons.prems(3)] w(2) f
    by (auto intro: at_or_before_trans)
qed

lemma window_ok_core: "window_ok src hist h \<Longrightarrow> same_core h h' \<Longrightarrow> window_ok src hist h'"
  by (simp add: window_ok_def window_core_def evicted_below_def same_core_simps)

lemma evict_loop_floor:
  "window_core src hist h \<Longrightarrow> hasFloor h \<Longrightarrow> at_or_before (floorCursor h) (floorCursor (evict_loop h))"
proof (induction h rule: evict_loop.induct)
  case (1 h)
  show ?case
  proof (cases "ring h \<noteq> [] \<and> int (length (ring h)) > maxReplay h")
    case True
    then have e: "evict_loop h = evict_loop (evictLocked h)" by (subst evict_loop.simps) simp
    have "at_or_before (floorCursor h) (floorCursor (evictLocked h))"
      by (auto simp: evictLocked_def Let_def later_iff at_or_before_def)
    moreover have "hasFloor (evictLocked h)" using 1(3) by (simp add: evictLocked_def Let_def)
    ultimately show ?thesis
      using 1(1) [OF True] evictLocked_core [OF 1(2)] True e by (auto intro: at_or_before_trans)
  next
    case False
    then have "evict_loop h = h" by (subst evict_loop.simps) (rule if_not_P)
    then show ?thesis by simp
  qed
qed

lemma advance_floor:
  assumes "window_ok src hist h" "wal_ordered src (hist @ [t])" "hasFloor h"
  shows "at_or_before (floorCursor h) (floorCursor (advance h t))"
proof -
  show ?thesis unfolding advance_eq using evict_loop_floor [OF window_core_snoc [OF assms(1,2)]] assms(3) by simp
qed

lemma accept_new_window:
  assumes "hub_ok h" "window_ok src hist h" "wal_ordered src (hist @ [t])"
  shows "window_ok src (hist @ [t]) (accept_new h t)"
    and "hasFloor (accept_new h t) = hasFloor h"
    and "hasFloor h \<Longrightarrow> at_or_before (floorCursor h) (floorCursor (accept_new h t)) \<and>
      (Incompatible t \<noteq> [] \<longrightarrow> at_or_before (Cursor_of t) (floorCursor (accept_new h t)))"
proof -
  let ?h1 = "advance h t" and ?h2 = "invalidate_all (advance h t) (Incompatible t) (Cursor_of t)"
  have src: "cur_source (Cursor_of t) = src" using assms(3) by (simp add: wal_ordered_def)
  note core = accept_new_outcome(4) [OF assms(1), of t]
  note inv = invalidate_all_window [OF advance_ok [OF assms(1)] advance_window [OF assms(2,3)] src, of "Incompatible t"]
  have spec: "hasFloor ?h2 = hasFloor h"
    using invalidate_all_spec [OF advance_ok [OF assms(1)], of t "Incompatible t" "Cursor_of t"]
    by (simp add: same_window_def advance_frame)
  show "window_ok src (hist @ [t]) (accept_new h t)" using inv window_ok_core core by blast
  show "hasFloor (accept_new h t) = hasFloor h" using spec core by (simp add: same_core_simps)
  show "at_or_before (floorCursor h) (floorCursor (accept_new h t)) \<and>
      (Incompatible t \<noteq> [] \<longrightarrow> at_or_before (Cursor_of t) (floorCursor (accept_new h t)))" if "hasFloor h"
    using inv advance_floor [OF assms(2,3) that] that core
    by (auto simp: same_core_simps advance_frame intro: at_or_before_trans)
qed

end
