(* ===== verification/Hub_Correct.thy ===== *)
theory Hub_Correct
  imports Hub_Window
begin

text \<open>
  The hub's contracts: as the sink of the source's stream (fan-out, redelivery), and as the replay
  window of resuming watchers (complete, and never across a change of shape).
\<close>

section \<open>A new hub\<close>

lemma New_ok:
  assumes "New cfg b = Inr h"
  shows "hub_ok h" "window_ok src [] h" "0 < maxReplay h" "0 < queueSize h" "sourceID h = cfg_sourceID cfg"
    "\<not> hasFloor h" "watchers h = []"
proof -
  have h: "watchers h = [] \<and> routes h = [] \<and> ring h = [] \<and> \<not> hasReceived h \<and> \<not> hasEvicted h \<and> \<not> hasFloor h \<and>
     0 < maxReplay h \<and> 0 < queueSize h \<and> sourceID h = cfg_sourceID cfg"
    using assms
    by (auto simp: New_def Let_def rbind_Inr_iff defaultMaxReplayTransactions_def defaultWatcherQueue_def
        split: if_splits)
  have "scope_watchers h k = []" for k using h by (cases k) (simp add: scope_watchers.simps)
  then show "hub_ok h" using h by (intro hub_okI) (simp_all add: columns_distinct_def)
  show "window_ok src [] h" using h by (simp add: window_ok_def window_core_def evicted_below_def wal_ordered_def)
qed (use assms in \<open>auto simp: New_def Let_def rbind_Inr_iff defaultMaxReplayTransactions_def defaultWatcherQueue_def
        split: if_splits\<close>)

section \<open>The sink\<close>

lemma Accept_new:
  "\<not> hasReceived h \<or> later (Cursor_of t) (received h) \<Longrightarrow> Accept h t = Inr (accept_new h t)"
  by (auto simp: Accept_def later_def Compare_def split: if_splits)

lemma Accept_old: "hasReceived h \<Longrightarrow> at_or_before (Cursor_of t) (received h) \<Longrightarrow> Accept h t = Inr h"
  by (auto simp: Accept_def Compare_def at_or_before_def)

lemma Accept_foreign:
  "hasReceived h \<Longrightarrow> cur_source (Cursor_of t) \<noteq> cur_source (received h) \<Longrightarrow> \<exists>e. Accept h t = Inl e"
  by (auto simp: Accept_def Compare_def)

lemma accept_new_received: "hub_ok h \<Longrightarrow> received (accept_new h t) = Cursor_of t \<and> hasReceived (accept_new h t)"
  using accept_new_outcome(4) [of h t] invalidate_all_spec [OF advance_ok, of h t "Incompatible t" "Cursor_of t"]
  by (simp add: same_core_simps same_window_def advance_frame)

text \<open>What a stream relies on of its sink: delivering again a transaction at or before the last one
  accepted changes nothing, and accepting a newer one makes it the last.\<close>

locale transaction_sink =
  fixes accept :: "'h \<Rightarrow> transaction \<Rightarrow> goerror + 'h"
    and last_accepted :: "'h \<Rightarrow> cursor option"
    and sink_ok :: "'h \<Rightarrow> bool"
  assumes redelivered: "last_accepted h = Some c \<Longrightarrow> at_or_before (Cursor_of t) c \<Longrightarrow> accept h t = Inr h"
    and advanced: "sink_ok h \<Longrightarrow> accept h t = Inr h' \<Longrightarrow> h' = h \<and> last_accepted h \<noteq> None \<or> last_accepted h' = Some (Cursor_of t)"
    and kept_ok: "sink_ok h \<Longrightarrow> accept h t = Inr h' \<Longrightarrow> sink_ok h'"
    and newest: "last_accepted h = Some c \<Longrightarrow> accept h t = Inr h \<Longrightarrow> sink_ok h \<Longrightarrow> at_or_before (Cursor_of t) c"
begin

lemma resend_ignored:
  assumes "last_accepted h = Some c" "list_all (\<lambda>t. at_or_before (Cursor_of t) c) ts"
  shows "rfold accept h ts = Inr h"
  using assms by (induction ts) (auto simp: redelivered)

lemma accepted_below:
  assumes "sink_ok h" "rfold accept h ts = Inr h'" "sorted_wrt (\<lambda>a b. at_or_before (Cursor_of a) (Cursor_of b)) ts" "ts \<noteq> []"
  shows "\<exists>c. last_accepted h' = Some c \<and> list_all (\<lambda>t. at_or_before (Cursor_of t) c) ts"
  using assms
proof (induction ts arbitrary: h' rule: rev_induct)
  case (snoc t ts)
  then obtain h1 where h1: "rfold accept h ts = Inr h1" "accept h1 t = Inr h'"
    by (auto simp: rfold_append rbind_Inr_iff)
  have ok1: "sink_ok h1" using h1(1) snoc.prems(1) kept_ok by (rule rfold_invariant)
  have le: "list_all (\<lambda>s. at_or_before (Cursor_of s) (Cursor_of t)) ts"
    using snoc.prems(3) by (auto simp: sorted_wrt_append list_all_iff)
  from advanced [OF ok1 h1(2)] show ?case
  proof
    assume same: "h' = h1 \<and> last_accepted h1 \<noteq> None"
    then obtain c where c: "last_accepted h1 = Some c" by auto
    have tc: "at_or_before (Cursor_of t) c" using newest [OF c] h1(2) same ok1 by simp
    then have "list_all (\<lambda>s. at_or_before (Cursor_of s) c) ts"
      using le by (auto simp: list_all_iff intro: at_or_before_trans)
    with c tc same show ?thesis by simp
  next
    assume "last_accepted h' = Some (Cursor_of t)"
    with le show ?thesis by simp
  qed
qed simp

text \<open>After a reconnect the source may resend any transactions it already delivered, before going
  on: the sink ends in the state it would have reached without the reconnect.\<close>

lemma reconnect_transparent:
  assumes "sink_ok h" "rfold accept h ts = Inr h'" "sorted_wrt (\<lambda>a b. at_or_before (Cursor_of a) (Cursor_of b)) ts"
    and "set resent \<subseteq> set ts"
  shows "rfold accept h' (resent @ us) = rfold accept h (ts @ us)"
proof (cases "ts = []")
  case True
  then show ?thesis using assms by (simp add: rfold_append)
next
  case False
  then obtain c where c: "last_accepted h' = Some c" "list_all (\<lambda>t. at_or_before (Cursor_of t) c) ts"
    using accepted_below [OF assms(1-3)] by blast
  have "list_all (\<lambda>t. at_or_before (Cursor_of t) c) resent"
    using c(2) assms(4) by (auto simp: list_all_iff)
  then show ?thesis using resend_ignored [OF c(1)] assms(2) by (simp add: rfold_append)
qed

end

definition last_received :: "hub \<Rightarrow> cursor option" where
  "last_received h = (if hasReceived h then Some (received h) else None)"

lemma later_total:
  "cur_source a = cur_source b \<Longrightarrow> later a b \<or> at_or_before a b"
  by (auto simp: later_iff at_or_before_def)

lemma accept_new_differs:
  assumes "hub_ok h" "hasReceived h" "later (Cursor_of t) (received h)"
  shows "accept_new h t \<noteq> h"
  using accept_new_received [OF assms(1), of t] assms(3) by (auto simp: later_iff)

interpretation hub_sink: transaction_sink Accept last_received hub_ok
proof
  fix h c t h'
  show "last_received h = Some c \<Longrightarrow> at_or_before (Cursor_of t) c \<Longrightarrow> Accept h t = Inr h"
    by (auto simp: last_received_def Accept_old split: if_splits)
  show "hub_ok h \<Longrightarrow> Accept h t = Inr h' \<Longrightarrow> h' = h \<and> last_received h \<noteq> None \<or> last_received h' = Some (Cursor_of t)"
    using accept_new_received [of h t]
    by (auto simp: Accept_def last_received_def rbind_Inr_iff split: if_splits)
  show "hub_ok h \<Longrightarrow> Accept h t = Inr h' \<Longrightarrow> hub_ok h'"
    using accept_new_outcome(1) [of h t] by (auto simp: Accept_def rbind_Inr_iff split: if_splits)
  show "last_received h = Some c \<Longrightarrow> Accept h t = Inr h \<Longrightarrow> hub_ok h \<Longrightarrow> at_or_before (Cursor_of t) c"
  proof -
    assume c: "last_received h = Some c" and acc: "Accept h t = Inr h" and ok: "hub_ok h"
    have r: "hasReceived h" "received h = c" using c by (auto simp: last_received_def split: if_splits)
    have "cur_source (Cursor_of t) = cur_source c" using Accept_foreign [OF r(1), of t] acc r(2) by auto
    moreover have "\<not> later (Cursor_of t) c"
      using Accept_new [of h t] acc accept_new_differs [OF ok r(1), of t] r(2) by auto
    ultimately show "at_or_before (Cursor_of t) c" using later_total by blast
  qed
qed

text \<open>C6: every transaction reaches exactly the watchers it concerns, whole. Accepting a new transaction
  queues, for each registered watcher, one item with exactly the transaction's changes to its table and
  scope in their order; a watcher without any is untouched; one whose queue is full, or whose
  table changed shape in the transaction, is ended with that reason; a watcher that is not
  registered is untouched; and the routing index stays exact.\<close>

theorem Accept_fanout:
  assumes "hub_ok h" and "\<not> hasReceived h \<or> later (Cursor_of t) (received h)"
  shows "\<exists>h'. Accept h t = Inr h' \<and> hub_ok h' \<and>
    (\<forall>w. if w \<in> set (watchers h)
      then accept_outcome (queueSize h) t (heap h w) (heap h' w) (w \<in> set (watchers h'))
      else heap h' w = heap h w \<and> w \<notin> set (watchers h'))"
  using Accept_new [OF assms(2)] accept_new_outcome [OF assms(1)] by auto

definition items_spec :: projectionSpec where
  "items_spec = \<lparr>SourceID = ''s'', Schema = ''public'', TableName = ''items'', ScopeColumn = ''tenant'',
     PrimaryKey = [''tenant'', ''id'']\<rparr>"

definition items_projection :: projection where
  "items_projection = \<lparr>pr_spec = items_spec, pr_table = ''public.items''\<rparr>"

definition sample_watcher :: "string \<Rightarrow> watcher" where
  "sample_watcher scope = \<lparr>w_projection = items_projection, w_scope = scope, w_queue = [], w_overflow = False, w_reason = None\<rparr>"

definition sample_hub :: "int \<Rightarrow> int \<Rightarrow> hub" where
  "sample_hub mr wq = \<lparr>sourceID = ''s'', projections = [(''items'', items_projection)], maxReplay = mr, queueSize = wq,
     ring = [], received = zeroCursor, hasReceived = False, floorCursor = zeroCursor, hasFloor = False,
     lastEvicted = zeroCursor, hasEvicted = False, watchers = [], stale = [], routes = [], tick = 0,
     tickTaken = False, memos = 0, stopped = False, heap = (\<lambda>_. sample_watcher ''acme'')\<rparr>"

definition item_change :: "string \<Rightarrow> string \<Rightarrow> change" where
  "item_change tenant i = \<lparr>Operation = OperationInsert, Table = ''public.items'', Key = [(''tenant'', tenant), (''id'', i)],
     Columns = [''tenant'', ''id''], Values = [TextValue tenant, TextValue i]\<rparr>"

definition item_txn :: "lsn \<Rightarrow> change list \<Rightarrow> incompatible list \<Rightarrow> transaction" where
  "item_txn l chs incs = \<lparr>Cursor_of = \<lparr>cur_source = ''s'', cur_lsn = l + 1\<rparr>, Changes = chs, CommitTime = 0,
     Incompatible = incs, commitLSN = l, xid_of = 0\<rparr>"

lemma sample_hub_ok: "hub_ok (sample_hub mr wq)"
proof -
  have "scope_watchers (sample_hub mr wq) k = []" for k
    by (cases k) (simp add: scope_watchers.simps sample_hub_def)
  then show ?thesis by (intro hub_okI) (simp_all add: columns_distinct_def sample_hub_def)
qed

lemma sample_hub_window: "0 \<le> mr \<Longrightarrow> window_ok src [] (sample_hub mr wq)"
  by (simp add: window_ok_def window_core_def evicted_below_def wal_ordered_def sample_hub_def)

definition watched_hub :: hub where
  "watched_hub = registerLocked (sample_hub 2 1) 0"

lemma watched_hub_ok: "hub_ok watched_hub"
  unfolding watched_hub_def
  by (rule registerLocked_ok [OF sample_hub_ok]) (simp_all add: sample_hub_def sample_watcher_def)

lemma watched_hub_simps:
  "watchers watched_hub = [0]" "heap watched_hub = (\<lambda>_. sample_watcher ''acme'')" "queueSize watched_hub = 1"
  "hasReceived watched_hub = False"
proof -
  note r = registerLocked_spec [OF hub_okD(1) [OF sample_hub_ok [of 2 1]], of 0]
  note c = same_core_simps [OF r(5)]
  show "watchers watched_hub = [0]" "heap watched_hub = (\<lambda>_. sample_watcher ''acme'')" "queueSize watched_hub = 1"
    "hasReceived watched_hub = False"
    unfolding watched_hub_def r(3,4) c(4,7) by (simp_all add: sample_hub_def)
qed

theorem Accept_fanout_witness:
  "\<exists>h' memo. Accept watched_hub (item_txn 5 [item_change ''acme'' ''1'', item_change ''other'' ''2''] []) = Inr h' \<and>
     w_queue (heap h' 0) = [\<lparr>q_transaction = item_txn 5 [item_change ''acme'' ''1'', item_change ''other'' ''2''] [],
       q_changes = [item_change ''acme'' ''1''], q_memo = memo\<rparr>]"
proof -
  let ?t = "item_txn 5 [item_change ''acme'' ''1'', item_change ''other'' ''2''] []"
  obtain h' where h': "Accept watched_hub ?t = Inr h'"
    "\<forall>w. if w \<in> set (watchers watched_hub)
      then accept_outcome (queueSize watched_hub) ?t (heap watched_hub w) (heap h' w) (w \<in> set (watchers h'))
      else heap h' w = heap watched_hub w \<and> w \<notin> set (watchers h')"
    using Accept_fanout [OF watched_hub_ok, of ?t] watched_hub_simps(4) by blast
  have "accept_outcome 1 ?t (sample_watcher ''acme'') (heap h' 0) (0 \<in> set (watchers h'))"
    using h'(2) [rule_format, of 0] by (simp add: watched_hub_simps)
  then have "\<exists>memo. heap h' 0 = sent_to 1 \<lparr>q_transaction = ?t, q_changes = [item_change ''acme'' ''1''], q_memo = memo\<rparr> (sample_watcher ''acme'')"
    by (simp add: accept_outcome_def Let_def sample_watcher_def projection_changes_def item_txn_def items_projection_def
        item_change_def items_spec_def gm_get_def)
  then show ?thesis using h'(1) by (auto simp: sent_to_def fits_def sample_watcher_def)
qed

text \<open>A reconnect is invisible downstream. After the hub accepted \<open>ts\<close> in commit order, the
  source resends any of them, in any order and number, and goes on with \<open>us\<close>: the hub ends in the very state it reaches
  without the resent ones, queues and replay window included.\<close>

theorem Accept_reconnect:
  assumes "hub_ok h" and "rfold Accept h ts = Inr h'"
    and "sorted_wrt (\<lambda>a b. at_or_before (Cursor_of a) (Cursor_of b)) ts" and "set resent \<subseteq> set ts"
  shows "rfold Accept h' (resent @ us) = rfold Accept h (ts @ us)"
  using assms by (rule hub_sink.reconnect_transparent)

theorem Accept_reconnect_witness:
  "rfold Accept (accept_new watched_hub (item_txn 5 [item_change ''acme'' ''1''] []))
     ([item_txn 5 [item_change ''acme'' ''1''] []] @ [item_txn 9 [item_change ''acme'' ''2''] []]) =
   rfold Accept watched_hub ([item_txn 5 [item_change ''acme'' ''1''] []] @ [item_txn 9 [item_change ''acme'' ''2''] []])"
  by (rule Accept_reconnect [OF watched_hub_ok]) (simp_all add: Accept_new watched_hub_simps)

section \<open>The replay window\<close>

lemma Accept_next:
  assumes "window_ok src hist h" "wal_ordered src (hist @ [t])"
  shows "Accept h t = Inr (accept_new h t)"
proof (rule Accept_new, cases "hist = []")
  case True
  then show "\<not> hasReceived h \<or> later (Cursor_of t) (received h)"
    using assms(1) by (simp add: window_ok_def window_core_def)
next
  case False
  then have r: "received h = Cursor_of (last hist)" using assms(1) by (simp add: window_ok_def window_core_def)
  have "last hist \<in> set hist" using False by simp
  then have "at_or_before (Cursor_of (last hist)) (Cursor_of t)" "cur_lsn (Cursor_of (last hist)) < cur_lsn (Cursor_of t)"
    using wal_ordered_before [of src hist t "[]"] assms(2) by simp_all
  then show "\<not> hasReceived h \<or> later (Cursor_of t) (received h)"
    unfolding r by (simp add: later_iff at_or_before_def)
qed

lemma Accept_run:
  assumes "hub_ok h" "window_ok src hist h" "wal_ordered src (hist @ ts)"
  shows "\<exists>h'. rfold Accept h ts = Inr h' \<and> hub_ok h' \<and> window_ok src (hist @ ts) h' \<and> hasFloor h' = hasFloor h \<and>
    (hasFloor h \<longrightarrow> at_or_before (floorCursor h) (floorCursor h'))"
  using assms
proof (induction ts arbitrary: h hist)
  case (Cons t ts)
  have wal: "wal_ordered src (hist @ [t])" "wal_ordered src ((hist @ [t]) @ ts)"
    using Cons.prems(3) wal_ordered_append [of src "hist @ [t]" ts] by simp_all
  note w = accept_new_window [OF Cons.prems(1,2) wal(1)]
  note ok = accept_new_outcome(1) [OF Cons.prems(1), of t]
  obtain h' where h': "rfold Accept (accept_new h t) ts = Inr h'" "hub_ok h'" "window_ok src ((hist @ [t]) @ ts) h'"
    "hasFloor h' = hasFloor (accept_new h t)"
    "hasFloor (accept_new h t) \<longrightarrow> at_or_before (floorCursor (accept_new h t)) (floorCursor h')"
    using Cons.IH [OF ok w(1) wal(2)] by blast
  have "rfold Accept h (t # ts) = Inr h'" using h'(1) Accept_next [OF Cons.prems(2) wal(1)] by simp
  moreover have "hasFloor h \<longrightarrow> at_or_before (floorCursor h) (floorCursor h')"
    using w(2,3) h'(5) at_or_before_trans by blast
  ultimately show ?case using h' w(2) by auto
qed simp

lemma recordSnapshotLocked_window:
  assumes "window_ok src hist h" "cur_source c = src"
  shows "window_ok src hist (recordSnapshotLocked h c)"
proof (cases "hasFloor h")
  case False
  let ?f = "if hasEvicted h \<and> later (lastEvicted h) c then lastEvicted h else c"
  have src: "hasEvicted h \<Longrightarrow> cur_source (lastEvicted h) = src" using assms(1) by (simp add: window_ok_def window_core_def)
  have up: "hasEvicted h \<Longrightarrow> at_or_before (lastEvicted h) ?f"
    using src assms(2) by (auto simp: later_iff at_or_before_def)
  have eq: "recordSnapshotLocked h c = h\<lparr>floorCursor := ?f, hasFloor := True\<rparr>"
    using False by (simp add: recordSnapshotLocked_def)
  have "evicted_below (recordSnapshotLocked h c) ev" if "evicted_below h ev" for ev
    using that up unfolding eq evicted_below_def by (auto intro: at_or_before_trans)
  then show ?thesis
    using assms src unfolding window_ok_def window_core_def eq by auto
qed (use assms in \<open>simp add: recordSnapshotLocked_def\<close>)

lemma replayableLocked_iff:
  "replayableLocked h c \<longleftrightarrow> hasFloor h \<and> at_or_before (floorCursor h) c"
  by (auto simp: replayableLocked_def Compare_def at_or_before_def)

lemma before_floor_not_after:
  assumes "at_or_before (Cursor_of t) f" "at_or_before f c" "commitLSN t < cur_lsn (Cursor_of t)"
  shows "After t c = Inr False"
proof -
  have "at_or_before (Cursor_of t) c" using assms(1,2) by (rule at_or_before_trans)
  with assms(3) show ?thesis by (auto simp: After_def at_or_before_def)
qed

text \<open>While the window's invariant holds, the ring has every transaction that a replayable cursor needs.\<close>

lemma window_replay:
  assumes "window_ok src hist h" and "replayableLocked h c"
  shows "filter (\<lambda>t. After t c = Inr True) hist = filter (\<lambda>t. After t c = Inr True) (ring h) \<and>
    list_all (\<lambda>t. is_ok (After t c)) (ring h) \<and> int (length (ring h)) \<le> maxReplay h"
proof -
  obtain ev where ev: "hist = ev @ ring h" "evicted_below h ev" and wal: "wal_ordered src hist"
    using assms(1) by (auto simp: window_ok_def window_core_def)
  have f: "hasFloor h" "at_or_before (floorCursor h) c" using assms(2) by (simp_all add: replayableLocked_iff)
  have "After t c = Inr False" if "t \<in> set ev" for t
  proof (rule before_floor_not_after [OF _ f(2)])
    show "at_or_before (Cursor_of t) (floorCursor h)" using ev(2) that f(1) by (simp add: evicted_below_def)
    show "commitLSN t < cur_lsn (Cursor_of t)" using wal_orderedD(2) [OF wal] that ev(1) by simp
  qed
  then have "filter (\<lambda>t. After t c = Inr True) ev = []" by (auto simp: filter_empty_conv)
  moreover have "cur_source c = src"
    using f assms(1) by (auto simp: window_ok_def window_core_def at_or_before_def)
  then have "list_all (\<lambda>t. is_ok (After t c)) (ring h)"
    using wal ev(1) by (auto simp: list_all_iff After_def wal_ordered_def)
  ultimately show ?thesis using ev(1) assms(1) by (simp add: window_ok_def)
qed

definition floored_hub :: hub where
  "floored_hub = recordSnapshotLocked (sample_hub 2 1) \<lparr>cur_source = ''s'', cur_lsn = 3\<rparr>"

lemma floored_hub_simps:
  "hub_ok floored_hub" "window_ok ''s'' [] floored_hub" "hasFloor floored_hub"
  "floorCursor floored_hub = \<lparr>cur_source = ''s'', cur_lsn = 3\<rparr>"
proof -
  show "hub_ok floored_hub"
    by (rule hub_ok_cong [OF sample_hub_ok [of 2 1]])
      (simp_all add: floored_hub_def recordSnapshotLocked_def sample_hub_def)
  show "window_ok ''s'' [] floored_hub"
    unfolding floored_hub_def by (rule recordSnapshotLocked_window [OF sample_hub_window]) simp_all
qed (simp_all add: floored_hub_def recordSnapshotLocked_def sample_hub_def)

text \<open>C8: a watcher never resumes across a change of shape. Once the replay floor exists, after a
  transaction in which a projected table changed shape, whatever the hub accepts next, no cursor
  it takes for replayable needs that transaction or an earlier one.\<close>

theorem no_replay_across_shape_change:
  assumes "hub_ok h" and "window_ok src hist h" and "hasFloor h"
    and "wal_ordered src (hist @ t # ts)" and "Incompatible t \<noteq> []"
    and "rfold Accept h (t # ts) = Inr h'" and "replayableLocked h' c"
  shows "\<forall>u \<in> set (hist @ [t]). After u c = Inr False"
proof
  fix u assume u: "u \<in> set (hist @ [t])"
  have wal: "wal_ordered src (hist @ [t])" "wal_ordered src ((hist @ [t]) @ ts)"
    using assms(4) wal_ordered_append [of src "hist @ [t]" ts] by simp_all
  note w = accept_new_window [OF assms(1,2) wal(1)]
  obtain h2 where h2: "rfold Accept (accept_new h t) ts = Inr h2"
    "hasFloor (accept_new h t) \<longrightarrow> at_or_before (floorCursor (accept_new h t)) (floorCursor h2)"
    using Accept_run [OF accept_new_outcome(1) [OF assms(1)] w(1) wal(2)] by blast
  have "h' = h2" using assms(6) h2(1) Accept_next [OF assms(2) wal(1)] by simp
  then have "at_or_before (Cursor_of t) (floorCursor h')"
    using h2(2) w(2,3) assms(3,5) at_or_before_trans by blast
  moreover have "at_or_before (Cursor_of u) (Cursor_of t)"
    using u wal_ordered_before(1) [OF assms(4), of u] by auto
  ultimately have "at_or_before (Cursor_of u) (floorCursor h')" by (rule at_or_before_trans [rotated])
  moreover have "at_or_before (floorCursor h') c" using assms(7) by (simp add: replayableLocked_iff)
  moreover have "commitLSN u < cur_lsn (Cursor_of u)" using wal_orderedD(2) [OF wal(1) u] .
  ultimately show "After u c = Inr False" by (rule before_floor_not_after)
qed

definition shape_event :: incompatible where
  "shape_event = \<lparr>inc_table = ''public.items'', inc_difference = ColumnAdded ''extra''\<rparr>"

theorem no_replay_across_shape_change_witness:
  "\<exists>h'. rfold Accept floored_hub [item_txn 5 [] [shape_event]] = Inr h' \<and>
     (replayableLocked h' \<lparr>cur_source = ''s'', cur_lsn = 6\<rparr>) \<and>
     (\<forall>u \<in> {item_txn 5 [] [shape_event]}. After u \<lparr>cur_source = ''s'', cur_lsn = 6\<rparr> = Inr False)"
proof -
  let ?t = "item_txn 5 [] [shape_event]" and ?c = "\<lparr>cur_source = ''s'', cur_lsn = 6\<rparr>"
  have wal: "wal_ordered ''s'' ([] @ ?t # [])" by (simp add: wal_ordered_def item_txn_def)
  have run: "rfold Accept floored_hub [?t] = Inr (accept_new floored_hub ?t)"
    using Accept_next [OF floored_hub_simps(2), of ?t] wal by simp
  have "floorCursor (accept_new floored_hub ?t) = ?c \<and> hasFloor (accept_new floored_hub ?t)"
    by (simp add: accept_new_def Let_def item_txn_def collect_deliveries_def no_deliveries_def
        invalidateLocked_def advance_def floored_hub_def recordSnapshotLocked_def sample_hub_def
        evict_loop.simps [where h = "ring_update f x" for f x] later_iff shape_event_def)
  then have r: "replayableLocked (accept_new floored_hub ?t) ?c" by (simp add: replayableLocked_iff)
  from no_replay_across_shape_change [OF floored_hub_simps(1-3) wal _ run r] run r show ?thesis
    by (auto simp: item_txn_def)
qed

text \<open>Before the first snapshot sets the floor, \<open>evictLocked\<close> overwrites \<open>lastEvicted\<close> even when a
  change of shape had moved it further.\<close>

definition forgetful_run :: "goerror + hub" where
  "forgetful_run = rbind (rfold Accept (sample_hub 2 1)
     [item_txn 10 [] [], item_txn 20 [] [], item_txn 30 [] [shape_event], item_txn 40 [] []])
     (\<lambda>h. Inr (recordSnapshotLocked h \<lparr>cur_source = ''s'', cur_lsn = 15\<rparr>))"

text \<open>Without a floor the promise fails. Four transactions arrive while the first snapshot is being
  read, the third of them with a change of shape, and the window keeps two; when the snapshot sets
  the floor, the hub takes cursor 25 for replayable and would replay the third transaction, whose changes to
  the table were dropped.\<close>

theorem eviction_forgets_shape_change:
  "case forgetful_run of
     Inl _ \<Rightarrow> False
   | Inr h \<Rightarrow> replayableLocked h \<lparr>cur_source = ''s'', cur_lsn = 25\<rparr> \<and>
       After (ring h ! 0) \<lparr>cur_source = ''s'', cur_lsn = 25\<rparr> = Inr True \<and> Incompatible (ring h ! 0) = [shape_event]"
  by code_simp

end
