(* ===== verification/Watch_Frame.thy ===== *)
theory Watch_Frame
  imports Watch Hub_Correct
begin

text \<open>
  What a step of one watch goroutine leaves alone, and the registration phases of a goroutine.
\<close>

section \<open>Phases\<close>

text \<open>Program counters at which the goroutine has registered its watcher and not yet unregistered it.\<close>

fun registered_pc :: "pc \<Rightarrow> bool" where
  "registered_pc Idle = False"
| "registered_pc (Called req) = False"
| "registered_pc (Resuming c) = False"
| "registered_pc Snapshotting = False"
| "registered_pc (Refusing e) = False"
| "registered_pc (Done r) = False"
| "registered_pc _ = True"

text \<open>Program counters at which the watcher is allocated and about to register.\<close>

fun fresh_pc :: "pc \<Rightarrow> bool" where
  "fresh_pc (Resuming c) = True"
| "fresh_pc Snapshotting = True"
| "fresh_pc _ = False"

fun mode_of :: "pc \<Rightarrow> mode option" where
  "mode_of (SnapRecord bs s) = Some (Snapshotted s)"
| "mode_of (SnapEnd bs s) = Some (Snapshotted s)"
| "mode_of (Backlog bs m) = Some m"
| "mode_of (LivePosition m first progressed) = Some m"
| "mode_of (LiveDrain m first progressed pos rcv tk) = Some m"
| "mode_of (LiveSend item m first progressed pos rcv tk) = Some m"
| "mode_of (LiveProgress m first progressed pos rcv tk) = Some m"
| "mode_of (LiveSelect m progressed tk) = Some m"
| "mode_of _ = None"

lemmas step_defs = start_watch_def resume_locked_def snapshot_locked_def snapshot_returned_def live_position_def
  live_drain_def live_select_def send_def at_def Let_def position_def

text \<open>The registration state of watcher \<open>w\<close> fits its goroutine.\<close>

definition phase_ok :: "hub \<Rightarrow> wid \<Rightarrow> pc \<Rightarrow> bool" where
  "phase_ok h w p \<longleftrightarrow>
     (w \<in> set (watchers h) \<longrightarrow> registered_pc p) \<and>
     (registered_pc p \<longrightarrow> w \<in> set (watchers h) \<or> w_overflow (heap h w) \<and> w_reason (heap h w) \<noteq> None) \<and>
     (fresh_pc p \<longrightarrow> \<not> w_overflow (heap h w) \<and> w_queue (heap h w) = [])"

section \<open>Frame of a step\<close>

definition same_stream :: "hub \<Rightarrow> hub \<Rightarrow> bool" where
  "same_stream h h' \<longleftrightarrow> ring h' = ring h \<and> received h' = received h \<and> hasReceived h' = hasReceived h \<and>
     maxReplay h' = maxReplay h \<and> queueSize h' = queueSize h \<and> sourceID h' = sourceID h \<and> projections h' = projections h"

lemma same_core_stream: "same_core h h' \<Longrightarrow> same_stream h h'"
  by (simp add: same_stream_def same_core_simps)

lemma unregister_spec:
  assumes "hub_ok h"
  shows "hub_ok (unregister h w)" "heap (unregister h w) = heap h" "set (watchers (unregister h w)) = set (watchers h) - {w}"
    "same_core h (unregister h w)"
proof -
  have *: "hub_ok (unregister h w) \<and> heap (unregister h w) = heap h \<and>
      set (watchers (unregister h w)) = set (watchers h) - {w} \<and> same_core h (unregister h w)"
  proof (cases "w \<in> set (watchers h)")
    case True
    note r = removeLocked_spec [OF hub_okD(1) [OF assms] True]
    show ?thesis using r removeLocked_ok [OF assms, of w] by (simp add: unregister_def)
  next
    case False
    then show ?thesis using assms by (simp add: unregister_def removeLocked_absent)
  qed
  then show "hub_ok (unregister h w)" "heap (unregister h w) = heap h" "set (watchers (unregister h w)) = set (watchers h) - {w}"
    "same_core h (unregister h w)" by blast+
qed

lemma register_set: "hub_ok h \<Longrightarrow> set (watchers (registerLocked h w)) = insert w (set (watchers h))"
  by (simp add: registerLocked_spec(3) [OF hub_okD(1)])

lemma register_heap: "hub_ok h \<Longrightarrow> heap (registerLocked h w) = heap h"
  by (simp add: registerLocked_spec(4) [OF hub_okD(1)])

lemma register_stream: "hub_ok h \<Longrightarrow> same_stream h (registerLocked h w)"
  by (rule same_core_stream) (simp add: registerLocked_spec(5) [OF hub_okD(1)])

lemma record_stream: "same_stream h (recordSnapshotLocked h c)"
  by (simp add: same_stream_def recordSnapshotLocked_def)

lemma record_frame: "heap (recordSnapshotLocked h c) = heap h" "watchers (recordSnapshotLocked h c) = watchers h"
  "routes (recordSnapshotLocked h c) = routes h"
  by (simp_all add: recordSnapshotLocked_def)

lemma same_stream_refl [simp]: "same_stream h h"
  by (simp add: same_stream_def)

lemma same_stream_update [simp]:
  "same_stream h (h\<lparr>heap := f\<rparr>)" "same_stream h (h\<lparr>stale := st\<rparr>)" "same_stream h (h\<lparr>tickTaken := b\<rparr>)"
  by (simp_all add: same_stream_def)

lemmas step_cases = option.splits sum.splits if_splits choice.splits list.splits prod.splits bool.splits

lemma thread_step_frame:
  assumes "hub_ok h" "thread_step parse_lsn ch h w th = Some (h', th')"
  shows "same_stream h h'" and "x \<noteq> w \<Longrightarrow> heap h' x = heap h x"
    and "x \<noteq> w \<Longrightarrow> x \<in> set (watchers h') \<longleftrightarrow> x \<in> set (watchers h)"
proof -
  note simps = register_stream [OF assms(1)] register_heap [OF assms(1)] register_set [OF assms(1)]
    same_core_stream [OF unregister_spec(4) [OF assms(1)]] unregister_spec(2,3) [OF assms(1)] record_stream record_frame
  have "same_stream h h' \<and> (x \<noteq> w \<longrightarrow> heap h' x = heap h x \<and> (x \<in> set (watchers h') \<longleftrightarrow> x \<in> set (watchers h)))" for x
    using assms(2) by (cases "th_pc th") (auto simp: step_defs simps split: step_cases)
  then show "same_stream h h'" "x \<noteq> w \<Longrightarrow> heap h' x = heap h x"
    "x \<noteq> w \<Longrightarrow> x \<in> set (watchers h') \<longleftrightarrow> x \<in> set (watchers h)" by blast+
qed

lemma heap_update_ok:
  assumes "hub_ok h" "home v = home (heap h w) \<and> w_overflow v = w_overflow (heap h w) \<or> w \<notin> set (watchers h)"
  shows "hub_ok (h\<lparr>heap := (heap h)(w := v)\<rparr>)"
  by (rule hub_ok_cong [OF assms(1)]) (use assms(2) in auto)

lemma hub_ok_other [simp]:
  "hub_ok h \<Longrightarrow> hub_ok (h\<lparr>stale := st\<rparr>)" "hub_ok h \<Longrightarrow> hub_ok (h\<lparr>tickTaken := b\<rparr>)"
  "hub_ok h \<Longrightarrow> hub_ok (recordSnapshotLocked h c)" "hub_ok h \<Longrightarrow> hub_ok (h\<lparr>stopped := b\<rparr>)"
  by (erule hub_ok_cong, simp_all add: record_frame)+

lemma home_queue [simp]: "home (v\<lparr>w_queue := q\<rparr>) = home v"
  by (simp add: home_def)

lemma thread_step_ok:
  assumes "hub_ok h" "phase_ok h w (th_pc th)" "thread_step parse_lsn ch h w th = Some (h', th')"
  shows "hub_ok h'"
proof -
  have reg: "hub_ok (registerLocked h w)" if "fresh_pc (th_pc th)"
    using assms(2) that by (intro registerLocked_ok [OF assms(1)]) (cases "th_pc th"; simp add: phase_ok_def)+
  have upd: "hub_ok (h\<lparr>heap := (heap h)(w := (heap h w)\<lparr>w_queue := q\<rparr>)\<rparr>)" for q
    by (rule heap_update_ok [OF assms(1)]) simp
  have new: "hub_ok (h\<lparr>heap := (heap h)(w := v)\<rparr>)" if "\<not> registered_pc (th_pc th)" for v
    using assms(2) that by (intro heap_update_ok [OF assms(1)]) (auto simp: phase_ok_def)
  show ?thesis
    using assms(1,3) reg upd new unregister_spec(1) [OF assms(1), of w]
    by (cases "th_pc th") (auto simp: step_defs split: step_cases)
qed

lemma phase_ok_own:
  assumes "phase_ok h w p" "w \<in> set (watchers h') \<longleftrightarrow> w \<in> set (watchers h)"
    "w_overflow (heap h' w) = w_overflow (heap h w)" "w_reason (heap h' w) = w_reason (heap h w)"
    "registered_pc q = registered_pc p" "\<not> fresh_pc q"
  shows "phase_ok h' w q"
  using assms by (simp add: phase_ok_def)

lemma phase_ok_fresh:
  assumes "phase_ok h w p" "\<not> registered_pc p" "watchers h' = watchers h" "\<not> registered_pc q"
    "fresh_pc q \<longrightarrow> \<not> w_overflow (heap h' w) \<and> w_queue (heap h' w) = []"
  shows "phase_ok h' w q"
  using assms by (simp add: phase_ok_def)

lemma phase_ok_register:
  assumes "hub_ok h" "registered_pc q"
  shows "phase_ok (registerLocked h w) w q"
  using assms by (cases q) (simp_all add: phase_ok_def register_set)

lemma phase_ok_unregister:
  assumes "hub_ok h"
  shows "phase_ok (unregister h w) w (Done r)"
  using unregister_spec(3) [OF assms] by (simp add: phase_ok_def)

lemma thread_step_phase:
  assumes "hub_ok h" "phase_ok h w (th_pc th)" "thread_step parse_lsn ch h w th = Some (h', th')"
  shows "phase_ok h' w (th_pc th')"
proof (cases "registered_pc (th_pc th)")
  case True
  show ?thesis
  proof (cases "\<exists>r. th_pc th = Leaving r")
    case True
    then show ?thesis using assms(3) phase_ok_unregister [OF assms(1)] by (auto simp: at_def split: if_splits)
  next
    case False
    have "(w \<in> set (watchers h') \<longleftrightarrow> w \<in> set (watchers h)) \<and>
        w_overflow (heap h' w) = w_overflow (heap h w) \<and> w_reason (heap h' w) = w_reason (heap h w) \<and>
        registered_pc (th_pc th') \<and> \<not> fresh_pc (th_pc th')"
      using assms(3) True False by (cases "th_pc th") (auto simp: step_defs record_frame split: step_cases)
    then show ?thesis using phase_ok_own [OF assms(2)] True by simp
  qed
next
  case False
  have "h' = registerLocked h w \<and> registered_pc (th_pc th') \<or> watchers h' = watchers h \<and> \<not> registered_pc (th_pc th') \<and>
      (fresh_pc (th_pc th') \<longrightarrow> \<not> w_overflow (heap h' w) \<and> w_queue (heap h' w) = [])"
    using assms(3) False by (cases "th_pc th") (auto simp: step_defs new_watcher_def split: step_cases)
  then show ?thesis
    using phase_ok_register [OF assms(1)] phase_ok_fresh [OF assms(2) False] by blast
qed

end
