(* ===== verification/Watch_Pipeline.thy ===== *)
theory Watch_Pipeline
  imports Watch_Frame
begin

text \<open>
  What a watcher has been sent, what it holds and what it will find in its queue, compared with the
  history of the hub: the invariant of all interleavings of the stream with the watch goroutines.
\<close>

section \<open>What a watcher should be sent\<close>

definition batch_for :: "watcher \<Rightarrow> transaction \<Rightarrow> batch" where
  "batch_for w t = \<lparr>bt_cursor = Cursor_of t, bt_commitTime = CommitTime t,
     bt_changes = projection_changes (w_projection w) (w_scope w) t, bt_memo = None\<rparr>"

definition needed :: "watcher \<Rightarrow> mode \<Rightarrow> transaction \<Rightarrow> bool" where
  "needed w m t \<longleftrightarrow> relevant w t \<and> need m t = Inr True"

definition expected :: "watcher \<Rightarrow> mode \<Rightarrow> transaction list \<Rightarrow> batch list" where
  "expected w m ts = map (batch_for w) (filter (needed w m) ts)"

lemma expected_simps [simp]:
  "expected w m [] = []" "expected w m (ts @ us) = expected w m ts @ expected w m us"
  "expected w m (t # ts) = (if needed w m t then batch_for w t # expected w m ts else expected w m ts)"
  by (simp_all add: expected_def)

lemma expected_relevant: "expected w m (filter (relevant w) ts) = expected w m ts"
  by (induction ts) (auto simp: needed_def)

text \<open>The batches among the sent events, without the memo that only shares their encoding.\<close>

definition unshared :: "batch \<Rightarrow> batch" where
  "unshared b = b\<lparr>bt_memo := None\<rparr>"

fun batches :: "event list \<Rightarrow> batch list" where
  "batches [] = []"
| "batches (Batch b # es) = unshared b # batches es"
| "batches (_ # es) = batches es"

lemma batches_append [simp]: "batches (es @ es') = batches es @ batches es'"
  by (induction es rule: batches.induct) simp_all

lemma unshared_batch_for [simp]: "unshared (batch_for w t) = batch_for w t"
  by (simp add: unshared_def batch_for_def)

lemma map_unshared_expected [simp]: "map unshared (expected w m ts) = expected w m ts"
  by (simp add: expected_def)

lemma appendBatch_eq: "appendBatch w bs t = bs @ (if relevant w t then [batch_for w t] else [])"
  by (simp add: appendBatch_def Let_def relevant_def batch_for_def)

lemma resume_backlog_eq:
  "resume_backlog w c ts bs = Inr bs' \<Longrightarrow> bs' = bs @ expected w (Resumed c) ts"
proof (induction ts arbitrary: bs)
  case (Cons t ts)
  from Cons.prems obtain a where a: "After t c = Inr a"
    "resume_backlog w c ts (if a then appendBatch w bs t else bs) = Inr bs'" by (auto simp: rbind_Inr_iff)
  show ?case using Cons.IH [OF a(2)] a(1) by (auto simp: appendBatch_eq needed_def)
qed simp

lemma snapshot_streamed_eq:
  "snapshot_streamed w s ts bs = Inr bs' \<Longrightarrow> bs' = bs @ expected w (Snapshotted s) ts"
proof (induction ts arbitrary: bs)
  case (Cons t ts)
  from Cons.prems obtain a where a: "need (Snapshotted s) t = Inr a"
    "snapshot_streamed w s ts (if a then appendBatch w bs t else bs) = Inr bs'"
    by (auto simp: rbind_Inr_iff simp del: need.simps)
  show ?case using Cons.IH [OF a(2)] a(1) by (auto simp: appendBatch_eq needed_def simp del: need.simps)
qed simp

section \<open>The pipeline\<close>

definition item_ok :: "watcher \<Rightarrow> transaction list \<Rightarrow> queued \<Rightarrow> bool" where
  "item_ok w hist item \<longleftrightarrow> relevant w (q_transaction item) \<and> q_transaction item \<in> set hist \<and>
     q_changes item = projection_changes (w_projection w) (w_scope w) (q_transaction item)"

lemma batch_of_item: "item_ok w hist item \<Longrightarrow> unshared (batch_of_queued item) = batch_for w (q_transaction item)"
  by (simp add: item_ok_def batch_of_queued_def batch_for_def unshared_def)

abbreviation queued_txns :: "watcher \<Rightarrow> transaction list" where
  "queued_txns w \<equiv> map q_transaction (w_queue w)"

text \<open>\<open>pipeline w p sent H\<close>: the batches in \<open>sent\<close>, those the goroutine holds at \<open>p\<close> and those its queue
  still gives make up, in order, what the watcher needs of \<open>H\<close>.\<close>

fun pipeline :: "watcher \<Rightarrow> pc \<Rightarrow> event list \<Rightarrow> transaction list \<Rightarrow> bool" where
  "pipeline w (SnapBegin ts) sent H = (batches sent = [] \<and> ts @ queued_txns w = filter (relevant w) H)"
| "pipeline w (SnapRead ts) sent H = (batches sent = [] \<and> ts @ queued_txns w = filter (relevant w) H)"
| "pipeline w (SnapCheck ts s) sent H = (batches sent = [] \<and> ts @ queued_txns w = filter (relevant w) H)"
| "pipeline w (SnapStale ts s) sent H = (batches sent = [] \<and> ts @ queued_txns w = filter (relevant w) H)"
| "pipeline w (SnapRecord bs s) sent H =
     (batches sent @ map unshared bs @ expected w (Snapshotted s) (queued_txns w) = expected w (Snapshotted s) H)"
| "pipeline w (SnapEnd bs s) sent H =
     (batches sent @ map unshared bs @ expected w (Snapshotted s) (queued_txns w) = expected w (Snapshotted s) H)"
| "pipeline w (Backlog bs m) sent H =
     (batches sent @ map unshared bs @ expected w m (queued_txns w) = expected w m H)"
| "pipeline w (LivePosition m first progressed) sent H =
     (batches sent @ expected w m (queued_txns w) = expected w m H)"
| "pipeline w (LiveDrain m first progressed pos rcv tk) sent H =
     (batches sent @ expected w m (queued_txns w) = expected w m H)"
| "pipeline w (LiveSend item m first progressed pos rcv tk) sent H =
     (batches sent @ unshared (batch_of_queued item) # expected w m (queued_txns w) = expected w m H)"
| "pipeline w (LiveProgress m first progressed pos rcv tk) sent H =
     (batches sent @ expected w m (queued_txns w) = expected w m H)"
| "pipeline w (LiveSelect m progressed tk) sent H =
     (batches sent @ expected w m (queued_txns w) = expected w m H)"
| "pipeline w _ sent H = True"

lemma pipeline_prefix:
  assumes "pipeline w p sent H" "mode_of p = Some m"
  shows "\<exists>rest. batches sent @ rest = expected w m H"
  using assms by (cases p) auto

text \<open>An item appended to the queue goes with its transaction appended to the history.\<close>

lemma same_view:
  assumes "w_projection v = w_projection w" "w_scope v = w_scope w"
  shows "relevant v = relevant w" "batch_for v = batch_for w" "needed v = needed w" "expected v = expected w"
    "item_ok v = item_ok w"
proof -
  show r: "relevant v = relevant w" and b: "batch_for v = batch_for w"
    by (intro ext; simp add: relevant_def batch_for_def assms)+
  show n: "needed v = needed w" by (intro ext) (simp add: needed_def r)
  show "expected v = expected w" by (intro ext) (simp add: expected_def b n)
  show "item_ok v = item_ok w" by (intro ext) (simp add: item_ok_def r assms)
qed

lemma watcher_queue_simps [simp]:
  "relevant (w\<lparr>w_queue := q\<rparr>) = relevant w" "batch_for (w\<lparr>w_queue := q\<rparr>) = batch_for w"
  "needed (w\<lparr>w_queue := q\<rparr>) = needed w" "expected (w\<lparr>w_queue := q\<rparr>) = expected w"
  "item_ok (w\<lparr>w_queue := q\<rparr>) = item_ok w"
  by (rule same_view; simp)+

lemma watcher_ended_simps [simp]:
  "relevant (ended r w) = relevant w" "batch_for (ended r w) = batch_for w"
  "needed (ended r w) = needed w" "expected (ended r w) = expected w" "item_ok (ended r w) = item_ok w"
  by (rule same_view; simp add: ended_def)+

lemma ended_fields [simp]:
  "w_queue (ended r w) = w_queue w" "w_overflow (ended r w)" "w_reason (ended r w) = Some r"
  by (simp_all add: ended_def)

lemma pipeline_ended [simp]: "pipeline (ended r w) p sent H = pipeline w p sent H"
  by (cases p) simp_all

lemma pipeline_enqueue:
  assumes "pipeline w p sent H" "relevant w (q_transaction item)"
  shows "pipeline (w\<lparr>w_queue := w_queue w @ [item]\<rparr>) p sent (H @ [q_transaction item])"
  using assms by (cases p) (auto simp flip: append_assoc append_Cons)

lemma pipeline_irrelevant:
  assumes "pipeline w p sent H" "\<not> relevant w t"
  shows "pipeline w p sent (H @ [t])"
proof -
  have "\<not> needed w m t" for m using assms(2) by (simp add: needed_def)
  then show ?thesis using assms by (cases p) simp_all
qed

text \<open>No step of the goroutine after registration loses, repeats or reorders a batch.\<close>

lemma pipeline_drain:
  assumes "pipeline (heap h w) (LiveDrain m first progressed pos rcv tk) (th_sent th) H"
    "\<forall>item \<in> set (w_queue (heap h w)). item_ok (heap h w) hist item"
    "live_drain h w th m first progressed pos rcv tk = Some (h', th')"
  shows "pipeline (heap h' w) (th_pc th') (th_sent th') H"
proof (cases "w_queue (heap h w)")
  case Nil
  then show ?thesis using assms(1,3) by (auto simp: live_drain_def at_def)
next
  case (Cons item rest)
  then have ok: "item_ok (heap h w) hist item" using assms(2) by simp
  then have "relevant (heap h w) (q_transaction item)" by (simp add: item_ok_def)
  then show ?thesis
    using assms(1,3) Cons batch_of_item [OF ok]
    by (auto simp: live_drain_def at_def needed_def Let_def split: sum.splits bool.splits)
qed

lemma pipeline_step:
  assumes "pipeline (heap h w) (th_pc th) (th_sent th) H" "registered_pc (th_pc th)"
    "\<forall>item \<in> set (w_queue (heap h w)). item_ok (heap h w) hist item"
    "thread_step parse_lsn ch h w th = Some (h', th')"
  shows "pipeline (heap h' w) (th_pc th') (th_sent th') H"
proof (cases "th_pc th")
  case (SnapStale ts s)
  show ?thesis
  proof (cases "snapshot_streamed (heap h w) s ts []")
    case (Inr bs)
    have "filter (relevant (heap h w)) H = ts @ queued_txns (heap h w)" using assms(1) SnapStale by simp
    then have "expected (heap h w) (Snapshotted s) H = expected (heap h w) (Snapshotted s) (ts @ queued_txns (heap h w))"
      using expected_relevant [of "heap h w" "Snapshotted s" H] by simp
    then show ?thesis
      using assms(1,4) SnapStale Inr snapshot_streamed_eq [OF Inr] by (auto simp: at_def Let_def split: if_splits)
  qed (use assms SnapStale in \<open>auto simp: at_def Let_def split: if_splits\<close>)
next
  case (LiveDrain m first progressed pos rcv tk)
  then show ?thesis
    using assms(1,4) pipeline_drain [OF _ assms(3), of m first progressed pos rcv tk th H h' th'] by (auto split: if_splits)
next
  case (Backlog bs m)
  then show ?thesis using assms(1,4) by (cases bs) (auto simp: at_def send_def split: if_splits choice.splits)
next
  case (LiveSelect m progressed tk)
  then show ?thesis
    using assms(1,4) by (auto simp: at_def live_select_def split: if_splits choice.splits option.splits)
next
  case (LivePosition m first progressed)
  then show ?thesis
    using assms(1,4) by (auto simp: at_def live_position_def position_def Let_def split: if_splits)
next
  case (SnapRead ts)
  then show ?thesis
    using assms(1,4) by (auto simp: at_def send_def snapshot_returned_def split: if_splits choice.splits sum.splits)
qed (use assms in \<open>auto simp: at_def send_def record_frame split: if_splits choice.splits option.splits\<close>)

end
