(* ===== verification/Watch_Inv.thy ===== *)
theory Watch_Inv
  imports Watch_Pipeline
begin

text \<open>
  The invariant of the whole system, kept by every delivery of the stream and every step of every
  watch goroutine.
\<close>

section \<open>The invariant of one watch\<close>

definition known :: "hub \<Rightarrow> transaction list \<Rightarrow> mode \<Rightarrow> cursor \<Rightarrow> bool" where
  "known h hist m pos \<longleftrightarrow> hist \<noteq> [] \<and> at_or_before pos (received h) \<or> base_safe m \<and> pos = base_of m"

fun position_ok :: "hub \<Rightarrow> transaction list \<Rightarrow> watcher \<Rightarrow> pc \<Rightarrow> bool" where
  "position_ok h hist v (LiveDrain m first progressed pos rcv tk) = (rcv \<or> base_safe m \<longrightarrow> known h hist m pos)"
| "position_ok h hist v (LiveSend item m first progressed pos rcv tk) =
     (item_ok v hist item \<and> (rcv \<or> base_safe m \<longrightarrow> known h hist m pos))"
| "position_ok h hist v (LiveProgress m first progressed pos rcv tk) =
     (rcv \<or> base_safe m \<longrightarrow> known h hist m pos \<and>
        (\<forall>item \<in> set (w_queue v). need m (q_transaction item) = Inr True \<longrightarrow>
           \<not> at_or_before (Cursor_of (q_transaction item)) pos))"
| "position_ok h hist v _ = True"

fun snapshot_src :: "string \<Rightarrow> pc \<Rightarrow> bool" where
  "snapshot_src src (SnapCheck ts s) = (cur_source (snap_cursor s) = src)"
| "snapshot_src src (SnapStale ts s) = (cur_source (snap_cursor s) = src)"
| "snapshot_src src (SnapRecord bs s) = (cur_source (snap_cursor s) = src)"
| "snapshot_src src _ = True"

definition flows :: "hub \<Rightarrow> transaction list \<Rightarrow> nat \<Rightarrow> wid \<Rightarrow> thread \<Rightarrow> bool" where
  "flows h hist st w th \<longleftrightarrow> (registered_pc (th_pc th) \<longrightarrow>
     (\<exists>k. st \<le> k \<and> k \<le> length hist \<and> (w \<in> set (watchers h) \<longrightarrow> k = length hist) \<and>
        pipeline (heap h w) (th_pc th) (th_sent th) (drop st (take k hist))))"

definition resumes_ok :: "transaction list \<Rightarrow> nat \<Rightarrow> pc \<Rightarrow> bool" where
  "resumes_ok hist st p \<longleftrightarrow> (\<forall>c. mode_of p = Some (Resumed c) \<longrightarrow>
     st \<le> length hist \<and> (\<forall>t \<in> set (take st hist). After t c = Inr False))"

definition watch_ok :: "string \<Rightarrow> hub \<Rightarrow> transaction list \<Rightarrow> nat \<Rightarrow> wid \<Rightarrow> thread \<Rightarrow> bool" where
  "watch_ok src h hist st w th \<longleftrightarrow> phase_ok h w (th_pc th) \<and>
     (registered_pc (th_pc th) \<longrightarrow> (\<forall>item \<in> set (w_queue (heap h w)). item_ok (heap h w) hist item)) \<and>
     flows h hist st w th \<and> position_ok h hist (heap h w) (th_pc th) \<and> snapshot_src src (th_pc th) \<and>
     resumes_ok hist st (th_pc th)"

lemma watch_okI:
  assumes "phase_ok h w (th_pc th)"
    "registered_pc (th_pc th) \<Longrightarrow> \<forall>item \<in> set (w_queue (heap h w)). item_ok (heap h w) hist item"
    "flows h hist st w th" "position_ok h hist (heap h w) (th_pc th)" "snapshot_src src (th_pc th)" "resumes_ok hist st (th_pc th)"
  shows "watch_ok src h hist st w th"
  using assms by (simp add: watch_ok_def)

lemma watch_okD:
  assumes "watch_ok src h hist st w th"
  shows "phase_ok h w (th_pc th)"
    "registered_pc (th_pc th) \<Longrightarrow> \<forall>item \<in> set (w_queue (heap h w)). item_ok (heap h w) hist item"
    "flows h hist st w th" "position_ok h hist (heap h w) (th_pc th)" "snapshot_src src (th_pc th)" "resumes_ok hist st (th_pc th)"
  using assms by (simp_all add: watch_ok_def)

lemma known_cong: "received h' = received h \<Longrightarrow> known h' = known h"
  by (intro ext) (simp add: known_def)

lemma watch_ok_cong:
  assumes "watch_ok src h hist st w th" "heap h' w = heap h w" "w \<in> set (watchers h') \<longleftrightarrow> w \<in> set (watchers h)"
    "received h' = received h"
  shows "watch_ok src h' hist st w th"
proof -
  have "position_ok h' hist (heap h' w) (th_pc th)"
    using watch_okD(4) [OF assms(1)] assms(2,4) by (cases "th_pc th") (simp_all add: known_cong [OF assms(4)])
  then show ?thesis using assms by (simp add: watch_ok_def phase_ok_def flows_def)
qed

section \<open>A delivery\<close>

lemma wal_last:
  assumes "wal_ordered src (hist @ [t])" "u \<in> set hist"
  shows "cur_source (Cursor_of u) = cur_source (Cursor_of t)" "cur_lsn (Cursor_of u) < cur_lsn (Cursor_of t)"
  using wal_ordered_before [of src hist t "[]"] assms by (simp_all add: at_or_before_def)

lemma known_not_passed:
  assumes "known h hist m pos" "window_ok src hist h" "wal_ordered src (hist @ [t])" "need m t = Inr True"
  shows "\<not> at_or_before (Cursor_of t) pos"
proof (cases "hist \<noteq> [] \<and> at_or_before pos (received h)")
  case True
  then have "received h = Cursor_of (last hist)" using assms(2) by (simp add: window_ok_def window_core_def)
  then show ?thesis
    using True wal_last [OF assms(3), of "last hist"] by (auto simp: at_or_before_def)
next
  case False
  then have b: "base_safe m" "pos = base_of m" using assms(1) by (auto simp: known_def)
  then obtain c where m: "m = Resumed c" by (cases m) auto
  have "commitLSN t < cur_lsn (Cursor_of t)" using assms(3) by (simp add: wal_ordered_def)
  then show ?thesis using m b assms(4) by (auto simp: After_def at_or_before_def split: if_splits)
qed

lemma known_advance:
  assumes "known h hist m pos" "hub_ok h" "window_ok src hist h" "wal_ordered src (hist @ [t])"
  shows "known (accept_new h t) (hist @ [t]) m pos"
proof (cases "hist \<noteq> [] \<and> at_or_before pos (received h)")
  case True
  then have "received h = Cursor_of (last hist)" using assms(3) by (simp add: window_ok_def window_core_def)
  then have "at_or_before (received h) (Cursor_of t)"
    using True wal_last [OF assms(4), of "last hist"] by (simp add: at_or_before_def)
  then show ?thesis
    using True accept_new_received [OF assms(2), of t] by (auto simp: known_def intro: at_or_before_trans)
qed (use assms(1) in \<open>auto simp: known_def\<close>)

lemma item_ok_mono: "item_ok v hist item \<Longrightarrow> item_ok v (hist @ [t]) item"
  by (simp add: item_ok_def)

text \<open>What \<open>accept_new\<close> does to one watcher, as far as the invariant sees it.\<close>

lemma outcome_cases:
  assumes "accept_outcome cap t v v' kept"
  obtains (ended) r where "v' = ended r v" "\<not> kept"
  | (skipped) "v' = v" "kept" "\<not> relevant v t"
  | (queued) item where "v' = v\<lparr>w_queue := w_queue v @ [item]\<rparr>" "kept" "relevant v t" "q_transaction item = t"
      "q_changes item = projection_changes (w_projection v) (w_scope v) t"
  using assms by (auto simp: accept_outcome_def Let_def relevant_def sent_to_def split: if_splits)

lemma position_ok_deliver:
  assumes "position_ok h hist v p" "hub_ok h" "window_ok src hist h" "wal_ordered src (hist @ [t])"
    "v' = ended r v \<or> v' = v \<or> v' = v\<lparr>w_queue := w_queue v @ [item]\<rparr> \<and> q_transaction item = t"
  shows "position_ok (accept_new h t) (hist @ [t]) v' p"
proof -
  note adv = known_advance [OF _ assms(2,3,4)] and new = known_not_passed [OF _ assms(3,4)]
  have io: "item_ok v' (hist @ [t]) it" if "item_ok v hist it" for it
    using assms(5) item_ok_mono [OF that] by auto
  have q: "need m (q_transaction it) = Inr True \<longrightarrow> \<not> at_or_before (Cursor_of (q_transaction it)) pos"
    if k: "known h hist m pos" and it: "it \<in> set (w_queue v')"
      and old: "\<forall>it \<in> set (w_queue v). need m (q_transaction it) = Inr True \<longrightarrow>
        \<not> at_or_before (Cursor_of (q_transaction it)) pos" for m pos it
    using assms(5) it old new [OF k] by auto
  show ?thesis using assms(1) by (cases p) (auto simp: adv intro: io dest: q)
qed

lemma take_append_le: "k \<le> length xs \<Longrightarrow> take k (xs @ ys) = take k xs"
  by simp

lemma watch_ok_deliver:
  assumes "watch_ok src h hist st w th" "hub_ok h" "window_ok src hist h" "wal_ordered src (hist @ [t])"
  shows "watch_ok src (accept_new h t) (hist @ [t]) st w th"
proof (cases "w \<in> set (watchers h)")
  case False
  note f = accept_new_outcome(3) [OF assms(2) False, of t]
  show ?thesis
  proof (rule watch_okI)
    show "phase_ok (accept_new h t) w (th_pc th)" using watch_okD(1) [OF assms(1)] f False by (simp add: phase_ok_def)
    show "flows (accept_new h t) (hist @ [t]) st w th"
    proof (unfold flows_def, intro impI)
      assume "registered_pc (th_pc th)"
      then obtain k where "st \<le> k" "k \<le> length hist" "pipeline (heap h w) (th_pc th) (th_sent th) (drop st (take k hist))"
        using watch_okD(3) [OF assms(1)] by (auto simp: flows_def)
      then show "\<exists>k\<ge>st. k \<le> length (hist @ [t]) \<and> (w \<in> set (watchers (accept_new h t)) \<longrightarrow> k = length (hist @ [t])) \<and>
        pipeline (heap (accept_new h t) w) (th_pc th) (th_sent th) (drop st (take k (hist @ [t])))"
        using f by (intro exI [of _ k]) simp
    qed
    show "position_ok (accept_new h t) (hist @ [t]) (heap (accept_new h t) w) (th_pc th)"
      by (rule position_ok_deliver [OF watch_okD(4) [OF assms(1)] assms(2,3,4)]) (simp add: f)
    show "resumes_ok (hist @ [t]) st (th_pc th)"
      using watch_okD(6) [OF assms(1)] by (auto simp: resumes_ok_def)
  qed (use watch_okD(2,5) [OF assms(1)] f in \<open>simp_all add: item_ok_mono\<close>)
next
  case True
  let ?h = "accept_new h t"
  have reg: "registered_pc (th_pc th)" using watch_okD(1) [OF assms(1)] True by (simp add: phase_ok_def)
  have pl: "st \<le> length hist" "pipeline (heap h w) (th_pc th) (th_sent th) (drop st hist)"
    using watch_okD(3) [OF assms(1)] True reg by (auto simp: flows_def)
  note items = watch_okD(2) [OF assms(1) reg]
  note out = accept_new_outcome(2) [OF assms(2) True, of t]
  have pos: "position_ok ?h (hist @ [t]) (heap ?h w) (th_pc th)"
    using out by (cases rule: outcome_cases; intro position_ok_deliver [OF watch_okD(4) [OF assms(1)] assms(2,3,4)]; blast)
  have res: "resumes_ok (hist @ [t]) st (th_pc th)" using watch_okD(6) [OF assms(1)] by (auto simp: resumes_ok_def)
  have ph: "\<not> fresh_pc (th_pc th)" using reg by (cases "th_pc th") simp_all
  have "phase_ok ?h w (th_pc th) \<and> (\<forall>item \<in> set (w_queue (heap ?h w)). item_ok (heap ?h w) (hist @ [t]) item) \<and>
      flows ?h (hist @ [t]) st w th"
    using out
  proof (cases rule: outcome_cases)
    case (ended r)
    have "\<exists>k\<ge>st. k \<le> length (hist @ [t]) \<and> pipeline (heap ?h w) (th_pc th) (th_sent th) (drop st (take k (hist @ [t])))"
      using pl ended by (intro exI [of _ "length hist"]) simp
    then have "flows ?h (hist @ [t]) st w th" using ended(2) by (simp add: flows_def)
    then show ?thesis using reg ph ended items by (simp add: phase_ok_def item_ok_mono)
  next
    case skipped
    have "flows ?h (hist @ [t]) st w th"
      unfolding flows_def
      using pipeline_irrelevant [OF pl(2) skipped(3)] skipped(1) pl(1) by (intro impI exI [of _ "length (hist @ [t])"]) simp
    then show ?thesis using reg ph skipped items by (simp add: phase_ok_def item_ok_mono)
  next
    case (queued item)
    have "item_ok (heap ?h w) (hist @ [t]) item" using queued by (simp add: item_ok_def)
    moreover have "flows ?h (hist @ [t]) st w th"
      unfolding flows_def
      using pipeline_enqueue [OF pl(2), of item] queued pl(1) by (intro impI exI [of _ "length (hist @ [t])"]) simp
    ultimately show ?thesis using reg ph queued items by (simp add: phase_ok_def item_ok_mono)
  qed
  then show ?thesis using pos res watch_okD(5) [OF assms(1)] by (intro watch_okI) simp_all
qed

end
