(* ===== verification/Watch_Steps.thy ===== *)
theory Watch_Steps
  imports Watch_Inv
begin

text \<open>
  The steps of a watch goroutine keep the invariant, so it holds in every reachable state.
\<close>

section \<open>A step of a registered watch\<close>

definition shrunk :: "watcher \<Rightarrow> watcher \<Rightarrow> bool" where
  "shrunk v v' \<longleftrightarrow> (\<exists>q. v' = v\<lparr>w_queue := q\<rparr> \<and> set q \<subseteq> set (w_queue v))"

lemma shrunk_refl: "shrunk v v"
  unfolding shrunk_def by (rule exI [of _ "w_queue v"]) simp

lemma shrunk_tl: "shrunk v (v\<lparr>w_queue := tl (w_queue v)\<rparr>)"
  unfolding shrunk_def by (rule exI [of _ "tl (w_queue v)"]) (cases "w_queue v"; auto)

lemma registered_step_heap:
  assumes "registered_pc (th_pc th)" "hub_ok h" "thread_step parse_lsn ch h w th = Some (h', th')"
  shows "shrunk (heap h w) (heap h' w)"
    and "w \<in> set (watchers h') \<Longrightarrow> w \<in> set (watchers h)"
proof -
  have "shrunk (heap h w) (heap h' w) \<and> (w \<in> set (watchers h') \<longrightarrow> w \<in> set (watchers h))"
  proof (cases "th_pc th")
    case (LiveDrain m first progressed pos rcv tk)
    then show ?thesis
      using assms(3) shrunk_refl [of "heap h w"] shrunk_tl [of "heap h w"]
      by (cases "w_queue (heap h w)") (auto simp: live_drain_def at_def Let_def split: if_splits sum.splits bool.splits)
  next
    case (Leaving r)
    then show ?thesis
      using assms(3) unregister_spec(2,3) [OF assms(2), of w] by (auto simp: at_def shrunk_refl split: if_splits)
  next
    case (Backlog bs m)
    then show ?thesis
      using assms(3) by (cases bs) (auto simp: at_def send_def shrunk_refl split: if_splits choice.splits)
  qed (use assms(1,3) in \<open>auto simp: at_def send_def snapshot_returned_def live_position_def position_def live_select_def Let_def
        record_frame shrunk_refl split: if_splits choice.splits option.splits sum.splits\<close>)
  then show "shrunk (heap h w) (heap h' w)" "w \<in> set (watchers h') \<Longrightarrow> w \<in> set (watchers h)" by simp_all
qed

lemma known_passed:
  assumes "known h hist m pos" "window_ok src hist h" "item_ok v hist item"
  shows "known h hist m (passed item pos)"
proof (cases "later (Cursor_of (q_transaction item)) pos")
  case True
  have t: "q_transaction item \<in> set hist" using assms(3) by (simp add: item_ok_def)
  then have ne: "hist \<noteq> []" by auto
  have wal: "wal_ordered src hist" and r: "received h = Cursor_of (last hist)"
    using assms(2) ne by (simp_all add: window_ok_def window_core_def)
  have "at_or_before (Cursor_of (q_transaction item)) (Cursor_of (last hist))"
  proof (cases "q_transaction item = last hist")
    case False
    have e: "hist = butlast hist @ [last hist]" using ne by simp
    then have "q_transaction item \<in> set (butlast hist)" using t False by (metis in_set_butlastD in_set_conv_nth nth_butlast
        append_butlast_last_id rotate1.simps(2) set_ConsD set_rotate1)
    then show ?thesis using wal_ordered_before [of src "butlast hist" "last hist" "[]"] wal e by simp
  qed simp
  then show ?thesis using True ne r by (simp add: known_def passed_def)
qed (use assms(1) in \<open>simp add: passed_def\<close>)

lemma known_position:
  assumes "window_ok src hist h"
    and "pos = (if \<not> hasReceived h \<or> base_safe m \<and> later (base_of m) (received h) then base_of m else received h)"
    and "hasReceived h \<or> base_safe m"
  shows "known h hist m pos"
  using assms by (auto simp: known_def window_ok_def window_core_def)

lemma position_ok_step:
  assumes "position_ok h hist (heap h w) (th_pc th)" "window_ok src hist h"
    "\<forall>item \<in> set (w_queue (heap h w)). item_ok (heap h w) hist item"
    "registered_pc (th_pc th)" "thread_step parse_lsn ch h w th = Some (h', th')"
  shows "position_ok h' hist (heap h' w) (th_pc th')"
proof (cases "th_pc th")
  case (LiveDrain m first progressed pos rcv tk)
  have k: "rcv \<or> base_safe m \<Longrightarrow> known h hist m pos" using assms(1) LiveDrain by simp
  show ?thesis
  proof (cases "w_queue (heap h w)")
    case Nil
    then show ?thesis using assms(5) LiveDrain k by (auto simp: live_drain_def at_def split: if_splits)
  next
    case (Cons item rest)
    then have ok: "item_ok (heap h w) hist item" using assms(3) by simp
    have k': "rcv \<or> base_safe m \<Longrightarrow> known h hist m (passed item pos)" using k known_passed [OF _ assms(2) ok] by blast
    have r: "known (h\<lparr>heap := f\<rparr>) = known h" for f by (rule known_cong) simp
    show ?thesis
      using assms(5) LiveDrain Cons ok k k' r
      by (auto simp: live_drain_def at_def Let_def split: if_splits sum.splits bool.splits)
  qed
next
  case (LiveSend item m first progressed pos rcv tk)
  then show ?thesis
    using assms(1,5) known_passed [OF _ assms(2), of m pos "heap h w" item] by (auto simp: send_def at_def split: choice.splits)
next
  case (LivePosition m first progressed)
  have r: "known (h\<lparr>tickTaken := True\<rparr>) = known h" by (rule known_cong) simp
  show ?thesis
    using assms(5) LivePosition known_position [OF assms(2) refl, of m] r
    by (auto simp: live_position_def position_def at_def Let_def split: if_splits)
next
  case (Backlog bs m)
  then show ?thesis using assms(5) by (cases bs) (auto simp: at_def send_def split: if_splits choice.splits)
qed (use assms(4,5) in \<open>auto simp: at_def send_def live_select_def snapshot_returned_def Let_def
      split: if_splits choice.splits option.splits sum.splits\<close>)

lemma snapshot_src_step:
  assumes "snapshot_src src (th_pc th)" "thread_step parse_lsn ch h w th = Some (h', th')"
    "\<And>s. ch = SnapshotReturns (Inr s) \<Longrightarrow> cur_source (snap_cursor s) = src"
  shows "snapshot_src src (th_pc th')"
  using assms by (cases "th_pc th") (auto simp: step_defs split: step_cases)

lemma mode_of_step:
  assumes "registered_pc (th_pc th)" "thread_step parse_lsn ch h w th = Some (h', th')" "mode_of (th_pc th') = Some (Resumed c)"
  shows "mode_of (th_pc th) = Some (Resumed c)"
  using assms by (cases "th_pc th") (auto simp: step_defs split: step_cases)

lemma watch_ok_registered:
  assumes "watch_ok src h hist st w th" "registered_pc (th_pc th)" "hub_ok h" "window_ok src hist h"
    "thread_step parse_lsn ch h w th = Some (h', th')"
    "\<And>s. ch = SnapshotReturns (Inr s) \<Longrightarrow> cur_source (snap_cursor s) = src"
  shows "watch_ok src h' hist st w th'"
proof (rule watch_okI)
  note items = watch_okD(2) [OF assms(1,2)] and hp = registered_step_heap [OF assms(2,3,5)]
  show "phase_ok h' w (th_pc th')" by (rule thread_step_phase [OF assms(3) watch_okD(1) [OF assms(1)] assms(5)])
  show "\<forall>item \<in> set (w_queue (heap h' w)). item_ok (heap h' w) hist item" using items hp(1) by (auto simp: shrunk_def)
  show "flows h' hist st w th'"
    using watch_okD(3) [OF assms(1)] assms(2) pipeline_step [OF _ assms(2) items assms(5)] hp(2)
    unfolding flows_def by blast
  show "position_ok h' hist (heap h' w) (th_pc th')"
    by (rule position_ok_step [OF watch_okD(4) [OF assms(1)] assms(4) items assms(2,5)])
  show "snapshot_src src (th_pc th')"
    by (rule snapshot_src_step [OF watch_okD(5) [OF assms(1)] assms(5,6)])
  show "resumes_ok hist st (th_pc th')"
    using watch_okD(6) [OF assms(1)] mode_of_step [OF assms(2,5)] by (auto simp: resumes_ok_def)
qed

section \<open>A step that registers\<close>

lemma ring_is_suffix:
  assumes "window_ok src hist h"
  shows "drop (length hist - length (ring h)) hist = ring h"
  using assms by (auto simp: window_ok_def window_core_def)

lemma evicted_not_after:
  assumes "window_ok src hist h" "replayableLocked h c" "t \<in> set (take (length hist - length (ring h)) hist)"
  shows "After t c = Inr False"
proof -
  obtain ev where ev: "hist = ev @ ring h" "evicted_below h ev" and wal: "wal_ordered src hist"
    using assms(1) by (auto simp: window_ok_def window_core_def)
  have f: "hasFloor h" "at_or_before (floorCursor h) c" using assms(2) by (simp_all add: replayableLocked_iff)
  have t: "t \<in> set ev" using assms(3) ev(1) by simp
  then show ?thesis
    using before_floor_not_after [OF _ f(2)] ev f(1) wal_orderedD(2) [OF wal] by (simp add: evicted_below_def)
qed

lemma watch_ok_fresh:
  assumes "watch_ok src h hist st w th" "fresh_pc (th_pc th)" "hub_ok h" "window_ok src hist h"
    "phase_ok (registerLocked h w) w p"
    "pipeline (heap h w) p (th_sent th) (ring h)"
    "position_ok (registerLocked h w) hist (heap h w) p" "snapshot_src src p" "registered_pc p"
    "\<And>c. mode_of p = Some (Resumed c) \<Longrightarrow> replayableLocked h c"
  shows "watch_ok src (registerLocked h w) hist (length hist - length (ring h)) w (th\<lparr>th_pc := p\<rparr>)"
proof (rule watch_okI)
  note heap = register_heap [OF assms(3), of w]
  have q: "w_queue (heap h w) = []" using watch_okD(1) [OF assms(1)] assms(2) by (simp add: phase_ok_def)
  show "\<forall>item \<in> set (w_queue (heap (registerLocked h w) w)). item_ok (heap (registerLocked h w) w) hist item"
    using heap q by simp
  show "flows (registerLocked h w) hist (length hist - length (ring h)) w (th\<lparr>th_pc := p\<rparr>)"
    unfolding flows_def using assms(6) ring_is_suffix [OF assms(4)] heap
    by (intro impI exI [of _ "length hist"]) simp
  show "resumes_ok hist (length hist - length (ring h)) (th_pc (th\<lparr>th_pc := p\<rparr>))"
    using evicted_not_after [OF assms(4) assms(10)] by (simp add: resumes_ok_def)
qed (use assms register_heap [OF assms(3), of w] in simp_all)

lemma watch_ok_unregistered:
  assumes "phase_ok h w (th_pc th)" "\<not> registered_pc (th_pc th)"
  shows "watch_ok src h hist st w th"
  using assms by (intro watch_okI) (cases "th_pc th"; simp add: flows_def resumes_ok_def)+

text \<open>The start of a watch in the history is set by the step that registers it.\<close>

definition start_of :: "hub \<Rightarrow> hub \<Rightarrow> transaction list \<Rightarrow> nat \<Rightarrow> wid \<Rightarrow> nat" where
  "start_of h h' hist st w =
     (if w \<notin> set (watchers h) \<and> w \<in> set (watchers h') then length hist - length (ring h') else st)"

lemma unregistered_step:
  assumes "\<not> registered_pc (th_pc th)" "thread_step parse_lsn ch h w th = Some (h', th')" "registered_pc (th_pc th')"
  shows "(\<exists>c bs. th_pc th = Resuming c \<and> replayableLocked h c \<and> resume_backlog (heap h w) c (ring h) [] = Inr bs \<and>
      h' = registerLocked h w \<and> th' = th\<lparr>th_pc := Backlog bs (Resumed c)\<rparr>) \<or>
    th_pc th = Snapshotting \<and> h' = registerLocked h w \<and>
      th' = th\<lparr>th_pc := SnapBegin (filter (relevant (heap h w)) (ring h))\<rparr>"
proof (cases "th_pc th")
  case (Called req)
  then show ?thesis
    using assms(2,3) by (auto simp: start_watch_def at_def Let_def split: if_splits option.splits sum.splits)
next
  case (Resuming c)
  then show ?thesis
    using assms(2,3) by (auto simp: resume_locked_def at_def split: if_splits sum.splits)
qed (use assms in \<open>auto simp: send_def snapshot_locked_def at_def split: if_splits choice.splits\<close>)

section \<open>Any step\<close>

text \<open>Nothing is sent before registration.\<close>

definition silent :: "thread \<Rightarrow> bool" where
  "silent th \<longleftrightarrow> (th_pc th = Idle \<or> (\<exists>req. th_pc th = Called req) \<or> fresh_pc (th_pc th) \<longrightarrow> th_sent th = [])"

lemma silent_step:
  assumes "silent th" "thread_step parse_lsn ch h w th = Some (h', th')"
  shows "silent th'"
proof (cases "registered_pc (th_pc th)")
  case True
  have "(registered_pc (th_pc th') \<or> (\<exists>r. th_pc th' = Done r)) \<and> \<not> fresh_pc (th_pc th')"
    using assms(2) True by (cases "th_pc th") (auto simp: step_defs split: step_cases)
  then show ?thesis by (auto simp: silent_def)
next
  case False
  then show ?thesis
    using assms by (cases "th_pc th") (auto simp: silent_def step_defs split: step_cases)
qed

lemma watch_ok_step:
  assumes "watch_ok src h hist st w th" "silent th" "hub_ok h" "window_ok src hist h"
    "thread_step parse_lsn ch h w th = Some (h', th')"
    "\<And>s. ch = SnapshotReturns (Inr s) \<Longrightarrow> cur_source (snap_cursor s) = src"
  shows "watch_ok src h' hist (start_of h h' hist st w) w th'"
proof (cases "registered_pc (th_pc th)")
  case True
  then show ?thesis
    using watch_ok_registered [OF assms(1) True assms(3-6)] registered_step_heap(2) [OF True assms(3,5)]
    by (auto simp: start_of_def)
next
  case unreg: False
  note ph = thread_step_phase [OF assms(3) watch_okD(1) [OF assms(1)] assms(5)]
  show ?thesis
  proof (cases "registered_pc (th_pc th')")
    case True
    have new: "w \<notin> set (watchers h)" using unreg watch_okD(1) [OF assms(1)] by (simp add: phase_ok_def)
    have reg: "h' = registerLocked h w" and fresh: "fresh_pc (th_pc th)"
      using unregistered_step [OF unreg assms(5) True] by auto
    have st: "start_of h h' hist st w = length hist - length (ring h)"
      using new register_set [OF assms(3), of w] register_stream [OF assms(3), of w] by (simp add: start_of_def reg same_stream_def)
    have q: "w_queue (heap h w) = []" "th_sent th = []"
      using watch_okD(1) [OF assms(1)] assms(2) fresh by (simp_all add: phase_ok_def silent_def)
    show ?thesis
      using unregistered_step [OF unreg assms(5) True]
    proof (elim disjE exE conjE)
      fix c bs
      assume r: "replayableLocked h c" "resume_backlog (heap h w) c (ring h) [] = Inr bs" "th' = th\<lparr>th_pc := Backlog bs (Resumed c)\<rparr>"
      show ?thesis
        unfolding st unfolding reg r(3)
        by (rule watch_ok_fresh [OF assms(1) fresh assms(3,4)])
           (use ph r reg q resume_backlog_eq [OF r(2)] in simp_all)
    next
      assume r: "th' = th\<lparr>th_pc := SnapBegin (filter (relevant (heap h w)) (ring h))\<rparr>"
      show ?thesis
        unfolding st unfolding reg r
        by (rule watch_ok_fresh [OF assms(1) fresh assms(3,4)]) (use ph r reg q in simp_all)
    qed
  next
    case False
    then show ?thesis by (rule watch_ok_unregistered [OF ph])
  qed
qed

section \<open>The hub's window\<close>

lemma window_ok_cong:
  assumes "window_ok src hist h" "same_stream h h'" "hasEvicted h' = hasEvicted h" "lastEvicted h' = lastEvicted h"
    "hasFloor h' = hasFloor h" "floorCursor h' = floorCursor h"
  shows "window_ok src hist h'"
  using assms by (simp add: window_ok_def window_core_def same_stream_def evicted_below_def)

lemma window_step:
  assumes "window_ok src hist h" "hub_ok h" "snapshot_src src (th_pc th)" "thread_step parse_lsn ch h w th = Some (h', th')"
  shows "window_ok src hist h'"
proof (cases "\<exists>bs s. th_pc th = SnapRecord bs s")
  case True
  then show ?thesis
    using assms(3,4) recordSnapshotLocked_window [OF assms(1)] by (auto simp: at_def split: if_splits)
next
  case False
  have "hasEvicted h' = hasEvicted h \<and> lastEvicted h' = lastEvicted h \<and> hasFloor h' = hasFloor h \<and> floorCursor h' = floorCursor h"
    using assms(4) False registerLocked_spec(5) [OF hub_okD(1) [OF assms(2)], of w] unregister_spec(4) [OF assms(2), of w]
    by (cases "th_pc th") (auto simp: step_defs same_core_simps split: step_cases)
  then show ?thesis using window_ok_cong [OF assms(1) thread_step_frame(1) [OF assms(2,4)]] by blast
qed

end
