(* ===== verification/Watch_Correct.thy ===== *)
theory Watch_Correct
  imports Watch_Steps
begin

text \<open>
  What every interleaving of the stream with the watch goroutines guarantees: the batches of a watch,
  the positions it reports, and the two places where the code reports more than it knows.
\<close>

section \<open>Reachable states\<close>

definition sys_ok :: "string \<Rightarrow> sys \<Rightarrow> bool" where
  "sys_ok src s \<longleftrightarrow> hub_ok (s_hub s) \<and> window_ok src (s_hist s) (s_hub s) \<and> sourceID (s_hub s) = src \<and>
     (\<forall>w. watch_ok src (s_hub s) (s_hist s) (s_start s w) w (s_threads s w) \<and> silent (s_threads s w))"

lemma Accept_cases:
  assumes "Accept h t = Inr h'" "hub_ok h"
  shows "if \<not> hasReceived h \<or> later (Cursor_of t) (received h) then h' = accept_new h t else h' = h"
  using assms by (auto simp: Accept_def later_def Compare_def split: if_splits)

lemma sys_ok_deliver:
  assumes "sys_ok src s" "allowed (Deliver t) s" "exec parse_lsn (Deliver t) s = Some s'"
  shows "sys_ok src s'"
proof (cases "Accept (s_hub s) t")
  case (Inl e)
  then show ?thesis using assms(1,3) by simp
next
  case (Inr h)
  have ok: "hub_ok (s_hub s)" "window_ok src (s_hist s) (s_hub s)" "sourceID (s_hub s) = src"
    using assms(1) by (simp_all add: sys_ok_def)
  show ?thesis
  proof (cases "\<not> hasReceived (s_hub s) \<or> later (Cursor_of t) (received (s_hub s))")
    case True
    then have h: "h = accept_new (s_hub s) t" using Accept_cases [OF Inr ok(1)] by simp
    then have s': "s' = s\<lparr>s_hub := accept_new (s_hub s) t, s_hist := s_hist s @ [t]\<rparr>" using assms(3) Inr True by simp
    have "\<not> hasReceived (s_hub s) \<or> \<not> at_or_before (Cursor_of t) (received (s_hub s))"
      using True by (auto simp: later_iff at_or_before_def)
    then have a: "cur_source (Cursor_of t) = src" "commitLSN t < cur_lsn (Cursor_of t)"
      "\<forall>u \<in> set (s_hist s). cur_lsn (Cursor_of u) \<le> commitLSN t"
      using assms(2) ok(3) by (auto simp: at_or_before_def list_all_iff)
    have "wal_ordered src (s_hist s)" using ok(2) by (simp add: window_ok_def window_core_def)
    with a have wal: "wal_ordered src (s_hist s @ [t])" by (simp add: wal_ordered_append) (simp add: wal_ordered_def)
    have "sourceID (accept_new (s_hub s) t) = src"
      using accept_new_outcome(4) [OF ok(1), of t] ok(3)
        invalidate_all_spec [OF advance_ok [OF ok(1)], of t "Incompatible t" "Cursor_of t"]
      by (simp add: same_core_simps same_window_def advance_frame)
    then show ?thesis
      unfolding s' using assms(1) accept_new_outcome(1) [OF ok(1)] accept_new_window(1) [OF ok(1,2) wal]
        watch_ok_deliver [OF _ ok(1,2) wal] by (simp add: sys_ok_def)
  next
    case False
    then show ?thesis using assms(1,3) Inr Accept_cases [OF Inr ok(1)] by simp
  qed
qed

lemma sys_ok_step:
  assumes "sys_ok src s" "allowed (Step w ch) s" "exec parse_lsn (Step w ch) s = Some s'"
  shows "sys_ok src s'"
proof -
  let ?h = "s_hub s"
  obtain h th where st: "thread_step parse_lsn ch ?h w (s_threads s w) = Some (h, th)"
    using assms(3) by (auto split: option.splits)
  have s': "s_hub s' = h" "s_threads s' = (s_threads s)(w := th)" "s_hist s' = s_hist s"
    "s_start s' x = (if x = w then start_of ?h h (s_hist s) (s_start s w) w else s_start s x)" for x
    using assms(3) st by (auto simp: start_of_def)
  have ok: "hub_ok ?h" "window_ok src (s_hist s) ?h" "sourceID ?h = src"
    "watch_ok src ?h (s_hist s) (s_start s x) x (s_threads s x)" "silent (s_threads s x)" for x
    using assms(1) by (simp_all add: sys_ok_def)
  have src: "ch = SnapshotReturns (Inr snap) \<Longrightarrow> cur_source (snap_cursor snap) = src" for snap
    using assms(2) ok(3) by auto
  note fr = thread_step_frame [OF ok(1) st]
  have "watch_ok src h (s_hist s) (s_start s' x) x (s_threads s' x) \<and> silent (s_threads s' x)" for x
  proof (cases "x = w")
    case True
    then show ?thesis using watch_ok_step [OF ok(4,5,1,2) st src] silent_step [OF ok(5) st] s' by simp
  next
    case False
    then show ?thesis
      using watch_ok_cong [OF ok(4) [of x] fr(2) fr(3)] fr(1) ok(5) s' by (simp add: same_stream_def)
  qed
  moreover have "window_ok src (s_hist s) h" by (rule window_step [OF ok(2,1) watch_okD(5) [OF ok(4)] st])
  moreover have "hub_ok h" by (rule thread_step_ok [OF ok(1) watch_okD(1) [OF ok(4)] st])
  ultimately show ?thesis using fr(1) ok(3) s' by (simp add: sys_ok_def same_stream_def)
qed

lemma sys_ok_exec:
  assumes "sys_ok src s" "allowed a s" "exec parse_lsn a s = Some s'"
  shows "sys_ok src s'"
proof (cases a)
  case (Deliver t)
  then show ?thesis using sys_ok_deliver assms by blast
next
  case (Step w ch)
  then show ?thesis using sys_ok_step assms by blast
next
  case (Call w req)
  then have pc: "th_pc (s_threads s w) = Idle" and
    s': "s' = s\<lparr>s_threads := (s_threads s)(w := (s_threads s w)\<lparr>th_pc := Called req\<rparr>)\<rparr>"
    using assms(3) by (simp_all split: if_splits)
  have w: "watch_ok src (s_hub s) (s_hist s) (s_start s w) w (s_threads s w)" "silent (s_threads s w)"
    using assms(1) by (simp_all add: sys_ok_def)
  then have "watch_ok src (s_hub s) (s_hist s) (s_start s w) w ((s_threads s w)\<lparr>th_pc := Called req\<rparr>)"
    using pc watch_okD(1) [OF w(1)] by (intro watch_ok_unregistered) (simp_all add: phase_ok_def)
  moreover have "silent ((s_threads s w)\<lparr>th_pc := Called req\<rparr>)" using w(2) pc by (simp add: silent_def)
  ultimately show ?thesis using assms(1) s' by (simp add: sys_ok_def)
next
  case StopHub
  then have s': "s' = s\<lparr>s_hub := (s_hub s)\<lparr>stopped := True\<rparr>\<rparr>" using assms(3) by (simp add: Stop_def)
  have "watch_ok src ((s_hub s)\<lparr>stopped := True\<rparr>) (s_hist s) (s_start s w) w (s_threads s w)" for w
    using assms(1) watch_ok_cong [of src "s_hub s" "s_hist s" "s_start s w" w "s_threads s w" "(s_hub s)\<lparr>stopped := True\<rparr>"]
    by (simp add: sys_ok_def)
  moreover have "window_ok src (s_hist s) ((s_hub s)\<lparr>stopped := True\<rparr>)"
    using assms(1) by (auto simp: sys_ok_def same_stream_def intro: window_ok_cong)
  ultimately show ?thesis using assms(1) s' by (simp add: sys_ok_def)
qed

lemma sys_ok_start:
  assumes "hub_ok h" "window_ok (sourceID h) [] h" "watchers h = []"
  shows "sys_ok (sourceID h) (start_sys h)"
proof -
  have "watch_ok (sourceID h) h [] 0 w idle_thread" for w
    by (rule watch_ok_unregistered) (simp_all add: phase_ok_def idle_thread_def assms(3))
  then show ?thesis using assms(1,2) by (simp add: sys_ok_def start_sys_def silent_def idle_thread_def)
qed

lemma reachable_ok:
  assumes "New cfg b = Inr h" "reachable parse_lsn h s"
  shows "sys_ok (sourceID h) s"
  using assms(2)
proof (induction rule: reachable.induct)
  case reach_init
  show ?case using New_ok [OF assms(1)] by (intro sys_ok_start)
next
  case (reach_step s a s')
  then show ?case using sys_ok_exec by blast
qed

end
