(* ===== verification/Watch_Order.thy ===== *)
theory Watch_Order
  imports Watch_Correct Watch_Events
begin

text \<open>
  The order of a watch's event stream: its batches, its reports of progress, and each against the other.
\<close>

section \<open>Ordered streams\<close>

text \<open>The first report of a stream that opened with a snapshot. Before the hub has received anything it
  is the snapshot's own cursor, and batches at or before it may still follow.\<close>

definition loose :: "event list \<Rightarrow> cursor option" where
  "loose es = (if SnapshotBegin \<in> set es \<and> positions es \<noteq> [] then Some (hd (positions es)) else None)"

text \<open>\<open>ordered_pair l a b\<close>: event \<open>b\<close> may follow \<open>a\<close>. A batch is later than every earlier batch; a report
  is at or after every earlier batch and later than every earlier report; a batch is later than every
  earlier report, the report \<open>l\<close> excepted.\<close>

fun ordered_pair :: "cursor option \<Rightarrow> event \<Rightarrow> event \<Rightarrow> bool" where
  "ordered_pair l (Batch a) (Batch b) = later (bt_cursor b) (bt_cursor a)"
| "ordered_pair l (Batch a) (Progress d) = at_or_before (bt_cursor a) d"
| "ordered_pair l (Progress c) (Batch b) = (later (bt_cursor b) c \<or> l = Some c)"
| "ordered_pair l (Progress c) (Progress d) = later d c"
| "ordered_pair l _ _ = True"

definition in_order :: "event list \<Rightarrow> bool" where
  "in_order es \<longleftrightarrow> sorted_wrt (ordered_pair (loose es)) es"

lemma in_order_Nil [simp]: "in_order []"
  by (simp add: in_order_def)

lemma positions_member: "c \<in> set (positions es) \<longleftrightarrow> Progress c \<in> set es"
  by (induction es rule: positions.induct) auto

lemma batches_member: "Batch b \<in> set es \<Longrightarrow> unshared b \<in> set (batches es)"
  by (induction es rule: batches.induct) auto

lemma unshared_cursor [simp]: "bt_cursor (unshared b) = bt_cursor b"
  by (simp add: unshared_def)

lemma loose_kept: "loose es = Some c \<Longrightarrow> loose (es @ [e]) = Some c"
  by (auto simp: loose_def split: if_splits)

lemma in_order_snoc:
  assumes "in_order es" "\<And>a. a \<in> set es \<Longrightarrow> ordered_pair (loose (es @ [e])) a e"
  shows "in_order (es @ [e])"
proof -
  have "ordered_pair (loose (es @ [e])) a b" if "ordered_pair (loose es) a b" for a b
    using that by (cases "loose es") (auto simp: loose_kept elim!: ordered_pair.elims)
  then have "sorted_wrt (ordered_pair (loose (es @ [e]))) es"
    using assms(1) sorted_wrt_mono_rel [of es "ordered_pair (loose es)" "ordered_pair (loose (es @ [e]))"]
    by (simp add: in_order_def)
  then show ?thesis using assms(2) by (simp add: in_order_def sorted_wrt_append)
qed

lemma in_order_plain:
  assumes "in_order es" "\<And>b. e \<noteq> Batch b" "\<And>c. e \<noteq> Progress c"
  shows "in_order (es @ [e])"
proof (rule in_order_snoc [OF assms(1)])
  show "ordered_pair l a e" for l a using assms(2,3) by (cases a; cases e) auto
qed

lemma in_order_batch:
  assumes "in_order es" "\<And>a. a \<in> set (batches es) \<Longrightarrow> later (bt_cursor b) (bt_cursor a)"
    "\<And>c. c \<in> set (positions es) \<Longrightarrow> later (bt_cursor b) c \<or> loose es = Some c"
  shows "in_order (es @ [Batch b])"
proof (rule in_order_snoc [OF assms(1)])
  fix a assume a: "a \<in> set es"
  have "later (bt_cursor b) (bt_cursor x)" if "a = Batch x" for x
    using assms(2) [of "unshared x"] a batches_member that by simp
  moreover have "later (bt_cursor b) c \<or> loose (es @ [Batch b]) = Some c" if "a = Progress c" for c
    using assms(3) [of c] a loose_kept [of es c] that by (auto simp: positions_member)
  ultimately show "ordered_pair (loose (es @ [Batch b])) a (Batch b)" by (cases a rule: event.exhaust) simp_all
qed

lemma in_order_progress:
  assumes "in_order es" "\<And>a. a \<in> set (batches es) \<Longrightarrow> at_or_before (bt_cursor a) d"
    "increasing (positions es @ [d])"
  shows "in_order (es @ [Progress d])"
proof (rule in_order_snoc [OF assms(1)])
  fix a assume a: "a \<in> set es"
  have "at_or_before (bt_cursor x) d" if "a = Batch x" for x
    using assms(2) [of "unshared x"] a batches_member that by simp
  moreover have "later d c" if "a = Progress c" for c
    using assms(3) a that by (simp add: increasing_def sorted_wrt_append positions_member)
  ultimately show "ordered_pair (loose (es @ [Progress d])) a (Progress d)" by (cases a rule: event.exhaust) simp_all
qed

section \<open>Batches in the order of the log\<close>

lemma expected_ordered:
  assumes "wal_ordered src H"
  shows "sorted_wrt (\<lambda>a b. later (bt_cursor b) (bt_cursor a)) (expected v m H)"
  using assms
proof (induction H)
  case (Cons t H)
  have "later (Cursor_of u) (Cursor_of t)" if u: "u \<in> set H" for u
  proof -
    obtain H1 H2 where "H = H1 @ u # H2" using u by (auto simp: in_set_conv_decomp)
    then show ?thesis using wal_ordered_before [of src "t # H1" u H2 t] Cons.prems by (simp add: later_iff at_or_before_def)
  qed
  then have "\<forall>b \<in> set (expected v m H). later (bt_cursor b) (Cursor_of t)" by (auto simp: expected_def batch_for_def)
  moreover have "wal_ordered src H" using Cons.prems by (auto simp: wal_ordered_def)
  ultimately show ?case using Cons.IH by (auto simp: batch_for_def)
qed simp

lemma wal_ordered_part: "wal_ordered src hist \<Longrightarrow> wal_ordered src (drop st (take k hist))"
  by (metis append_take_drop_id wal_ordered_append)

lemma next_batch_later:
  assumes "batches es @ b # rest = expected v m H" "wal_ordered src H" "a \<in> set (batches es)"
  shows "later (bt_cursor b) (bt_cursor a)"
  using expected_ordered [OF assms(2), of v m] assms(3) unfolding assms(1) [symmetric] by (simp add: sorted_wrt_append)

lemma expected_from: "b \<in> set (expected v m H) \<Longrightarrow> \<exists>t \<in> set H. bt_cursor b = Cursor_of t"
  by (auto simp: expected_def batch_for_def)

section \<open>The order invariant of one watch\<close>

fun held_items :: "pc \<Rightarrow> queued list" where
  "held_items (LiveSend item m first progressed pos rcv tk) = [item]"
| "held_items _ = []"

text \<open>A reported position that nothing held or queued, and nothing still to come, is at or before.\<close>

definition cleared :: "hub \<Rightarrow> transaction list \<Rightarrow> mode \<Rightarrow> queued list \<Rightarrow> cursor \<Rightarrow> bool" where
  "cleared h hist m items c \<longleftrightarrow> known h hist m c \<and>
     (\<forall>item \<in> set items. need m (q_transaction item) = Inr True \<longrightarrow> \<not> at_or_before (Cursor_of (q_transaction item)) c)"

definition reports_ok :: "string \<Rightarrow> hub \<Rightarrow> transaction list \<Rightarrow> mode \<Rightarrow> queued list \<Rightarrow> event list \<Rightarrow> bool" where
  "reports_ok src h hist m items es \<longleftrightarrow> cur_source (base_of m) = src \<and> (base_safe m \<or> SnapshotBegin \<in> set es) \<and>
     (\<forall>c \<in> set (positions es). cur_source c = src \<and> (loose es = Some c \<or> cleared h hist m items c))"

definition sent_upto :: "string \<Rightarrow> event list \<Rightarrow> cursor \<Rightarrow> bool" where
  "sent_upto src es pos \<longleftrightarrow> cur_source pos = src \<and> (\<forall>b \<in> set (batches es). at_or_before (bt_cursor b) pos)"

fun turn_ok :: "string \<Rightarrow> transaction list \<Rightarrow> event list \<Rightarrow> pc \<Rightarrow> bool" where
  "turn_ok src hist es (LivePosition m first progressed) = (first \<or> hist \<noteq> [])"
| "turn_ok src hist es (LiveDrain m first progressed pos rcv tk) = ((first \<or> rcv) \<and> sent_upto src es pos)"
| "turn_ok src hist es (LiveSend item m first progressed pos rcv tk) =
     ((first \<or> rcv) \<and> sent_upto src es pos \<and> need m (q_transaction item) = Inr True)"
| "turn_ok src hist es (LiveProgress m first progressed pos rcv tk) = ((first \<or> rcv) \<and> sent_upto src es pos)"
| "turn_ok src hist es _ = True"

definition order_ok :: "string \<Rightarrow> hub \<Rightarrow> transaction list \<Rightarrow> wid \<Rightarrow> thread \<Rightarrow> bool" where
  "order_ok src h hist w th \<longleftrightarrow> in_order (th_sent th) \<and> turn_ok src hist (th_sent th) (th_pc th) \<and>
     (\<forall>m. mode_of (th_pc th) = Some m \<longrightarrow>
        reports_ok src h hist m (held_items (th_pc th) @ w_queue (heap h w)) (th_sent th))"

lemma order_okD:
  assumes "order_ok src h hist w th"
  shows "in_order (th_sent th)" "turn_ok src hist (th_sent th) (th_pc th)"
    "mode_of (th_pc th) = Some m \<Longrightarrow> reports_ok src h hist m (held_items (th_pc th) @ w_queue (heap h w)) (th_sent th)"
  using assms by (simp_all add: order_ok_def)

lemma reports_ok_mono:
  assumes "reports_ok src h hist m items es" "set items' \<subseteq> set items" "received h' = received h"
  shows "reports_ok src h' hist m items' es"
  using assms known_cong [OF assms(3)] by (auto simp: reports_ok_def cleared_def)

lemma order_ok_cong:
  assumes "order_ok src h hist w th" "heap h' w = heap h w" "received h' = received h"
  shows "order_ok src h' hist w th"
  using assms reports_ok_mono [OF _ subset_refl assms(3)] by (simp add: order_ok_def)

section \<open>A delivery keeps the order\<close>

lemma cleared_deliver:
  assumes "cleared h hist m items c" "hub_ok h" "window_ok src hist h" "wal_ordered src (hist @ [t])"
    "\<And>item. item \<in> set items' \<Longrightarrow> item \<in> set items \<or> q_transaction item = t"
  shows "cleared (accept_new h t) (hist @ [t]) m items' c"
proof -
  have k: "known h hist m c" using assms(1) by (simp add: cleared_def)
  show ?thesis
    unfolding cleared_def
    using known_advance [OF k assms(2,3,4)] known_not_passed [OF k assms(3,4)] assms(1,5) by (auto simp: cleared_def)
qed

lemma order_ok_deliver:
  assumes "order_ok src h hist w th" "hub_ok h" "window_ok src hist h" "wal_ordered src (hist @ [t])"
  shows "order_ok src (accept_new h t) (hist @ [t]) w th"
proof -
  let ?h = "accept_new h t"
  have q: "item \<in> set (w_queue (heap h w)) \<or> q_transaction item = t" if "item \<in> set (w_queue (heap ?h w))" for item
  proof (cases "w \<in> set (watchers h)")
    case True
    show ?thesis using accept_new_outcome(2) [OF assms(2) True, of t] that by (cases rule: outcome_cases) auto
  qed (use that accept_new_outcome(3) [OF assms(2)] in simp)
  have "turn_ok src (hist @ [t]) (th_sent th) (th_pc th)"
    using order_okD(2) [OF assms(1)] by (cases "th_pc th") simp_all
  moreover have "reports_ok src ?h (hist @ [t]) m (held_items p @ w_queue (heap ?h w)) es"
    if "reports_ok src h hist m (held_items p @ w_queue (heap h w)) es" for m p es
    using that cleared_deliver [OF _ assms(2,3,4), of m "held_items p @ w_queue (heap h w)" _ "held_items p @ w_queue (heap ?h w)"] q
    by (auto simp: reports_ok_def)
  ultimately show ?thesis using assms(1) by (simp add: order_ok_def)
qed

section \<open>A step keeps the order\<close>

lemma in_snapshot_began: "stage_of es = InSnapshot \<Longrightarrow> SnapshotBegin \<in> set es"
proof (induction es rule: rev_induct)
  case (snoc e es)
  then show ?case by (cases "stage_of es"; cases e) auto
qed simp

lemma received_source:
  assumes "window_ok src hist h" "hist \<noteq> []"
  shows "cur_source (received h) = src" "t \<in> set hist \<Longrightarrow> at_or_before (Cursor_of t) (received h)"
proof -
  have r: "received h = Cursor_of (last hist)" and wal: "wal_ordered src hist"
    using assms by (simp_all add: window_ok_def window_core_def)
  show "cur_source (received h) = src" unfolding r by (rule wal_orderedD [OF wal]) (simp add: assms(2))
  assume t: "t \<in> set hist"
  then obtain H1 H2 where H: "hist = H1 @ t # H2" by (auto simp: in_set_conv_decomp)
  show "at_or_before (Cursor_of t) (received h)"
  proof (cases H2 rule: rev_cases)
    case (snoc H u)
    then show ?thesis using wal_ordered_before(1) [of src "H1 @ t # H" u "[]" t] wal H r by simp
  qed (simp add: H r)
qed

text \<open>A new turn of the loop takes a position that covers every batch sent so far.\<close>

lemma position_covers:
  assumes "window_ok src hist h" "cur_source (base_of m) = src"
    "\<And>b. b \<in> set (batches es) \<Longrightarrow> \<exists>t \<in> set hist. bt_cursor b = Cursor_of t"
    "pos = (if \<not> hasReceived h \<or> base_safe m \<and> later (base_of m) (received h) then base_of m else received h)"
  shows "sent_upto src es pos"
proof (cases "hist = []")
  case True
  then show ?thesis using assms by (auto simp: sent_upto_def window_ok_def window_core_def)
next
  case False
  have "hasReceived h" using assms(1) False by (simp add: window_ok_def window_core_def)
  then have up: "at_or_before (received h) pos" "cur_source pos = src"
    using assms(2,4) received_source(1) [OF assms(1) False] by (auto simp: later_iff at_or_before_def)
  then show ?thesis
    using received_source(2) [OF assms(1) False] assms(3) at_or_before_trans unfolding sent_upto_def by metis
qed

lemma sent_upto_passed:
  assumes "sent_upto src es pos" "cur_source (Cursor_of (q_transaction item)) = src"
  shows "sent_upto src es (passed item pos)" "sent_upto src (es @ [Batch (batch_of_queued item)]) (passed item pos)"
  using assms by (auto simp: sent_upto_def passed_def later_iff at_or_before_def batch_of_queued_def unshared_def)

text \<open>The part of the log a registered watch has been offered, and what its batches are of it.\<close>

lemma offered_part:
  assumes "watch_ok src h hist st w th" "window_ok src hist h" "registered_pc (th_pc th)"
  obtains H where "wal_ordered src H" "set H \<subseteq> set hist" "pipeline (heap h w) (th_pc th) (th_sent th) H"
proof -
  obtain k where k: "pipeline (heap h w) (th_pc th) (th_sent th) (drop st (take k hist))"
    using watch_okD(3) [OF assms(1)] assms(3) by (auto simp: flows_def)
  have wal: "wal_ordered src hist" using assms(2) by (simp add: window_ok_def window_core_def)
  have "set (drop st (take k hist)) \<subseteq> set hist" by (meson in_set_dropD in_set_takeD subsetI)
  then show ?thesis using that [OF wal_ordered_part [OF wal] _ k] by blast
qed

lemma sent_from_log:
  assumes "watch_ok src h hist st w th" "window_ok src hist h" "mode_of (th_pc th) = Some m" "b \<in> set (batches (th_sent th))"
  shows "\<exists>t \<in> set hist. bt_cursor b = Cursor_of t"
proof -
  have "registered_pc (th_pc th)" using assms(3) by (cases "th_pc th") simp_all
  then obtain H where H: "set H \<subseteq> set hist" "pipeline (heap h w) (th_pc th) (th_sent th) H"
    using offered_part [OF assms(1,2)] by blast
  obtain rest where "batches (th_sent th) @ rest = expected (heap h w) m H" using pipeline_prefix [OF H(2) assms(3)] by blast
  then have "b \<in> set (expected (heap h w) m H)" using assms(4) by (metis Un_iff set_append)
  then show ?thesis using expected_from H(1) by blast
qed

lemma in_order_step:
  assumes "order_ok src h hist w th" "events_ok th" "events_ok th'" "watch_ok src h hist st w th" "window_ok src hist h"
    "thread_step parse_lsn ch h w th = Some (h', th')"
  shows "in_order (th_sent th')"
proof -
  note es = order_okD(1) [OF assms(1)]
  note plain = in_order_plain [OF es]
  have st: "stage_ok (th_pc th) (stage_of (th_sent th))" using assms(2) by (simp add: events_ok_def)
  show ?thesis
  proof (cases "th_pc th")
    case (Backlog bs m)
    show ?thesis
    proof (cases bs)
      case (Cons b rest)
      obtain H where H: "wal_ordered src H" "pipeline (heap h w) (th_pc th) (th_sent th) H"
        using offered_part [OF assms(4,5)] Backlog by auto
      have e: "batches (th_sent th) @ unshared b # map unshared rest @ expected (heap h w) m (queued_txns (heap h w)) =
          expected (heap h w) m H"
        using H(2) Backlog Cons by simp
      have "in_order (th_sent th @ [Batch b])"
        by (rule in_order_batch [OF es]) (use next_batch_later [OF e H(1)] assms(2) Backlog in \<open>simp_all add: events_ok_def\<close>)
      then show ?thesis using es assms(6) Backlog Cons by (auto simp: send_def split: choice.splits)
    qed (use es assms(6) Backlog in \<open>auto simp: at_def split: if_splits\<close>)
  next
    case (LiveSend item m first progressed pos rcv tk)
    obtain H where H: "wal_ordered src H" "pipeline (heap h w) (th_pc th) (th_sent th) H"
      using offered_part [OF assms(4,5)] LiveSend by auto
    have e: "batches (th_sent th) @ unshared (batch_of_queued item) # expected (heap h w) m (queued_txns (heap h w)) =
        expected (heap h w) m H"
      using H(2) LiveSend by simp
    have ok: "item_ok (heap h w) hist item" using watch_okD(4) [OF assms(4)] LiveSend by simp
    then have src: "cur_source (Cursor_of (q_transaction item)) = src"
      using assms(5) wal_orderedD(1) by (auto simp: item_ok_def window_ok_def window_core_def)
    have "later (Cursor_of (q_transaction item)) c \<or> loose (th_sent th) = Some c" if "c \<in> set (positions (th_sent th))" for c
      using order_okD(2) [OF assms(1)] order_okD(3) [OF assms(1), of m] that LiveSend src
      by (auto simp: reports_ok_def cleared_def later_iff at_or_before_def)
    then have "in_order (th_sent th @ [Batch (batch_of_queued item)])"
      using next_batch_later [OF e H(1)]
      by (intro in_order_batch [OF es]) (simp_all add: batch_of_queued_def unshared_def)
    then show ?thesis using es assms(6) LiveSend by (auto simp: send_def split: choice.splits)
  next
    case (LiveProgress m first progressed pos rcv tk)
    have up: "sent_upto src (th_sent th) pos" using order_okD(2) [OF assms(1)] LiveProgress by simp
    have "th_sent th' = th_sent th \<or> th_sent th' = th_sent th @ [Progress pos]"
      using assms(6) LiveProgress by (auto simp: send_def at_def split: if_splits choice.splits)
    then show ?thesis
      using es in_order_progress [OF es, of pos] up assms(3) by (auto simp: sent_upto_def events_ok_def)
  qed (use es plain st assms(6) in \<open>auto simp: step_defs split: step_cases\<close>)
qed

lemma turn_ok_step:
  assumes "order_ok src h hist w th" "watch_ok src h hist st w th" "window_ok src hist h" "0 < tick h \<longrightarrow> hist \<noteq> []"
    "thread_step parse_lsn ch h w th = Some (h', th')"
  shows "turn_ok src hist (th_sent th') (th_pc th')"
proof -
  note turn = order_okD(2) [OF assms(1)]
  have src: "cur_source (Cursor_of (q_transaction item)) = src" if "item_ok v hist item" for v item
    using that assms(3) wal_orderedD(1) by (auto simp: item_ok_def window_ok_def window_core_def)
  show ?thesis
  proof (cases "th_pc th")
    case (LivePosition m first progressed)
    have "cur_source (base_of m) = src" using order_okD(3) [OF assms(1), of m] LivePosition by (simp add: reports_ok_def)
    then have "sent_upto src (th_sent th)
        (if \<not> hasReceived h \<or> base_safe m \<and> later (base_of m) (received h) then base_of m else received h)"
      using LivePosition by (intro position_covers [OF assms(3) _ sent_from_log [OF assms(2,3)] refl]) simp_all
    moreover have "hist \<noteq> [] \<Longrightarrow> hasReceived h" using assms(3) by (simp add: window_ok_def window_core_def)
    ultimately show ?thesis
      using turn assms(5) LivePosition by (auto simp: live_position_def position_def at_def split: if_splits)
  next
    case (LiveDrain m first progressed pos rcv tk)
    have items: "\<forall>item \<in> set (w_queue (heap h w)). item_ok (heap h w) hist item"
      using watch_okD(2) [OF assms(2)] LiveDrain by simp
    then show ?thesis
      using turn assms(5) LiveDrain sent_upto_passed(1) src
      by (auto simp: live_drain_def at_def Let_def split: if_splits list.splits sum.splits bool.splits)
  next
    case (LiveSend item m first progressed pos rcv tk)
    then show ?thesis
      using turn assms(5) watch_okD(4) [OF assms(2)] sent_upto_passed(2) src
      by (auto simp: send_def at_def split: choice.splits)
  next
    case (LiveSelect m progressed tk)
    then show ?thesis
      using assms(4,5) by (auto simp: live_select_def tick_closed_def at_def split: if_splits choice.splits option.splits)
  next
    case (Backlog bs m)
    then show ?thesis using assms(5) by (cases bs) (auto simp: at_def send_def split: if_splits choice.splits)
  qed (use turn assms(5) in \<open>auto simp: step_defs split: step_cases\<close>)
qed

lemma reports_sent:
  assumes "reports_ok src h hist m items es" "\<And>c. e \<noteq> Progress c"
  shows "reports_ok src h hist m items (es @ [e])"
proof -
  have "positions (es @ [e]) = positions es" using assms(2) by (cases e) auto
  then show ?thesis using assms(1) loose_kept [of es _ e] by (auto simp: reports_ok_def)
qed

lemma reports_progress:
  assumes "reports_ok src h hist m items es" "cur_source pos = src" "cleared h hist m items pos \<or> \<not> base_safe m \<and> positions es = []"
  shows "reports_ok src h hist m items (es @ [Progress pos])"
proof -
  have "loose (es @ [Progress pos]) = Some pos" if "\<not> base_safe m" "positions es = []"
    using assms(1) that by (simp add: loose_def reports_ok_def)
  then show ?thesis using assms loose_kept [of es _ "Progress pos"] by (auto simp: reports_ok_def)
qed

lemma reports_enter:
  assumes "cur_source (base_of m) = src" "base_safe m \<or> stage_of es = InSnapshot" "positions es = []"
  shows "reports_ok src h hist m items es"
  using assms in_snapshot_began by (auto simp: reports_ok_def)

lemma enter_mode:
  assumes "mode_of (th_pc th) = None" "mode_of (th_pc th') = Some m" "events_ok th" "watch_ok src h hist st w th"
    "window_ok src hist h" "thread_step parse_lsn ch h w th = Some (h', th')"
  shows "cur_source (base_of m) = src \<and> (base_safe m \<or> stage_of (th_sent th) = InSnapshot) \<and> positions (th_sent th) = [] \<and>
    th_sent th' = th_sent th"
proof (cases "th_pc th")
  case (Resuming c)
  then have m: "m = Resumed c" "replayableLocked h c" "th_sent th' = th_sent th"
    using assms(2,6) by (auto simp: resume_locked_def at_def split: if_splits sum.splits)
  then have "cur_source c = src"
    using assms(5) by (auto simp: replayableLocked_iff at_or_before_def window_ok_def window_core_def)
  then show ?thesis using m assms(3) Resuming by (simp add: events_ok_def)
next
  case (SnapStale ts s)
  then have m: "m = Snapshotted s" "th_sent th' = th_sent th"
    using assms(2,6) by (auto simp: at_def Let_def split: if_splits sum.splits)
  then show ?thesis using watch_okD(5) [OF assms(4)] assms(3) SnapStale by (simp add: events_ok_def)
qed (use assms(1,2,6) in \<open>auto simp: step_defs split: step_cases\<close>)

lemma reports_step:
  assumes "order_ok src h hist w th" "events_ok th" "watch_ok src h hist st w th"
    "mode_of (th_pc th) = Some m" "mode_of (th_pc th') = Some m'"
    "thread_step parse_lsn ch h w th = Some (h', th')"
  shows "m' = m \<and> reports_ok src h hist m (held_items (th_pc th') @ w_queue (heap h' w)) (th_sent th')"
proof -
  note r = order_okD(3) [OF assms(1,4)] and mono = reports_ok_mono [OF _ _ refl]
  show ?thesis
  proof (cases "th_pc th")
    case (LiveProgress x first progressed pos rcv tk)
    have t: "first \<or> rcv" "cur_source pos = src"
      using order_okD(2) [OF assms(1)] LiveProgress by (auto simp: sent_upto_def)
    have "cleared h hist x (w_queue (heap h w)) pos \<or> \<not> base_safe x \<and> positions (th_sent th) = []"
      using t(1) watch_okD(4) [OF assms(3)] assms(2) LiveProgress by (auto simp: cleared_def events_ok_def)
    then show ?thesis
      using r reports_progress [OF _ t(2), of h hist x "w_queue (heap h w)" "th_sent th"] assms(4,5,6) LiveProgress
      by (auto simp: send_def at_def split: if_splits choice.splits)
  next
    case (LiveDrain x first progressed pos rcv tk)
    then show ?thesis
      using r mono [OF r] assms(4,5,6)
      by (auto simp: subset_insertI live_drain_def at_def Let_def split: if_splits list.splits sum.splits bool.splits)
  next
    case (Backlog bs x)
    then show ?thesis
      using r reports_sent [OF r] assms(4,5,6) by (cases bs) (auto simp: at_def send_def split: if_splits choice.splits)
  next
    case (LiveSend item x first progressed pos rcv tk)
    have "reports_ok src h hist m (w_queue (heap h w)) (th_sent th)" using r LiveSend by (intro mono [OF r]) auto
    then show ?thesis
      using reports_sent [of src h hist m "w_queue (heap h w)" "th_sent th"] assms(4,5,6) LiveSend
      by (auto simp: send_def at_def split: choice.splits)
  qed (use r reports_sent [OF r] assms(4,5,6) in
      \<open>auto simp: at_def send_def live_position_def position_def live_select_def record_frame split: if_splits choice.splits option.splits\<close>)
qed

lemma order_ok_step:
  assumes "order_ok src h hist w th" "events_ok th" "watch_ok src h hist st w th" "hub_ok h" "window_ok src hist h"
    "0 < tick h \<longrightarrow> hist \<noteq> []" "thread_step parse_lsn ch h w th = Some (h', th')"
  shows "order_ok src h' hist w th'"
proof -
  have rc: "received h' = received h" using thread_step_frame(1) [OF assms(4,7)] by (simp add: same_stream_def)
  have "reports_ok src h' hist m' (held_items (th_pc th') @ w_queue (heap h' w)) (th_sent th')" if m': "mode_of (th_pc th') = Some m'" for m'
  proof (cases "mode_of (th_pc th)")
    case None
    then show ?thesis using enter_mode [OF None m' assms(2,3,5,7)] by (simp add: reports_enter)
  next
    case (Some m)
    then show ?thesis
      using reports_step [OF assms(1,2,3) Some m' assms(7)] reports_ok_mono [OF _ subset_refl rc] by blast
  qed
  then show ?thesis
    using in_order_step [OF assms(1,2) events_ok_step [OF assms(2,7)] assms(3,5,7)] turn_ok_step [OF assms(1,3,5,6,7)]
    by (simp add: order_ok_def)
qed

section \<open>Every reachable state\<close>

lemma tick_step:
  assumes "hub_ok h" "thread_step parse_lsn ch h w th = Some (h', th')"
  shows "tick h' = tick h"
proof -
  have r: "tick (recordSnapshotLocked h c) = tick h" for c by (simp add: recordSnapshotLocked_def Let_def)
  show ?thesis
    using assms(2) r registerLocked_spec(5) [OF hub_okD(1) [OF assms(1)], of w] unregister_spec(4) [OF assms(1), of w]
    by (cases "th_pc th") (auto simp: step_defs same_core_simps split: step_cases)
qed

definition orders_ok :: "string \<Rightarrow> sys \<Rightarrow> bool" where
  "orders_ok src s \<longleftrightarrow> (0 < tick (s_hub s) \<longrightarrow> s_hist s \<noteq> []) \<and> (\<forall>w. order_ok src (s_hub s) (s_hist s) w (s_threads s w))"

lemma orders_deliver:
  assumes "sys_ok src s" "sys_ok src s'" "orders_ok src s" "exec parse_lsn (Deliver t) s = Some s'"
  shows "orders_ok src s'"
proof (cases "Accept (s_hub s) t")
  case (Inr h)
  note ok = assms(1,2) [unfolded sys_ok_def]
  show ?thesis
  proof (cases "\<not> hasReceived (s_hub s) \<or> later (Cursor_of t) (received (s_hub s))")
    case True
    then have "h = accept_new (s_hub s) t" using Accept_cases [OF Inr] ok(1) by simp
    then have s': "s' = s\<lparr>s_hub := accept_new (s_hub s) t, s_hist := s_hist s @ [t]\<rparr>" using assms(4) Inr True by simp
    have "wal_ordered src (s_hist s @ [t])" using ok(2) s' by (simp add: window_ok_def window_core_def)
    then show ?thesis unfolding s' using assms(3) order_ok_deliver ok(1) by (simp add: orders_ok_def)
  qed (use assms(3,4) Inr Accept_cases [OF Inr] ok(1) in simp)
qed (use assms(3,4) in simp)

lemma orders_exec:
  assumes "sys_ok src s" "sys_ok src s'" "orders_ok src s" "\<And>w. events_ok (s_threads s w)" "exec parse_lsn a s = Some s'"
  shows "orders_ok src s'"
proof (cases a)
  case (Deliver t)
  then show ?thesis using orders_deliver [OF assms(1-3)] assms(5) by blast
next
  case (Step w ch)
  note ok = assms(1) [unfolded sys_ok_def] and ord = assms(3) [unfolded orders_ok_def]
  obtain h th where st: "thread_step parse_lsn ch (s_hub s) w (s_threads s w) = Some (h, th)"
    and s': "s_hub s' = h" "s_threads s' = (s_threads s)(w := th)" "s_hist s' = s_hist s"
    using assms(5) Step by (auto split: option.splits)
  have hb: "hub_ok (s_hub s)" using ok by simp
  note fr = thread_step_frame [OF hb st]
  have "order_ok src h (s_hist s) x (s_threads s' x)" for x
  proof (cases "x = w")
    case True
    then show ?thesis using order_ok_step [OF _ assms(4) _ hb _ _ st, of src "s_hist s" "s_start s w"] ok ord s'(2) by simp
  next
    case False
    then show ?thesis using order_ok_cong [OF _ fr(2)] fr(1) ord s'(2) by (simp add: same_stream_def)
  qed
  then show ?thesis using ord tick_step [OF hb st] s' by (simp add: orders_ok_def)
next
  case (Call w req)
  then show ?thesis using assms(3,5) by (auto simp: orders_ok_def order_ok_def split: if_splits)
next
  case StopHub
  then have s': "s' = s\<lparr>s_hub := (s_hub s)\<lparr>stopped := True\<rparr>\<rparr>" using assms(5) by (simp add: Stop_def)
  show ?thesis using assms(3) unfolding s' by (auto simp: orders_ok_def intro: order_ok_cong)
qed

lemma reachable_orders:
  assumes "New cfg b = Inr h" "reachable parse_lsn h s"
  shows "orders_ok (sourceID h) s"
  using assms(2)
proof (induction rule: reachable.induct)
  case reach_init
  have "tick h = 0" using assms(1) by (auto simp: New_def rbind_Inr_iff Let_def split: if_splits)
  then show ?case by (simp add: orders_ok_def order_ok_def start_sys_def idle_thread_def)
next
  case (reach_step s a s')
  have "reachable parse_lsn h s'" using reach_step.hyps by (rule reachable.reach_step)
  then show ?case
    using orders_exec reach_step.IH reach_step.hyps(3) reachable_ok [OF assms(1)] reachable_events [OF reach_step.hyps(1)]
      reach_step.hyps(1) by blast
qed

text \<open>C9: in every interleaving of the stream with the watch goroutines, the events a watch has sent are a
  snapshot and then live events, or live events only, cut short at any point by at most one \<open>Resync\<close>, which
  nothing follows; every batch is later than every earlier batch; every \<open>Progress\<close> is at or after every earlier
  batch and later than every earlier \<open>Progress\<close>; and every batch is later than every earlier \<open>Progress\<close>, except the
  first \<open>Progress\<close> after a snapshot, which batches at or before it may follow.\<close>

theorem stream_wellformed:
  assumes "New cfg b = Inr h" "reachable parse_lsn h s"
  shows "stage_of (th_sent (s_threads s w)) \<noteq> Malformed \<and>
    sorted_wrt (ordered_pair (loose (th_sent (s_threads s w)))) (th_sent (s_threads s w))"
  using reachable_events [OF assms(2), of w] reachable_orders [OF assms] stage_ok_wellformed
  by (auto simp: events_ok_def orders_ok_def order_ok_def in_order_def)

end
