(* ===== verification/Watch_Runs.thy ===== *)
theory Watch_Runs
  imports Watch_Order
begin

text \<open>
  Concrete runs of the hub with its watch goroutines: states of the theorems on all runs, and
  interleavings in which the code reports a position it has not reached.
\<close>

section \<open>Running a list of actions\<close>

fun run :: "(string \<Rightarrow> lsn option) \<Rightarrow> action list \<Rightarrow> sys \<Rightarrow> sys option" where
  "run parse_lsn [] s = Some s"
| "run parse_lsn (a # as) s =
     (if allowed a s then (case exec parse_lsn a s of None \<Rightarrow> None | Some s' \<Rightarrow> run parse_lsn as s') else None)"

lemma run_reachable: "reachable parse_lsn h s \<Longrightarrow> run parse_lsn as s = Some s' \<Longrightarrow> reachable parse_lsn h s'"
  by (induction as arbitrary: s) (auto split: if_splits option.splits intro: reach_step)

definition small_config :: config where
  "small_config = \<lparr>cfg_sourceID = ''s'', cfg_projections = [(''items'', items_spec)], cfg_maxReplay = 4, cfg_watcherQueue = 1\<rparr>"

definition small_hub :: hub where
  "small_hub = (sample_hub 4 1)\<lparr>heap := (\<lambda>_. zeroWatcher)\<rparr>"

lemma small_hub_New: "New small_config True = Inr small_hub"
  by (simp add: New_def small_config_def small_hub_def sample_hub_def items_projection_def items_spec_def Let_def)

text \<open>A parser of the one-digit LSNs of the runs.\<close>

definition digit_lsn :: "string \<Rightarrow> lsn option" where
  "digit_lsn txt = (if txt = ''9'' then Some 9 else if txt = ''7'' then Some 7 else if txt = ''5'' then Some 5 else None)"

definition at_lsn :: "lsn \<Rightarrow> cursor" where
  "at_lsn l = \<lparr>cur_source = ''s'', cur_lsn = l\<rparr>"

definition watch_items :: "string \<Rightarrow> request" where
  "watch_items cursor = \<lparr>req_projection = ''items'', req_scope = ''acme'', req_resumeCursor = cursor\<rparr>"

text \<open>A snapshot that sees every transaction with an identifier below 10.\<close>

definition snapshot_at :: "lsn \<Rightarrow> snapshot" where
  "snapshot_at l = \<lparr>snap_sourceID = ''s'', snap_cursor = at_lsn l, snap_visibility = Some \<lparr>xmin = 10, xmax = 10, inProgress = []\<rparr>\<rparr>"

definition txn_of :: "xid \<Rightarrow> lsn \<Rightarrow> incompatible list \<Rightarrow> transaction" where
  "txn_of x l incs = (item_txn l [item_change ''acme'' ''1''] incs)\<lparr>xid_of := x\<rparr>"

definition steps :: "wid \<Rightarrow> choice list \<Rightarrow> action list" where
  "steps w chs = map (Step w) chs"

text \<open>A watch from its call to \<open>SnapshotEnd\<close> being sent next.\<close>

definition snapshot_steps :: "wid \<Rightarrow> lsn \<Rightarrow> action list" where
  "snapshot_steps w l = Call w (watch_items []) #
     steps w [Run, Run, SendOk, Rows [], SnapshotReturns (Inr (snapshot_at l)), Run, Run, Run]"

section \<open>What every run guarantees\<close>

text \<open>Program counters at which the goroutine holds no batch it has yet to send.\<close>

fun holds_none :: "pc \<Rightarrow> bool" where
  "holds_none (LivePosition m first progressed) = True"
| "holds_none (LiveDrain m first progressed pos rcv tk) = True"
| "holds_none (LiveProgress m first progressed pos rcv tk) = True"
| "holds_none (LiveSelect m progressed tk) = True"
| "holds_none _ = False"

lemma pipeline_rest:
  assumes "pipeline v p sent H" "mode_of p = Some m"
  obtains rest where "batches sent @ rest = expected v m H" "holds_none p \<Longrightarrow> rest = expected v m (queued_txns v)"
proof -
  have "\<exists>rest. batches sent @ rest = expected v m H \<and> (holds_none p \<longrightarrow> rest = expected v m (queued_txns v))"
    using assms by (cases p) auto
  then show thesis using that by blast
qed

text \<open>The transactions, of the first \<open>k\<close> the hub accepted, that a watch is there for. A watch that resumed: all of them. A
  watch that took a snapshot: those that were in the ring when it registered and those accepted since. What had been
  evicted before is left out: \<open>snapshot\<close> never looks at it, and counts on the snapshot to contain it.\<close>

definition offered :: "sys \<Rightarrow> wid \<Rightarrow> mode \<Rightarrow> nat \<Rightarrow> transaction list" where
  "offered s w m k = (if base_safe m then take k (s_hist s) else drop (s_start s w) (take k (s_hist s)))"

text \<open>The transactions before the start of a watch that resumed are not for it: they precede its cursor.\<close>

lemma expected_offered:
  assumes "resumes_ok (s_hist s) (s_start s w) p" "mode_of p = Some m" "s_start s w \<le> k" "k \<le> length (s_hist s)"
  shows "expected v m (drop (s_start s w) (take k (s_hist s))) = expected v m (offered s w m k)"
proof (cases m)
  case (Resumed c)
  let ?hist = "s_hist s" and ?st = "s_start s w"
  have "need m t \<noteq> Inr True" if "t \<in> set (take ?st ?hist)" for t
    using that assms(1,2) Resumed by (auto simp: resumes_ok_def)
  then have "expected v m (take ?st ?hist) = []" by (auto simp: expected_def needed_def filter_empty_conv)
  moreover have "take k ?hist = take ?st ?hist @ drop ?st (take k ?hist)"
    using assms(3,4) by (metis append_take_drop_id min.absorb1 take_take)
  ultimately have "expected v m (take k ?hist) = expected v m (drop ?st (take k ?hist))" by (metis append_Nil expected_simps(2))
  then show ?thesis by (simp add: offered_def Resumed)
qed (simp add: offered_def)

lemma watch_accounted:
  assumes "New cfg b = Inr h" "reachable parse_lsn h s" "mode_of (th_pc (s_threads s w)) = Some m"
  shows "\<exists>k rest. s_start s w \<le> k \<and> k \<le> length (s_hist s) \<and> (w \<in> set (watchers (s_hub s)) \<longrightarrow> k = length (s_hist s)) \<and>
    batches (th_sent (s_threads s w)) @ rest = expected (heap (s_hub s) w) m (offered s w m k) \<and>
    (holds_none (th_pc (s_threads s w)) \<longrightarrow> rest = expected (heap (s_hub s) w) m (queued_txns (heap (s_hub s) w)))"
proof -
  have ok: "watch_ok (sourceID h) (s_hub s) (s_hist s) (s_start s w) w (s_threads s w)"
    using reachable_ok [OF assms(1,2)] by (simp add: sys_ok_def)
  have "registered_pc (th_pc (s_threads s w))" using assms(3) by (cases "th_pc (s_threads s w)") simp_all
  then obtain k where k: "s_start s w \<le> k" "k \<le> length (s_hist s)" "w \<in> set (watchers (s_hub s)) \<longrightarrow> k = length (s_hist s)"
    and pl: "pipeline (heap (s_hub s) w) (th_pc (s_threads s w)) (th_sent (s_threads s w)) (drop (s_start s w) (take k (s_hist s)))"
    using watch_okD(3) [OF ok] by (auto simp: flows_def)
  obtain rest where "batches (th_sent (s_threads s w)) @ rest = expected (heap (s_hub s) w) m (drop (s_start s w) (take k (s_hist s)))"
    "holds_none (th_pc (s_threads s w)) \<Longrightarrow> rest = expected (heap (s_hub s) w) m (queued_txns (heap (s_hub s) w))"
    using pipeline_rest [OF pl assms(3)] by blast
  then show ?thesis
    using k expected_offered [OF watch_okD(6) [OF ok] assms(3) k(1,2)]
    by (intro exI [of _ k] exI [of _ rest]) simp
qed

text \<open>C2: a watch is sent each batch it needs exactly once and in commit order, in every interleaving
  of the stream, the other watches and its own steps. From its \<open>SnapshotEnd\<close> or its resume on, the batches sent are
  a prefix of those that the transactions offered to it have for its projection, scope and starting point, cut off at
  some transaction only if the watcher was ended; when the goroutine holds none and its queue is empty,
  they are all of them. To a watch that resumed the hub's whole history is offered; to one that took a snapshot,
  what was in the ring when it registered and all that came later, and not what had been evicted
  before (see \<open>evicted_commit_lost\<close>).\<close>

theorem watch_exactly_once:
  assumes "New cfg b = Inr h" and "reachable parse_lsn h s" and "mode_of (th_pc (s_threads s w)) = Some m"
  shows "\<exists>k rest. s_start s w \<le> k \<and> k \<le> length (s_hist s) \<and> (w \<in> set (watchers (s_hub s)) \<longrightarrow> k = length (s_hist s)) \<and>
    batches (th_sent (s_threads s w)) @ rest = expected (heap (s_hub s) w) m (offered s w m k) \<and>
    (holds_none (th_pc (s_threads s w)) \<and> w_queue (heap (s_hub s) w) = [] \<longrightarrow> rest = [])"
proof -
  obtain k rest where "s_start s w \<le> k" "k \<le> length (s_hist s)" "w \<in> set (watchers (s_hub s)) \<longrightarrow> k = length (s_hist s)"
    "batches (th_sent (s_threads s w)) @ rest = expected (heap (s_hub s) w) m (offered s w m k)"
    "holds_none (th_pc (s_threads s w)) \<longrightarrow> rest = expected (heap (s_hub s) w) m (queued_txns (heap (s_hub s) w))"
    using watch_accounted [OF assms] by blast
  then show ?thesis by (intro exI [of _ k] exI [of _ rest]) auto
qed

definition good_run :: "action list" where
  "good_run = snapshot_steps 0 3 @ [Deliver (txn_of 11 4 [])] @ steps 0 [SendOk, Run, Run, Run, SendOk, Run]"

definition good_sys :: sys where
  "good_sys = (case run digit_lsn good_run (start_sys small_hub) of Some s \<Rightarrow> s | None \<Rightarrow> start_sys small_hub)"

lemma good_run_Some: "run digit_lsn good_run (start_sys small_hub) \<noteq> None"
proof -
  have "case run digit_lsn good_run (start_sys small_hub) of None \<Rightarrow> False | Some s \<Rightarrow> True" by code_simp
  then show ?thesis by (simp split: option.splits)
qed

lemma good_sys_reachable: "reachable digit_lsn small_hub good_sys"
  using good_run_Some run_reachable [OF reach_init, of digit_lsn good_run small_hub] by (auto simp: good_sys_def)

lemma good_sys_simps:
  "th_pc (s_threads good_sys 0) = LiveProgress (Snapshotted (snapshot_at 3)) True zeroCursor (at_lsn 5) True 0"
  "watchers (s_hub good_sys) = [0]" "s_start good_sys 0 = 0" "w_queue (heap (s_hub good_sys) 0) = []"
  "s_hist good_sys = [txn_of 11 4 []]" "heap (s_hub good_sys) 0 = sample_watcher ''acme''"
  "map bt_changes (batches (th_sent (s_threads good_sys 0))) = [[item_change ''acme'' ''1'']]"
  "sourceID small_hub = ''s''"
  by code_simp+

theorem watch_exactly_once_witness:
  "batches (th_sent (s_threads good_sys 0)) = expected (sample_watcher ''acme'') (Snapshotted (snapshot_at 3)) [txn_of 11 4 []]"
  using watch_exactly_once [OF small_hub_New good_sys_reachable, of 0 "Snapshotted (snapshot_at 3)"]
  by (auto simp: good_sys_simps offered_def sample_watcher_def simp del: expected_simps)

lemma wal_ordered_one:
  assumes "wal_ordered src (hist @ ts)" "t \<in> set ts"
  shows "wal_ordered src (hist @ [t])"
proof -
  have "wal_ordered src [t]" using assms by (auto simp: wal_ordered_append wal_ordered_def)
  then show ?thesis using assms by (simp add: wal_ordered_append)
qed

text \<open>C3: \<open>Progress\<close> is true for a watcher that is still registered and that resumed from a cursor or joined
  after the hub had received a transaction: when the goroutine is about to report
  a position, it has sent the batch of every transaction offered to it (all of them, for a watch that resumed; those not
  evicted before it registered, for one that took a snapshot) that it needs and that lies at or before that
  position, and no transaction still to come, in commit order, is one of those.\<close>

theorem progress_truthful:
  assumes "New cfg b = Inr h" and "reachable parse_lsn h s"
    and "th_pc (s_threads s w) = LiveProgress m first progressed pos rcv tk" and "w \<in> set (watchers (s_hub s))"
    and "rcv \<or> base_safe m"
    and "wal_ordered (sourceID h) (s_hist s @ ts)"
    and "t \<in> set (offered s w m (length (s_hist s)) @ ts)" and "needed (heap (s_hub s) w) m t" and "at_or_before (Cursor_of t) pos"
  shows "batch_for (heap (s_hub s) w) t \<in> set (batches (th_sent (s_threads s w)))"
proof -
  let ?v = "heap (s_hub s) w"
  have ok: "window_ok (sourceID h) (s_hist s) (s_hub s)" "watch_ok (sourceID h) (s_hub s) (s_hist s) (s_start s w) w (s_threads s w)"
    using reachable_ok [OF assms(1,2)] by (simp_all add: sys_ok_def)
  have pos: "known (s_hub s) (s_hist s) m pos" "\<forall>item \<in> set (w_queue ?v). need m (q_transaction item) = Inr True \<longrightarrow>
      \<not> at_or_before (Cursor_of (q_transaction item)) pos"
    using watch_okD(4) [OF ok(2)] assms(3,5) by simp_all
  have nd: "need m t = Inr True" "relevant ?v t" using assms(8) by (simp_all add: needed_def)
  have "t \<notin> set ts" using known_not_passed [OF pos(1) ok(1) wal_ordered_one [OF assms(6)] nd(1)] assms(9) by blast
  then have t: "t \<in> set (offered s w m (length (s_hist s)))" using assms(7) by simp
  have mode: "mode_of (th_pc (s_threads s w)) = Some m" using assms(3) by simp
  obtain rest where eq: "batches (th_sent (s_threads s w)) @ rest = expected ?v m (offered s w m (length (s_hist s)))"
    and rest: "rest = expected ?v m (queued_txns ?v)"
    using watch_accounted [OF assms(1,2) mode] assms(3,4) by auto
  have "batch_for ?v t \<in> set (expected ?v m (offered s w m (length (s_hist s))))" using t assms(8) by (simp add: expected_def)
  moreover have "batch_for ?v t \<notin> set rest"
  proof
    assume "batch_for ?v t \<in> set rest"
    then obtain item where "item \<in> set (w_queue ?v)" "needed ?v m (q_transaction item)"
      "Cursor_of (q_transaction item) = Cursor_of t" by (auto simp: rest expected_def batch_for_def)
    then show False using pos(2) assms(9) by (auto simp: needed_def)
  qed
  ultimately show ?thesis unfolding eq [symmetric] by simp
qed

theorem progress_truthful_witness:
  "batch_for (sample_watcher ''acme'') (txn_of 11 4 []) \<in> set (batches (th_sent (s_threads good_sys 0)))"
  using progress_truthful [OF small_hub_New good_sys_reachable good_sys_simps(1), of "[]" "txn_of 11 4 []"]
  by (simp add: good_sys_simps offered_def wal_ordered_def txn_of_def item_txn_def at_or_before_def at_lsn_def needed_def relevant_def
      Covers_def snapshot_at_def projection_changes_def sample_watcher_def items_projection_def items_spec_def item_change_def
      gm_get_def includes_xid_def widen_def Let_def)

text \<open>The run goes on: the report is sent, a second transaction arrives, and its batch and the next report are sent.\<close>

definition longer_run :: "action list" where
  "longer_run = steps 0 [SendOk] @ [Deliver (txn_of 12 6 [])] @ steps 0 [TakeTick, Run, Run, SendOk, Run, SendOk]"

definition longer_sys :: sys where
  "longer_sys = (case run digit_lsn longer_run good_sys of Some s \<Rightarrow> s | None \<Rightarrow> start_sys small_hub)"

lemma longer_sys_reachable: "reachable digit_lsn small_hub longer_sys"
  using run_reachable [OF good_sys_reachable, of longer_run] reach_init [of digit_lsn small_hub]
  by (auto simp: longer_sys_def split: option.splits)

lemma longer_sys_sent:
  "map bt_cursor (batches (th_sent (s_threads longer_sys 0))) = [at_lsn 5, at_lsn 7]"
  "positions (th_sent (s_threads longer_sys 0)) = [at_lsn 5, at_lsn 7]"
  by code_simp+

theorem stream_wellformed_witness:
  "stage_of (th_sent (s_threads longer_sys 0)) \<noteq> Malformed \<and>
    sorted_wrt (ordered_pair (loose (th_sent (s_threads longer_sys 0)))) (th_sent (s_threads longer_sys 0)) \<and>
    map bt_cursor (batches (th_sent (s_threads longer_sys 0))) = [at_lsn 5, at_lsn 7] \<and>
    positions (th_sent (s_threads longer_sys 0)) = [at_lsn 5, at_lsn 7]"
  using stream_wellformed [OF small_hub_New longer_sys_reachable, of 0] by (simp add: longer_sys_sent)


section \<open>The replay window\<close>

text \<open>C7: the ring holds every transaction a resuming watcher still needs. In every interleaving, whenever the hub takes a
  cursor for replayable, what it has evicted commits before the cursor, so the transactions of its whole
  history that commit at or after the cursor are exactly those of the ring that do, in order; comparing them with the cursor
  never fails; and the ring holds at most \<open>maxReplay\<close> transactions.\<close>

theorem replay_complete:
  assumes "New cfg b = Inr h" and "reachable parse_lsn h s" and "replayableLocked (s_hub s) c"
  shows "filter (\<lambda>t. After t c = Inr True) (s_hist s) = filter (\<lambda>t. After t c = Inr True) (ring (s_hub s)) \<and>
    (\<exists>evicted. s_hist s = evicted @ ring (s_hub s)) \<and>
    list_all (\<lambda>t. is_ok (After t c)) (ring (s_hub s)) \<and> int (length (ring (s_hub s))) \<le> maxReplay (s_hub s)"
proof -
  have ok: "window_ok (sourceID h) (s_hist s) (s_hub s)" using reachable_ok [OF assms(1,2)] by (simp add: sys_ok_def)
  then have "\<exists>evicted. s_hist s = evicted @ ring (s_hub s)" by (auto simp: window_ok_def window_core_def)
  with window_replay [OF ok assms(3)] show ?thesis by blast
qed

definition tiny_config :: config where
  "tiny_config = small_config\<lparr>cfg_maxReplay := 1\<rparr>"

definition tiny_hub :: hub where
  "tiny_hub = (sample_hub 1 1)\<lparr>heap := (\<lambda>_. zeroWatcher)\<rparr>"

lemma tiny_hub_New: "New tiny_config True = Inr tiny_hub"
  by (simp add: New_def tiny_config_def small_config_def tiny_hub_def sample_hub_def items_projection_def items_spec_def Let_def)

text \<open>A snapshot sets the floor at 3; the second transaction evicts the first, and the floor moves to 5.\<close>

definition window_run :: "action list" where
  "window_run = snapshot_steps 0 3 @ [Deliver (txn_of 11 4 []), Deliver (txn_of 12 6 [])]"

definition window_sys :: sys where
  "window_sys = (case run digit_lsn window_run (start_sys tiny_hub) of Some s \<Rightarrow> s | None \<Rightarrow> start_sys tiny_hub)"

lemma window_sys_reachable: "reachable digit_lsn tiny_hub window_sys"
proof -
  have "case run digit_lsn window_run (start_sys tiny_hub) of None \<Rightarrow> False | Some s \<Rightarrow> True" by code_simp
  then show ?thesis
    using run_reachable [OF reach_init, of digit_lsn window_run tiny_hub] by (auto simp: window_sys_def split: option.splits)
qed

lemma window_sys_simps:
  "replayableLocked (s_hub window_sys) (at_lsn 5)" "\<not> replayableLocked (s_hub window_sys) (at_lsn 3)"
  "s_hist window_sys = [txn_of 11 4 [], txn_of 12 6 []]" "ring (s_hub window_sys) = [txn_of 12 6 []]"
  by code_simp+

theorem replay_complete_witness:
  "\<not> replayableLocked (s_hub window_sys) (at_lsn 3) \<and> replayableLocked (s_hub window_sys) (at_lsn 5) \<and>
   filter (\<lambda>t. After t (at_lsn 5) = Inr True) [txn_of 11 4 [], txn_of 12 6 []] =
   filter (\<lambda>t. After t (at_lsn 5) = Inr True) [txn_of 12 6 []]"
  using replay_complete [OF tiny_hub_New window_sys_reachable window_sys_simps(1)] window_sys_simps(1,2)
  unfolding window_sys_simps(3,4) by (elim conjE) (intro conjI)

section \<open>Positions reported too early\<close>

definition lost_run :: "action list" where
  "lost_run = snapshot_steps 0 3 @ [Deliver (txn_of 11 4 []), Deliver (txn_of 12 8 [])] @
     steps 0 [SendOk, Run, Run, Run, SendOk, Run, SendOk, TakeOverflow, SendErr (Errorf []), Run] @
     [Call 1 (watch_items ''9'')] @ steps 1 [Run, Run, Run, Run, Run, SendOk]"

text \<open>A watcher that was ended is told that it is complete. Its queue overflows on the transaction at
  cursor 9 while it has not yet entered \<open>live\<close>; there it reads the hub's position 9, drains the queue and sends
  \<open>Progress\<close> at 9 before it looks at \<open>overflow\<close>. When the connection then fails before the \<open>Resync\<close>, the
  client resumes at 9, and the batch of that transaction is in neither stream.\<close>

theorem progress_after_overflow:
  "case run digit_lsn lost_run (start_sys small_hub) of
     None \<Rightarrow> False
   | Some s \<Rightarrow> relevant (heap (s_hub s) 0) (txn_of 12 8 []) \<and>
       map bt_cursor (batches (th_sent (s_threads s 0))) = [at_lsn 5] \<and>
       Progress (at_lsn 9) \<in> set (th_sent (s_threads s 0)) \<and>
       th_sent (s_threads s 1) = [Progress (at_lsn 9)]"
  by code_simp

definition race_run :: "action list" where
  "race_run = Call 0 (watch_items []) # steps 0 [Run, Run, SendOk, SnapshotReturns (Inr (snapshot_at 3)), Run] @
     [Deliver (txn_of 11 4 [shape_event])] @
     steps 0 [Run, Run, SendOk, Run, Run, Run, SendOk, TakeOverflow, SendErr (Errorf []), Run] @
     [Call 1 (watch_items ''5'')] @ steps 1 [Run, Run, Run, Run, Run, SendOk]"

text \<open>The mark of a change of shape can be lost. The change arrives after \<open>snapshot\<close> checked
  \<open>overflow\<close> and before it deletes the mark of its table: a snapshot read under the old shape then
  clears the mark, and a watch that resumes at the position of the change is accepted.\<close>

theorem stale_mark_race:
  "case run digit_lsn race_run (start_sys small_hub) of
     None \<Rightarrow> False
   | Some s \<Rightarrow> w_reason (heap (s_hub s) 0) = Some ResyncSchemaChanged \<and> stale (s_hub s) = [] \<and>
       th_sent (s_threads s 0) = [SnapshotBegin, SnapshotEnd, Progress (at_lsn 5)] \<and>
       th_sent (s_threads s 1) = [Progress (at_lsn 5)] \<and> 1 \<in> set (watchers (s_hub s))"
  by code_simp

definition lagging_run :: "action list" where
  "lagging_run = snapshot_steps 0 7 @ steps 0 [SendOk, Run, Run, Run, SendOk] @ [Deliver (txn_of 11 4 [])] @
     steps 0 [TakeTick, Run, Run, SendOk, Run]"

text \<open>Before the hub has received anything, \<open>live\<close> reports the snapshot's cursor. A transaction
  that committed before it and was not yet visible to the snapshot is then delivered after the
  \<open>Progress\<close> that covers it.\<close>

theorem progress_before_first_receive:
  "case run digit_lsn lagging_run (start_sys small_hub) of
     None \<Rightarrow> False
   | Some s \<Rightarrow> map (\<lambda>e. case e of Progress c \<Rightarrow> Some c | Batch b \<Rightarrow> Some (bt_cursor b) | _ \<Rightarrow> None) (th_sent (s_threads s 0)) =
       [None, None, None, Some (at_lsn 7), Some (at_lsn 5)]"
  by code_simp

definition evicting_run :: "action list" where
  "evicting_run = [Deliver (txn_of 11 4 []), Deliver (txn_of 12 6 [])] @ snapshot_steps 0 3 @
     steps 0 [SendOk, SendOk, Run, Run, Run, SendOk]"

text \<open>A commit that is streamed before it becomes visible can be lost. With a replay window of one, the transaction at
  cursor 5 is evicted before the watch registers; the snapshot does not see it, and neither does the ring: its batch is
  never sent, and \<open>Progress\<close> at 7 passes it.\<close>

theorem evicted_commit_lost:
  "case run digit_lsn evicting_run (start_sys tiny_hub) of
     None \<Rightarrow> False
   | Some s \<Rightarrow> relevant (heap (s_hub s) 0) (txn_of 11 4 []) \<and> Covers (snapshot_at 3) (txn_of 11 4 []) = Inr False \<and>
       map bt_cursor (batches (th_sent (s_threads s 0))) = [at_lsn 7] \<and>
       Progress (at_lsn 7) \<in> set (th_sent (s_threads s 0))"
  by code_simp

end
