(* ===== verification/Wire.thy ===== *)
theory Wire
  imports Errors "HOL-Library.Finite_Map"
begin

text \<open>
  The messages of the v1 API (\<open>api/watch/v1/watch.proto\<close>) as values, and the gRPC status codes. Go
  reads an unset \<open>oneof\<close> as nil, here \<open>KindUnset\<close> and \<open>EventUnset\<close>.
\<close>

datatype wire_value = WText string | WNull | WUnchangedToast | KindUnset

type_synonym wire_row = "(string, wire_value) fmap"

datatype wire_operation = OPERATION_UNSPECIFIED | OPERATION_INSERT | OPERATION_UPDATE | OPERATION_DELETE

record wire_change =
  wc_operation :: wire_operation
  wc_table :: string
  wc_key :: "(string, string) fmap"
  wc_values :: wire_row

record wire_batch =
  wb_cursor :: string
  wb_changes :: "wire_change list"
  wb_commitTime :: "gotime option"

datatype wire_reason =
    RESYNC_REASON_UNSPECIFIED | RESYNC_REASON_CURSOR_UNAVAILABLE | RESYNC_REASON_SLOW_WATCHER
  | RESYNC_REASON_SNAPSHOT_WINDOW_CLOSED | RESYNC_REASON_SOURCE_STOPPED | RESYNC_REASON_SCHEMA_CHANGED

datatype wire_event =
    WSnapshotBegin
  | WSnapshotRows "wire_row list"
  | WSnapshotEnd
  | WBatch wire_batch
  | WProgress string
  | WResync wire_reason
  | EventUnset

datatype wire_order = CURSOR_ORDER_UNSPECIFIED | CURSOR_ORDER_BEFORE | CURSOR_ORDER_EQUAL | CURSOR_ORDER_AFTER

record wire_request =
  wr_projection :: string
  wr_scope :: string
  wr_resumeCursor :: string

datatype code =
    OK | Canceled | Unknown | InvalidArgument | DeadlineExceeded | NotFound | AlreadyExists
  | PermissionDenied | ResourceExhausted | FailedPrecondition | Aborted | OutOfRange
  | Unimplemented | Internal | Unavailable | DataLoss | Unauthenticated

end
