(* ===== verification/Server.thy ===== *)
theory Server
  imports Wire Watch
begin

text \<open>
  The gRPC server (\<open>internal/server/server.go\<close>): cursors on the wire, the translation of watch
  events into messages, the packing of snapshot rows, and the mapping of errors to status codes.

  Third-party code appears as arguments: \<open>lsn_string\<close> and \<open>parse_lsn\<close> (\<open>pglogrepl\<close>), \<open>row_size\<close>
  (\<open>proto.Size\<close>), \<open>marshal_ok\<close> (whether \<open>proto.Marshal\<close> succeeds), \<open>as_status\<close> (\<open>status.FromError\<close>)
  and \<open>fails\<close>, which gives the error of \<open>stream.Send\<close> after the messages sent so far. A handler
  returns the messages sent and an optional error.
\<close>

section \<open>Configuration\<close>

definition cursorSeparator :: char where
  "cursorSeparator = CHR ''@''"

definition defaultMaxRowsMessageBytes :: int where
  "defaultMaxRowsMessageBytes = 1048576"

record server =
  srv_sourceID :: string
  srv_maxRowsMessageBytes :: int

definition NewServer :: "string \<Rightarrow> int \<Rightarrow> bool \<Rightarrow> goerror + server" where
  "NewServer src maxBytes has_watcher =
     (if src = [] \<or> contains src [cursorSeparator] \<or> \<not> has_watcher \<or> maxBytes < 0
      then Inl (Sentinel ErrInvalidServerConfig)
      else Inr \<lparr>srv_sourceID = src,
        srv_maxRowsMessageBytes = (if maxBytes = 0 then defaultMaxRowsMessageBytes else maxBytes)\<rparr>)"

section \<open>Cursors on the wire\<close>

definition encodeCursor :: "(lsn \<Rightarrow> string) \<Rightarrow> server \<Rightarrow> cursor \<Rightarrow> string" where
  "encodeCursor lsn_string s c = srv_sourceID s @ [cursorSeparator] @ cursorString lsn_string c"

definition decodeCursor :: "(string \<Rightarrow> lsn option) \<Rightarrow> server \<Rightarrow> string \<Rightarrow> goerror + cursor" where
  "decodeCursor parse_lsn s txt =
     (case cut_on cursorSeparator txt of
        None \<Rightarrow> Inl (Errorf [])
      | Some (src, lsnText) \<Rightarrow>
          if src \<noteq> srv_sourceID s then Inl (Errorf [])
          else (case ParseCursor parse_lsn (srv_sourceID s) lsnText of
                  Inl e \<Rightarrow> Inl (Errorf [])
                | Inr c \<Rightarrow> Inr c))"

definition order_of :: "int \<Rightarrow> wire_order" where
  "order_of i = (if i = -1 then CURSOR_ORDER_BEFORE else if i = 0 then CURSOR_ORDER_EQUAL
     else if i = 1 then CURSOR_ORDER_AFTER else CURSOR_ORDER_UNSPECIFIED)"

definition CompareCursors :: "(string \<Rightarrow> lsn option) \<Rightarrow> server \<Rightarrow> string \<Rightarrow> string \<Rightarrow> code + wire_order" where
  "CompareCursors parse_lsn s left right =
     (case decodeCursor parse_lsn s left of
        Inl e \<Rightarrow> Inl InvalidArgument
      | Inr l \<Rightarrow> (case decodeCursor parse_lsn s right of
            Inl e \<Rightarrow> Inl InvalidArgument
          | Inr r \<Rightarrow> (case Compare l r of Inl e \<Rightarrow> Inl InvalidArgument | Inr i \<Rightarrow> Inr (order_of i))))"

text \<open>What \<open>Watch\<close> passes on to the hub, or the status it refuses the request with.\<close>

definition watch_request ::
    "(lsn \<Rightarrow> string) \<Rightarrow> (string \<Rightarrow> lsn option) \<Rightarrow> server \<Rightarrow> wire_request \<Rightarrow> code + request" where
  "watch_request lsn_string parse_lsn s req =
     rbind (if wr_resumeCursor req \<noteq> [] then
              (case decodeCursor parse_lsn s (wr_resumeCursor req) of
                 Inl e \<Rightarrow> Inl InvalidArgument
               | Inr c \<Rightarrow> Inr (cursorString lsn_string c))
            else Inr [])
       (\<lambda>resume. Inr \<lparr>req_projection = wr_projection req, req_scope = wr_scope req, req_resumeCursor = resume\<rparr>)"

section \<open>Converting changes and rows\<close>

definition operations :: "string \<Rightarrow> wire_operation option" where
  "operations oper = (if oper = OperationInsert then Some OPERATION_INSERT
     else if oper = OperationUpdate then Some OPERATION_UPDATE
     else if oper = OperationDelete then Some OPERATION_DELETE else None)"

text \<open>The loop of \<open>convertChangeValues\<close>, with \<open>i\<close> the index of the head of the values.\<close>

fun convert_values :: "string list \<Rightarrow> val list \<Rightarrow> nat \<Rightarrow> wire_row \<Rightarrow> goerror + wire_row" where
  "convert_values columns [] i converted = Inr converted"
| "convert_values columns (v # vs) i converted =
     rbind (at_index columns i) (\<lambda>column.
       case Kind v of
         ValueText \<Rightarrow> convert_values columns vs (Suc i) (fmupd column (WText (Text v)) converted)
       | ValueNull \<Rightarrow> convert_values columns vs (Suc i) (fmupd column WNull converted)
       | ValueUnchangedToast \<Rightarrow> convert_values columns vs (Suc i) (fmupd column WUnchangedToast converted)
       | OtherKind k \<Rightarrow> Inl (Errorf []))"

definition convertChangeValues :: "string list \<Rightarrow> val list \<Rightarrow> goerror + wire_row" where
  "convertChangeValues columns vals = (if vals = [] then Inr fmempty else convert_values columns vals 0 fmempty)"

definition convertChange :: "change \<Rightarrow> goerror + wire_change" where
  "convertChange ch =
     (case operations (Operation ch) of
        None \<Rightarrow> Inl (Errorf [])
      | Some oper \<Rightarrow> rbind (convertChangeValues (Columns ch) (Values ch)) (\<lambda>vals.
          Inr \<lparr>wc_operation = oper, wc_table = Table ch, wc_key = fmap_of_list (Key ch), wc_values = vals\<rparr>))"

definition convertBatch :: "(lsn \<Rightarrow> string) \<Rightarrow> server \<Rightarrow> batch \<Rightarrow> goerror + wire_event" where
  "convertBatch lsn_string s b =
     rbind (rmap convertChange (bt_changes b)) (\<lambda>changes.
       Inr (WBatch \<lparr>wb_cursor = encodeCursor lsn_string s (bt_cursor b), wb_changes = changes,
         wb_commitTime = (if bt_commitTime b = 0 then None else Some (bt_commitTime b))\<rparr>))"

text \<open>A snapshot row's values are text or NULL by their type here, so the error that the code keeps for any other Go value
  does not arise.\<close>

definition convertRow :: "row \<Rightarrow> wire_row" where
  "convertRow r = fmap_of_list (map (\<lambda>(column, v). (column, case v of None \<Rightarrow> WNull | Some t \<Rightarrow> WText t)) r)"

section \<open>Batches shared by several watchers\<close>

text \<open>A message stands for what its receiver decodes. Marshalling it once and sending the bytes as unknown fields
  does not change that, so what is left of \<open>encodedMessage\<close> is the error of \<open>proto.Marshal\<close>.\<close>

definition encodedMessage :: "(wire_event \<Rightarrow> bool) \<Rightarrow> wire_event \<Rightarrow> goerror + wire_event" where
  "encodedMessage marshal_ok m = (if marshal_ok m then Inr m else Inl (Errorf []))"

text \<open>\<open>Memo.Load\<close>: the memos that have been computed, by identity.\<close>

type_synonym memo_table = "nat \<Rightarrow> (goerror + wire_event) option"

definition Load :: "memo_table \<Rightarrow> nat option \<Rightarrow> goerror + wire_event \<Rightarrow> memo_table \<times> (goerror + wire_event)" where
  "Load table memo compute =
     (case memo of
        None \<Rightarrow> (table, compute)
      | Some n \<Rightarrow> (case table n of
            Some r \<Rightarrow> (table, r)
          | None \<Rightarrow> (table(n := Some compute), compute)))"

definition batchMessage ::
    "(lsn \<Rightarrow> string) \<Rightarrow> (wire_event \<Rightarrow> bool) \<Rightarrow> server \<Rightarrow> memo_table \<Rightarrow> batch \<Rightarrow> memo_table \<times> (goerror + wire_event)" where
  "batchMessage lsn_string marshal_ok s table b =
     (if bt_memo b = None then (table, convertBatch lsn_string s b)
      else Load table (bt_memo b) (rbind (convertBatch lsn_string s b) (encodedMessage marshal_ok)))"

section \<open>Sending\<close>

definition sendMessage ::
    "(wire_event list \<Rightarrow> goerror option) \<Rightarrow> wire_event list \<Rightarrow> wire_event \<Rightarrow> wire_event list \<times> goerror option" where
  "sendMessage fails sent m = (case fails sent of Some e \<Rightarrow> (sent, Some e) | None \<Rightarrow> (sent @ [m], None))"

definition flush ::
    "(wire_event list \<Rightarrow> goerror option) \<Rightarrow> wire_event list \<Rightarrow> wire_row list \<Rightarrow> wire_event list \<times> goerror option" where
  "flush fails sent message = (if message = [] then (sent, None) else sendMessage fails sent (WSnapshotRows message))"

fun send_rows ::
    "(wire_row \<Rightarrow> int) \<Rightarrow> (wire_event list \<Rightarrow> goerror option) \<Rightarrow> int \<Rightarrow> row list \<Rightarrow> wire_event list \<Rightarrow> wire_row list \<Rightarrow> int
      \<Rightarrow> wire_event list \<times> goerror option" where
  "send_rows row_size fails maxBytes [] sent message messageBytes = flush fails sent message"
| "send_rows row_size fails maxBytes (r # rs) sent message messageBytes =
     (let converted = convertRow r; rowBytes = row_size converted
      in if messageBytes + rowBytes > maxBytes then
           (case flush fails sent message of
              (sent', Some e) \<Rightarrow> (sent', Some e)
            | (sent', None) \<Rightarrow> send_rows row_size fails maxBytes rs sent' [converted] rowBytes)
         else send_rows row_size fails maxBytes rs sent (message @ [converted]) (messageBytes + rowBytes))"

definition sendRows ::
    "(wire_row \<Rightarrow> int) \<Rightarrow> (wire_event list \<Rightarrow> goerror option) \<Rightarrow> server \<Rightarrow> row list \<Rightarrow> wire_event list
      \<Rightarrow> wire_event list \<times> goerror option" where
  "sendRows row_size fails s rs sent = send_rows row_size fails (srv_maxRowsMessageBytes s) rs sent [] 0"

fun resyncReasons :: "resyncReason \<Rightarrow> wire_reason" where
  "resyncReasons ResyncCursorUnavailable = RESYNC_REASON_CURSOR_UNAVAILABLE"
| "resyncReasons ResyncSlowWatcher = RESYNC_REASON_SLOW_WATCHER"
| "resyncReasons ResyncSnapshotWindowClosed = RESYNC_REASON_SNAPSHOT_WINDOW_CLOSED"
| "resyncReasons ResyncSourceStopped = RESYNC_REASON_SOURCE_STOPPED"
| "resyncReasons ResyncSchemaChanged = RESYNC_REASON_SCHEMA_CHANGED"

definition send_event ::
    "(lsn \<Rightarrow> string) \<Rightarrow> (wire_row \<Rightarrow> int) \<Rightarrow> (wire_event \<Rightarrow> bool) \<Rightarrow> (wire_event list \<Rightarrow> goerror option) \<Rightarrow> server
      \<Rightarrow> memo_table \<Rightarrow> wire_event list \<Rightarrow> event \<Rightarrow> memo_table \<times> wire_event list \<times> goerror option" where
  "send_event lsn_string row_size marshal_ok fails s table sent ev =
     (case ev of
        SnapshotBegin \<Rightarrow> (table, sendMessage fails sent WSnapshotBegin)
      | SnapshotRows rs \<Rightarrow> (table, sendRows row_size fails s rs sent)
      | SnapshotEnd \<Rightarrow> (table, sendMessage fails sent WSnapshotEnd)
      | Batch b \<Rightarrow>
          (case batchMessage lsn_string marshal_ok s table b of
             (table', Inl e) \<Rightarrow> (table', sent, Some e)
           | (table', Inr m) \<Rightarrow> (table', sendMessage fails sent m))
      | Progress c \<Rightarrow> (table, sendMessage fails sent (WProgress (encodeCursor lsn_string s c)))
      | Resync r \<Rightarrow> (table, sendMessage fails sent (WResync (resyncReasons r))))"

section \<open>Status codes\<close>

definition status ::
    "(goerror \<Rightarrow> code option) \<Rightarrow> code option \<Rightarrow> goerror option \<Rightarrow> code" where
  "status as_status ctx_code err =
     (case err of
        None \<Rightarrow> OK
      | Some e \<Rightarrow>
          (case ctx_code of
             Some c \<Rightarrow> c
           | None \<Rightarrow>
               (case as_status e of
                  Some c \<Rightarrow> c
                | None \<Rightarrow>
                    if errors_is e ErrUnknownProjection then NotFound
                    else if errors_is e ErrInvalidCursor then InvalidArgument
                    else if errors_is e ErrSourceUnavailable \<or> errors_is e ErrSourceNotStarted \<or> errors_is e ErrSlotInUse
                    then Unavailable
                    else if errors_is e ErrInvalidReaderConfig \<or> errors_is e ErrInsufficientPrivileges
                    then FailedPrecondition
                    else Internal)))"

end
