(* ===== verification/Store.thy ===== *)
theory Store
  imports Errors "HOL-Library.Finite_Map"
begin

text \<open>
  The Go SDK's data and its in-memory store (\<open>sdk/go/watchd/types.go\<close>, \<open>store.go\<close>). Go maps whose
  iteration order cannot be seen are finite maps, so that two maps with the same entries are equal.

  A method that may fail after it has changed the store returns the store it leaves behind and an
  optional error.
\<close>

section \<open>Values, rows and batches\<close>

record sdk_value =
  v_Text :: string
  v_Null :: bool
  v_Unchanged :: bool

type_synonym sdk_row = "(string, sdk_value) fmap"

datatype sdk_operation = Insert | Update | Delete | OtherOperation

record sdk_change =
  c_Operation :: sdk_operation
  c_Table :: string
  c_Key :: "(string, string) fmap"
  c_Values :: sdk_row

record sdk_batch =
  b_Cursor :: string
  b_CommitTime :: gotime
  b_Changes :: "sdk_change list"

section \<open>The store\<close>

record memoryStore =
  primaryKey :: "string list"
  rows :: "(string, sdk_row) fmap"
  stored_cursor :: string

definition NewMemoryStore :: "string list \<Rightarrow> memoryStore" where
  "NewMemoryStore pk = \<lparr>primaryKey = pk, rows = fmempty, stored_cursor = []\<rparr>"

fun key_parts :: "string list \<Rightarrow> (string, string) fmap \<Rightarrow> goerror + string list" where
  "key_parts [] key = Inr []"
| "key_parts (column # columns) key =
     (case fmlookup key column of
        None \<Rightarrow> Inl (Errorf [Sentinel ErrMissingKey])
      | Some v \<Rightarrow> rbind (key_parts columns key) (\<lambda>parts. Inr (v # parts)))"

definition NUL :: char where
  "NUL = CHR 0x00"

text \<open>\<open>strings.Join(parts, "\x00")\<close>.\<close>

abbreviation join_nul :: "string list \<Rightarrow> string" where
  "join_nul \<equiv> join_on NUL"

definition keyOf :: "string list \<Rightarrow> (string, string) fmap \<Rightarrow> goerror + string" where
  "keyOf pk key = rbind (key_parts pk key) (\<lambda>parts. Inr (join_nul parts))"

definition Get :: "memoryStore \<Rightarrow> (string, string) fmap \<Rightarrow> sdk_row option" where
  "Get s key = (case keyOf (primaryKey s) key of Inl e \<Rightarrow> None | Inr i \<Rightarrow> fmlookup (rows s) i)"

definition SaveCursor :: "memoryStore \<Rightarrow> string \<Rightarrow> memoryStore" where
  "SaveCursor s cursor = s\<lparr>stored_cursor := cursor\<rparr>"

text \<open>The row an insert or update leaves: each column of the change, with an unchanged one taken
  from the current row, and left out when that has none.\<close>

definition merged :: "sdk_row option \<Rightarrow> sdk_row \<Rightarrow> sdk_row" where
  "merged current vals =
     (let kept = (\<lambda>column. case current of None \<Rightarrow> None | Some r \<Rightarrow> fmlookup r column)
      in fmmap_keys (\<lambda>column v. if v_Unchanged v then (case kept column of Some k \<Rightarrow> k | None \<Rightarrow> v) else v)
           (fmfilter (\<lambda>column. \<not> (case fmlookup vals column of None \<Rightarrow> False | Some v \<Rightarrow> v_Unchanged v \<and> kept column = None)) vals))"

definition apply_change :: "string list \<Rightarrow> (string, sdk_row) fmap \<Rightarrow> sdk_change \<Rightarrow> goerror + (string, sdk_row) fmap" where
  "apply_change pk rs ch =
     rbind (keyOf pk (c_Key ch)) (\<lambda>i.
       case c_Operation ch of
         Delete \<Rightarrow> Inr (fmdrop i rs)
       | Insert \<Rightarrow> Inr (fmupd i (merged (fmlookup rs i) (c_Values ch)) rs)
       | Update \<Rightarrow> Inr (fmupd i (merged (fmlookup rs i) (c_Values ch)) rs)
       | OtherOperation \<Rightarrow> Inl (Errorf []))"

fun apply_changes :: "string list \<Rightarrow> (string, sdk_row) fmap \<Rightarrow> sdk_change list \<Rightarrow> (string, sdk_row) fmap \<times> goerror option" where
  "apply_changes pk rs [] = (rs, None)"
| "apply_changes pk rs (ch # chs) =
     (case apply_change pk rs ch of Inl e \<Rightarrow> (rs, Some e) | Inr rs' \<Rightarrow> apply_changes pk rs' chs)"

definition Apply :: "memoryStore \<Rightarrow> sdk_batch \<Rightarrow> memoryStore \<times> goerror option" where
  "Apply s b =
     (case apply_changes (primaryKey s) (rows s) (b_Changes b) of
        (rs, Some e) \<Rightarrow> (s\<lparr>rows := rs\<rparr>, Some e)
      | (rs, None) \<Rightarrow> (s\<lparr>rows := rs, stored_cursor := b_Cursor b\<rparr>, None))"

section \<open>Snapshots\<close>

text \<open>\<open>memorySnapshot\<close>: the rows collected beside the store, whose primary key it reads.\<close>

type_synonym memorySnapshot = "(string, sdk_row) fmap"

definition BeginSnapshot :: memorySnapshot where
  "BeginSnapshot = fmempty"

fun row_key :: "string list \<Rightarrow> sdk_row \<Rightarrow> (string, string) fmap \<Rightarrow> goerror + (string, string) fmap" where
  "row_key [] r key = Inr key"
| "row_key (column # columns) r key =
     (case fmlookup r column of
        None \<Rightarrow> Inl (Errorf [Sentinel ErrMissingKey])
      | Some v \<Rightarrow>
          if v_Null v \<or> v_Unchanged v then Inl (Errorf [Sentinel ErrMissingKey])
          else row_key columns r (fmupd column (v_Text v) key))"

definition put_row :: "string list \<Rightarrow> memorySnapshot \<Rightarrow> sdk_row \<Rightarrow> goerror + memorySnapshot" where
  "put_row pk w r =
     rbind (row_key pk r fmempty) (\<lambda>key. rbind (keyOf pk key) (\<lambda>i. Inr (fmupd i r w)))"

fun Put :: "string list \<Rightarrow> memorySnapshot \<Rightarrow> sdk_row list \<Rightarrow> memorySnapshot \<times> goerror option" where
  "Put pk w [] = (w, None)"
| "Put pk w (r # rs) = (case put_row pk w r of Inl e \<Rightarrow> (w, Some e) | Inr w' \<Rightarrow> Put pk w' rs)"

definition Commit :: "memoryStore \<Rightarrow> memorySnapshot \<Rightarrow> memoryStore" where
  "Commit s w = s\<lparr>rows := w, stored_cursor := []\<rparr>"

section \<open>Keys\<close>

lemma join_nul_inject:
  assumes "list_all (\<lambda>p. NUL \<notin> set p) ps" "list_all (\<lambda>p. NUL \<notin> set p) qs" "length ps = length qs"
    "join_nul ps = join_nul qs"
  shows "ps = qs"
  using assms by (intro join_on_inject [of ps qs NUL]) (auto simp: list_all_iff)

lemma key_parts_eq:
  "key_parts pk key = Inr parts \<longleftrightarrow> set pk \<subseteq> fmdom' key \<and> parts = map (\<lambda>c. the (fmlookup key c)) pk"
  by (induction pk arbitrary: parts) (auto simp: rbind_Inr_iff fmlookup_dom'_iff split: option.splits)

text \<open>With a primary key that every row has, and values without NUL characters (which PostgreSQL text
  never has), two rows get the same map key exactly when they agree on every primary-key column.\<close>

theorem keyOf_injective:
  assumes "keyOf pk k = Inr i" and "keyOf pk l = Inr j"
    and "\<forall>c \<in> set pk. NUL \<notin> set (the (fmlookup k c)) \<and> NUL \<notin> set (the (fmlookup l c))"
  shows "i = j \<longleftrightarrow> (\<forall>c \<in> set pk. fmlookup k c = fmlookup l c)"
proof -
  have k: "set pk \<subseteq> fmdom' k" "i = join_nul (map (\<lambda>c. the (fmlookup k c)) pk)"
    and l: "set pk \<subseteq> fmdom' l" "j = join_nul (map (\<lambda>c. the (fmlookup l c)) pk)"
    using assms(1,2) by (auto simp: keyOf_def rbind_Inr_iff key_parts_eq)
  have "i = j \<longleftrightarrow> map (\<lambda>c. the (fmlookup k c)) pk = map (\<lambda>c. the (fmlookup l c)) pk"
    unfolding k(2) l(2) using assms(3) join_nul_inject [of "map (\<lambda>c. the (fmlookup k c)) pk" "map (\<lambda>c. the (fmlookup l c)) pk"]
    by (auto simp: list_all_iff simp del: map_eq_conv)
  also have "\<dots> \<longleftrightarrow> (\<forall>c \<in> set pk. the (fmlookup k c) = the (fmlookup l c))" by simp
  also have "\<dots> \<longleftrightarrow> (\<forall>c \<in> set pk. fmlookup k c = fmlookup l c)"
    using k(1) l(1) by (fastforce simp: fmlookup_dom'_iff subset_iff)
  finally show ?thesis .
qed

definition key2 :: "string \<Rightarrow> string \<Rightarrow> (string, string) fmap" where
  "key2 a b = fmupd ''tenant'' a (fmupd ''id'' b fmempty)"

theorem keyOf_injective_witness:
  "keyOf [''tenant'', ''id''] (key2 ''a'' ''bc'') \<noteq> keyOf [''tenant'', ''id''] (key2 ''ab'' ''c'')"
  using keyOf_injective [of "[''tenant'', ''id'']" "key2 ''a'' ''bc''" "''a'' @ NUL # ''bc''" "key2 ''ab'' ''c''" "''ab'' @ NUL # ''c''"]
  by (simp add: keyOf_def key2_def NUL_def)

section \<open>Applying changes again\<close>

lemma fmlookup_merged:
  "fmlookup (merged current vals) c =
     (case fmlookup vals c of
        None \<Rightarrow> None
      | Some v \<Rightarrow> if v_Unchanged v then (case current of None \<Rightarrow> None | Some r \<Rightarrow> fmlookup r c) else Some v)"
  by (auto simp: merged_def Let_def split: option.splits)

text \<open>The content of one column of one row; a missing row has no columns.\<close>

definition cell :: "(string, sdk_row) fmap \<Rightarrow> string \<Rightarrow> string \<Rightarrow> sdk_value option" where
  "cell rs i c = (case fmlookup rs i of None \<Rightarrow> None | Some r \<Rightarrow> fmlookup r c)"

lemma rows_eqI:
  assumes "\<And>i. i |\<in>| fmdom rs \<longleftrightarrow> i |\<in>| fmdom rs'" "\<And>i c. cell rs i c = cell rs' i c"
  shows "rs = rs'"
proof (rule fmap_ext)
  fix i
  show "fmlookup rs i = fmlookup rs' i"
  proof (cases "fmlookup rs i")
    case None
    then show ?thesis using assms(1) [of i] by (metis fmdom_notD fmdom_notI)
  next
    case (Some r)
    then obtain r' where r': "fmlookup rs' i = Some r'" using assms(1) [of i] by (metis fmdomI fmlookup_dom_iff)
    have "r = r'" by (rule fmap_ext) (use assms(2) [of i] Some r' in \<open>simp add: cell_def\<close>)
    then show ?thesis using Some r' by simp
  qed
qed

text \<open>A sequence of changes acts on every cell, and on the presence of every row, either as a
  constant or not at all.\<close>

definition steady :: "('a \<Rightarrow> 'a) \<Rightarrow> bool" where
  "steady f \<longleftrightarrow> f = id \<or> (\<exists>k. f = (\<lambda>_. k))"

lemma steady_comp: "steady f \<Longrightarrow> steady g \<Longrightarrow> steady (g \<circ> f)"
  by (auto simp: steady_def fun_eq_iff)

lemma steady_twice: "steady f \<Longrightarrow> f (f x) = f x"
  by (auto simp: steady_def)

lemma steady_id [simp]: "steady (\<lambda>x. x)"
  by (simp add: steady_def id_def)

lemma steady_const [simp]: "steady (\<lambda>_. k)"
  by (auto simp: steady_def)

definition acts :: "((string, sdk_row) fmap \<Rightarrow> (string, sdk_row) fmap) \<Rightarrow> bool" where
  "acts f \<longleftrightarrow> (\<forall>i c. \<exists>g. steady g \<and> (\<forall>rs. cell (f rs) i c = g (cell rs i c))) \<and>
     (\<forall>i. \<exists>g. steady g \<and> (\<forall>rs. (i |\<in>| fmdom (f rs)) = g (i |\<in>| fmdom rs)))"

lemma acts_id: "acts (\<lambda>rs. rs)"
  unfolding acts_def by (intro conjI allI exI [of _ "\<lambda>x. x"]) simp_all

lemma acts_comp:
  assumes "acts f" "acts g"
  shows "acts (\<lambda>rs. g (f rs))"
  unfolding acts_def
proof (intro conjI allI)
  fix i c
  obtain p q where "steady p" "\<forall>rs. cell (f rs) i c = p (cell rs i c)" "steady q" "\<forall>rs. cell (g rs) i c = q (cell rs i c)"
    using assms unfolding acts_def by metis
  then show "\<exists>h. steady h \<and> (\<forall>rs. cell (g (f rs)) i c = h (cell rs i c))"
    by (intro exI [of _ "q \<circ> p"]) (simp add: steady_comp)
next
  fix i
  obtain p q where "steady p" "\<forall>rs. (i |\<in>| fmdom (f rs)) = p (i |\<in>| fmdom rs)"
      "steady q" "\<forall>rs. (i |\<in>| fmdom (g rs)) = q (i |\<in>| fmdom rs)"
    using assms unfolding acts_def by metis
  then show "\<exists>h. steady h \<and> (\<forall>rs. (i |\<in>| fmdom (g (f rs))) = h (i |\<in>| fmdom rs))"
    by (intro exI [of _ "q \<circ> p"]) (simp add: steady_comp)
qed

lemma acts_twice:
  assumes "acts f"
  shows "f (f rs) = f rs"
proof (rule rows_eqI)
  fix i
  obtain p where "steady p" "\<forall>rs. (i |\<in>| fmdom (f rs)) = p (i |\<in>| fmdom rs)" using assms unfolding acts_def by metis
  then show "i |\<in>| fmdom (f (f rs)) \<longleftrightarrow> i |\<in>| fmdom (f rs)" using steady_twice [of p] by simp
next
  fix i c
  obtain p where "steady p" "\<forall>rs. cell (f rs) i c = p (cell rs i c)" using assms unfolding acts_def by metis
  then show "cell (f (f rs)) i c = cell (f rs) i c" using steady_twice [of p] by simp
qed

lemma acts_drop: "acts (fmdrop k)"
  unfolding acts_def
proof (intro conjI allI)
  fix i c
  show "\<exists>g. steady g \<and> (\<forall>rs. cell (fmdrop k rs) i c = g (cell rs i c))"
    by (rule exI [of _ "if i = k then (\<lambda>_. None) else (\<lambda>x. x)"]) (simp add: cell_def)
  show "\<exists>g. steady g \<and> (\<forall>rs. (i |\<in>| fmdom (fmdrop k rs)) = g (i |\<in>| fmdom rs))"
    by (rule exI [of _ "if i = k then (\<lambda>_. False) else (\<lambda>x. x)"]) simp
qed

lemma acts_merge: "acts (\<lambda>rs. fmupd k (merged (fmlookup rs k) vals) rs)"
  unfolding acts_def
proof (intro conjI allI)
  fix i c
  let ?g = "if i \<noteq> k then (\<lambda>x. x) else case fmlookup vals c of None \<Rightarrow> (\<lambda>_. None)
      | Some v \<Rightarrow> if v_Unchanged v then (\<lambda>x. x) else (\<lambda>_. Some v)"
  have "steady ?g" by (simp split: option.split)
  moreover have "cell (fmupd k (merged (fmlookup rs k) vals) rs) i c = ?g (cell rs i c)" for rs
    by (simp add: cell_def fmlookup_merged split: option.split)
  ultimately show "\<exists>g. steady g \<and> (\<forall>rs. cell (fmupd k (merged (fmlookup rs k) vals) rs) i c = g (cell rs i c))" by blast
  show "\<exists>g. steady g \<and> (\<forall>rs. (i |\<in>| fmdom (fmupd k (merged (fmlookup rs k) vals) rs)) = g (i |\<in>| fmdom rs))"
    by (rule exI [of _ "if i = k then (\<lambda>_. True) else (\<lambda>x. x)"]) auto
qed

end
