(* ===== verification/Float64.thy ===== *)
theory Float64
  imports Complex_Main "HOL-Library.Log_Nat" "HOL-Library.Word"
begin

text \<open>
  Go's \<open>float64\<close> arithmetic, as the retention policy and the waits before a retry use it: a result is
  the exact rational rounded to 53 significant bits, ties to even. Underflow and overflow are left
  out: the magnitudes the code rounds here are \<open>0\<close> or in the normal range. A product and a sum are rounded
  one after the other, as they are where the compiler does not fuse them. Products of \<open>int64\<close> wrap
  (\<open>wrap64\<close>).
\<close>

section \<open>Wrap-around\<close>

definition wrap64 :: "int \<Rightarrow> int" where
  "wrap64 n = sint (word_of_int n :: 64 word)"

lemma wrap64_small: "- (2 ^ 63) \<le> n \<Longrightarrow> n < 2 ^ 63 \<Longrightarrow> wrap64 n = n"
  by (simp add: wrap64_def signed_of_int signed_take_bit_int_eq_self)

lemma wrap64_over:
  assumes "2 ^ 63 \<le> n" "n < 2 ^ 64"
  shows "wrap64 n = n - 2 ^ 64"
proof -
  have "(word_of_int n :: 64 word) = word_of_int (n - 2 ^ 64)"
    by (simp only: word_of_int_eq_iff take_bit_eq_mod len_num0 len_bit0 len_num1 len_bit1) simp
  then have "wrap64 n = wrap64 (n - 2 ^ 64)" by (simp only: wrap64_def)
  also have "\<dots> = n - 2 ^ 64" using assms by (intro wrap64_small) simp_all
  finally show ?thesis .
qed

section \<open>Rounding to an integer, ties to even\<close>

definition round_even :: "rat \<Rightarrow> int" where
  "round_even x =
     (let q = \<lfloor>x\<rfloor>; r = x - of_int q in
      if r < 1 / 2 then q else if r > 1 / 2 then q + 1 else if even q then q else q + 1)"

lemma round_even_bounds: "\<lfloor>x\<rfloor> \<le> round_even x" "round_even x \<le> \<lfloor>x\<rfloor> + 1"
  by (auto simp: round_even_def Let_def)

lemma round_even_near: "of_int n - 1 / 2 < x \<Longrightarrow> x < of_int n + 1 / 2 \<Longrightarrow> round_even x = n"
proof -
  assume a: "of_int n - 1 / 2 < x" "x < of_int n + 1 / 2"
  then have "\<lfloor>x\<rfloor> = n \<or> \<lfloor>x\<rfloor> = n - 1" by linarith
  then show ?thesis using a by (auto simp: round_even_def Let_def)
qed

lemma round_even_of_int [simp]: "round_even (of_int n) = n"
  by (simp add: round_even_def)

lemma round_even_mono: "x \<le> y \<Longrightarrow> round_even x \<le> round_even y"
proof (cases "\<lfloor>x\<rfloor> = \<lfloor>y\<rfloor>")
  case True
  then show "x \<le> y \<Longrightarrow> round_even x \<le> round_even y"
    by (auto simp: round_even_def Let_def)
next
  case False
  assume "x \<le> y"
  with False have "\<lfloor>x\<rfloor> + 1 \<le> \<lfloor>y\<rfloor>" using floor_mono [of x y] by linarith
  then show "round_even x \<le> round_even y"
    using round_even_bounds [of x] round_even_bounds [of y] by linarith
qed

section \<open>Exponents\<close>

text \<open>The exponent \<open>e\<close> of a positive value: \<open>2 ^ e \<le> x < 2 ^ (e + 1)\<close>.\<close>

definition exponent :: "rat \<Rightarrow> int" where
  "exponent x =
     (let (n, d) = quotient_of x; e = int (floorlog 2 (nat n)) - int (floorlog 2 (nat d)) in
      if 2 powi e \<le> x then e else e - 1)"

definition round53 :: "rat \<Rightarrow> rat" where
  "round53 x =
     (if x \<le> 0 then x
      else let u = 2 powi (exponent x - 52) in of_int (round_even (x / u)) * u)"

lemma powi2_less_iff [simp]: "(2::rat) powi a < 2 powi b \<longleftrightarrow> a < b"
  using power_int_strict_increasing [of a b "2::rat"] power_int_increasing [of b a "2::rat"] by force

lemma floorlog2_bounds:
  assumes "0 < n"
  shows "2 ^ (floorlog 2 n - 1) \<le> n" "n < 2 ^ floorlog 2 n" "0 < floorlog 2 n"
  using floorlog_bounds [of n 2] assms by (auto simp: floorlog_def)

lemma exponent_bounds:
  assumes "0 < x"
  shows "2 powi exponent x \<le> x" "x < 2 powi (exponent x + 1)"
proof -
  obtain n d where q: "quotient_of x = (n, d)" by (cases "quotient_of x")
  have d: "0 < d" using quotient_of_denom_pos [OF q] .
  have x: "x = of_int n / of_int d" using quotient_of_div [OF q] .
  have n: "0 < n" using assms d by (simp add: x zero_less_divide_iff)
  define a where "a = floorlog 2 (nat n)"
  define b where "b = floorlog 2 (nat d)"
  have A: "2 ^ (a - 1) \<le> nat n" "nat n < 2 ^ a" "0 < a"
    using floorlog2_bounds [of "nat n"] n by (simp_all add: a_def)
  have B: "2 ^ (b - 1) \<le> nat d" "nat d < 2 ^ b" "0 < b"
    using floorlog2_bounds [of "nat d"] d by (simp_all add: b_def)
  have n_lo: "(2::rat) powi (int a - 1) \<le> of_int n" and n_hi: "of_int n < (2::rat) powi int a"
  proof -
    have "int (2 ^ (a - 1)) \<le> n" using A(1) n by linarith
    then have "(of_int (int (2 ^ (a - 1))) :: rat) \<le> of_int n" by (simp only: of_int_le_iff)
    then show "(2::rat) powi (int a - 1) \<le> of_int n"
      using A(3) by (simp add: power_int_def nat_diff_distrib)
    have "n < int (2 ^ a)" using A(2) n by linarith
    then have "(of_int n :: rat) < of_int (int (2 ^ a))" by (simp only: of_int_less_iff)
    then show "of_int n < (2::rat) powi int a" by simp
  qed
  have d_lo: "(2::rat) powi (int b - 1) \<le> of_int d" and d_hi: "of_int d < (2::rat) powi int b"
  proof -
    have "int (2 ^ (b - 1)) \<le> d" using B(1) d by linarith
    then have "(of_int (int (2 ^ (b - 1))) :: rat) \<le> of_int d" by (simp only: of_int_le_iff)
    then show "(2::rat) powi (int b - 1) \<le> of_int d"
      using B(3) by (simp add: power_int_def nat_diff_distrib)
    have "d < int (2 ^ b)" using B(2) d by linarith
    then have "(of_int d :: rat) < of_int (int (2 ^ b))" by (simp only: of_int_less_iff)
    then show "of_int d < (2::rat) powi int b" by simp
  qed
  define e where "e = int a - int b"
  have lo: "2 powi (e - 1) \<le> x"
  proof -
    have "2 powi (e - 1) = (2::rat) powi (int a - 1) / 2 powi int b"
      unfolding e_def by (subst power_int_diff [symmetric]) (simp_all add: algebra_simps)
    also have "\<dots> \<le> of_int n / of_int d"
      using n_lo d_hi d n by (intro frac_le) simp_all
    finally show ?thesis by (simp add: x)
  qed
  have hi: "x < 2 powi (e + 1)"
  proof -
    have "x < 2 powi int a / 2 powi (int b - 1)"
      unfolding x using n_hi d_lo n d by (intro frac_less) simp_all
    also have "\<dots> = 2 powi (e + 1)"
      unfolding e_def by (subst power_int_diff [symmetric]) (simp_all add: algebra_simps)
    finally show ?thesis .
  qed
  have ex: "exponent x = (if 2 powi e \<le> x then e else e - 1)"
    by (simp add: exponent_def q a_def b_def e_def Let_def)
  show "2 powi exponent x \<le> x" "x < 2 powi (exponent x + 1)"
    using lo hi by (auto simp: ex)
qed

lemma exponent_unique:
  assumes "2 powi e \<le> x" "x < 2 powi (e + 1)"
  shows "exponent x = e"
proof -
  have x: "0 < x" using assms(1) by (rule less_le_trans [rotated]) simp
  note b = exponent_bounds [OF x]
  have "(2::rat) powi e < 2 powi (exponent x + 1)" using assms(1) b(2) by (rule le_less_trans)
  then have 1: "e < exponent x + 1" by simp
  have "(2::rat) powi exponent x < 2 powi (e + 1)" using b(1) assms(2) by (rule le_less_trans)
  then have "exponent x < e + 1" by simp
  with 1 show ?thesis by simp
qed

section \<open>Properties of rounding\<close>

lemma round53_zero [simp]: "round53 0 = 0"
  by (simp add: round53_def)

lemma scaled_bounds:
  assumes "0 < x"
  shows "of_int (2 ^ 52) \<le> x / 2 powi (exponent x - 52)" "x / 2 powi (exponent x - 52) < of_int (2 ^ 53)"
proof -
  note b = exponent_bounds [OF assms]
  have u: "(0::rat) < 2 powi (exponent x - 52)" by simp
  have "(2::rat) powi 52 * 2 powi (exponent x - 52) = 2 powi exponent x"
    by (subst power_int_add [symmetric]) simp_all
  then have "2 ^ 52 * 2 powi (exponent x - 52) \<le> x" using b(1) by simp
  with u show "of_int (2 ^ 52) \<le> x / 2 powi (exponent x - 52)" by (simp add: pos_le_divide_eq)
  have "(2::rat) powi 53 * 2 powi (exponent x - 52) = 2 powi (exponent x + 1)"
    by (subst power_int_add [symmetric]) (simp_all add: algebra_simps)
  then have "x < 2 ^ 53 * 2 powi (exponent x - 52)" using b(2) by simp
  with u show "x / 2 powi (exponent x - 52) < of_int (2 ^ 53)" by (simp add: pos_divide_less_eq)
qed

lemma round53_bounds:
  assumes "0 < x"
  shows "2 powi exponent x \<le> round53 x" "round53 x \<le> 2 powi (exponent x + 1)"
proof -
  let ?u = "2 powi (exponent x - 52) :: rat"
  have f: "round53 x = of_int (round_even (x / ?u)) * ?u"
    using assms by (simp add: round53_def Let_def)
  have "2 ^ 52 \<le> round_even (x / ?u)"
    using round_even_mono [OF scaled_bounds(1) [OF assms]] by (simp only: round_even_of_int)
  then have "of_int (2 ^ 52) * ?u \<le> of_int (round_even (x / ?u)) * ?u"
    by (intro mult_right_mono) (simp_all only: of_int_le_iff, simp)
  moreover have "of_int (2 ^ 52) * ?u = 2 powi exponent x"
    using power_int_add [of "2::rat" 52 "exponent x - 52"] by simp
  ultimately show "2 powi exponent x \<le> round53 x" by (simp only: f)
  have "round_even (x / ?u) \<le> 2 ^ 53"
    using round_even_mono [OF less_imp_le [OF scaled_bounds(2) [OF assms]]] by (simp only: round_even_of_int)
  then have "of_int (round_even (x / ?u)) * ?u \<le> of_int (2 ^ 53) * ?u"
    by (intro mult_right_mono) (simp_all only: of_int_le_iff, simp)
  moreover have "of_int (2 ^ 53) * ?u = 2 powi (exponent x + 1)"
    using power_int_add [of "2::rat" 53 "exponent x - 52"] by (simp add: algebra_simps)
  ultimately show "round53 x \<le> 2 powi (exponent x + 1)" by (simp only: f)
qed

lemma round53_pos [simp]: "0 < x \<Longrightarrow> 0 < round53 x"
  using round53_bounds(1) [of x] by (rule less_le_trans [rotated]) simp_all

lemma exponent_mono: "0 < x \<Longrightarrow> x \<le> y \<Longrightarrow> exponent x \<le> exponent y"
proof -
  assume x: "0 < x" and y: "x \<le> y"
  then have "(2::rat) powi exponent x < 2 powi (exponent y + 1)"
    using exponent_bounds(1) [OF x] exponent_bounds(2) [of y] by (meson le_less_trans less_le_trans)
  then show ?thesis by simp
qed

lemma round53_mono: "x \<le> y \<Longrightarrow> round53 x \<le> round53 y"
proof -
  assume le: "x \<le> y"
  consider "x \<le> 0" | "0 < x" "exponent x = exponent y" | "0 < x" "exponent x + 1 \<le> exponent y"
    using exponent_mono [of x y] le by fastforce
  then show "round53 x \<le> round53 y"
  proof cases
    case 1
    have "round53 x = x" using 1 by (simp add: round53_def)
    moreover have "0 < y \<Longrightarrow> 0 < round53 y" by simp
    moreover have "y \<le> 0 \<Longrightarrow> round53 y = y" by (simp add: round53_def)
    ultimately show ?thesis using 1 le by linarith
  next
    case 2
    let ?u = "2 powi (exponent y - 52) :: rat"
    have "x / ?u \<le> y / ?u" using le by (simp add: divide_right_mono)
    then have "of_int (round_even (x / ?u)) * ?u \<le> of_int (round_even (y / ?u)) * ?u"
      by (intro mult_right_mono) (simp_all add: round_even_mono)
    with 2 le show ?thesis by (simp add: round53_def Let_def)
  next
    case 3
    have "round53 x \<le> 2 powi (exponent x + 1)" using round53_bounds(2) [OF 3(1)] .
    also have "\<dots> \<le> 2 powi exponent y" using 3(2) by (simp add: power_int_increasing)
    also have "\<dots> \<le> round53 y" using round53_bounds(1) [of y] 3(1) le by simp
    finally show ?thesis .
  qed
qed

text \<open>A value with at most 53 significant bits is kept.\<close>

lemma round53_exact:
  assumes "0 < m" "m < 2 ^ 53"
  shows "round53 (of_int m * 2 powi k) = of_int m * 2 powi k"
proof -
  let ?x = "of_int m * 2 powi k :: rat"
  have x: "0 < ?x" using assms by simp
  let ?e = "exponent ?x"
  have "of_int m < (2::rat) ^ 53"
    using assms(2) by (metis of_int_less_iff of_int_numeral of_int_power)
  then have "?x < 2 powi 53 * 2 powi k" by simp
  then have "?x < 2 powi (53 + k)" by (subst power_int_add) simp_all
  with exponent_bounds(1) [OF x] have "(2::rat) powi ?e < 2 powi (53 + k)" by (rule le_less_trans)
  then have e: "?e \<le> 52 + k" by simp
  have s: "?x / 2 powi (?e - 52) = of_int (m * 2 ^ nat (k + 52 - ?e))"
  proof -
    have "?x / 2 powi (?e - 52) = of_int m * (2 powi k / 2 powi (?e - 52))" by simp
    also have "2 powi k / 2 powi (?e - 52) = (2::rat) powi (k + 52 - ?e)"
      by (subst power_int_diff [symmetric]) (simp_all add: algebra_simps)
    also have "\<dots> = 2 ^ nat (k + 52 - ?e)" using e by (simp add: power_int_def)
    finally show ?thesis by simp
  qed
  have "round53 ?x = of_int (round_even (?x / 2 powi (?e - 52))) * 2 powi (?e - 52)"
    using x by (simp only: round53_def Let_def) simp
  also have "\<dots> = ?x / 2 powi (?e - 52) * 2 powi (?e - 52)"
    by (simp only: s round_even_of_int)
  also have "\<dots> = ?x" by simp
  finally show ?thesis .
qed

lemma round53_one [simp]: "round53 1 = 1"
  using round53_exact [of 1 0] by simp

lemma round53_int: "0 \<le> n \<Longrightarrow> n < 2 ^ 53 \<Longrightarrow> round53 (of_int n) = of_int n"
  using round53_exact [of n 0] by (cases "n = 0") simp_all

section \<open>Signed values\<close>

definition float64 :: "rat \<Rightarrow> rat" where
  "float64 x = (if x < 0 then - round53 (- x) else round53 x)"

lemma float64_nonneg: "0 \<le> x \<Longrightarrow> float64 x = round53 x"
  by (simp add: float64_def)

lemma round53_nonneg: "0 \<le> x \<Longrightarrow> 0 \<le> round53 x"
  by (cases "x = 0") (simp_all add: less_imp_le)

lemma float64_simps [simp]: "float64 0 = 0" "float64 1 = 1" "0 < x \<Longrightarrow> 0 < float64 x"
  by (simp_all add: float64_def)

lemma float64_minus [simp]: "float64 (- x) = - float64 x"
  by (cases "x = 0") (auto simp: float64_def)

lemma float64_mono: "x \<le> y \<Longrightarrow> float64 x \<le> float64 y"
  using round53_mono [of x y] round53_mono [of "- y" "- x"] round53_nonneg [of y] round53_nonneg [of "- x"]
  by (auto simp: float64_def)

lemma float64_exact: "0 < m \<Longrightarrow> m < 2 ^ 53 \<Longrightarrow> float64 (of_int m * 2 powi k) = of_int m * 2 powi k"
  by (simp add: float64_nonneg round53_exact)

lemma float64_int: "0 \<le> n \<Longrightarrow> n < 2 ^ 53 \<Longrightarrow> float64 (of_int n) = of_int n"
  by (simp add: float64_nonneg round53_int)

lemma float64_at:
  assumes "2 powi e \<le> x" "x < 2 powi (e + 1)"
  shows "float64 x = of_int (round_even (x / 2 powi (e - 52))) * 2 powi (e - 52)"
proof -
  have "0 < x" using assms(1) by (rule less_le_trans [rotated]) simp
  then show ?thesis using exponent_unique [OF assms] by (simp add: float64_nonneg round53_def Let_def)
qed

text \<open>A rounded result stays within representable bounds.\<close>

lemma float64_between:
  assumes "a \<le> x" "x \<le> b" "float64 a = a" "float64 b = b"
  shows "a \<le> float64 x" "float64 x \<le> b"
  using float64_mono [OF assms(1)] float64_mono [OF assms(2)] assms(3,4) by simp_all

end
