(* ===== verification/Client.thy ===== *)
theory Client
  imports Wire Store Float64
begin

text \<open>
  The Go SDK's client (\<open>sdk/go/watchd/client.go\<close>): one \<open>Sync\<close> call, which keeps a store in sync over
  a sequence of Watch streams.

  The store is the caller's implementation of the interface \<open>Store\<close>: the record \<open>store_ops\<close> of its
  methods is an argument of the client's functions, over a type of store states \<open>'s\<close> and one of
  snapshot writers \<open>'w\<close>. What the network gives is an argument too: the outcome of opening a stream and
  the list of outcomes of \<open>Recv\<close>. So is the value drawn for the jitter of a wait. The reports to \<open>OnState\<close> are logged. Instruments are not modelled.
\<close>

section \<open>The store interface\<close>

record ('s, 'w) store_ops =
  op_Cursor :: "'s \<Rightarrow> goerror + string"
  op_BeginSnapshot :: "'s \<Rightarrow> 's \<times> (goerror + 'w)"
  op_Put :: "'s \<Rightarrow> 'w \<Rightarrow> sdk_row list \<Rightarrow> 's \<times> 'w \<times> goerror option"
  op_Commit :: "'s \<Rightarrow> 'w \<Rightarrow> 's \<times> goerror option"
  op_Abort :: "'s \<Rightarrow> 'w \<Rightarrow> 's"
  op_Apply :: "'s \<Rightarrow> sdk_batch \<Rightarrow> 's \<times> goerror option"
  op_SaveCursor :: "'s \<Rightarrow> string \<Rightarrow> 's \<times> goerror option"

text \<open>\<open>MemoryStore\<close> as an implementation.\<close>

definition memory_ops :: "(memoryStore, memorySnapshot) store_ops" where
  "memory_ops = \<lparr>
     op_Cursor = (\<lambda>s. Inr (stored_cursor s)),
     op_BeginSnapshot = (\<lambda>s. (s, Inr BeginSnapshot)),
     op_Put = (\<lambda>s w rs. (s, Put (primaryKey s) w rs)),
     op_Commit = (\<lambda>s w. (Commit s w, None)),
     op_Abort = (\<lambda>s w. s),
     op_Apply = Apply,
     op_SaveCursor = (\<lambda>s c. (SaveCursor s c, None))\<rparr>"

section \<open>Messages\<close>

definition convertValues :: "wire_row \<Rightarrow> sdk_row" where
  "convertValues vals =
     fmmap (\<lambda>v. case v of
         WText t \<Rightarrow> \<lparr>v_Text = t, v_Null = False, v_Unchanged = False\<rparr>
       | WNull \<Rightarrow> \<lparr>v_Text = [], v_Null = True, v_Unchanged = False\<rparr>
       | WUnchangedToast \<Rightarrow> \<lparr>v_Text = [], v_Null = False, v_Unchanged = True\<rparr>
       | KindUnset \<Rightarrow> \<lparr>v_Text = [], v_Null = False, v_Unchanged = False\<rparr>)
     (fmfilter (\<lambda>column. fmlookup vals column \<noteq> Some KindUnset) vals)"

fun sdk_operations :: "wire_operation \<Rightarrow> sdk_operation" where
  "sdk_operations OPERATION_INSERT = Insert"
| "sdk_operations OPERATION_UPDATE = Update"
| "sdk_operations OPERATION_DELETE = Delete"
| "sdk_operations OPERATION_UNSPECIFIED = OtherOperation"

definition sdk_convertChange :: "wire_change \<Rightarrow> sdk_change" where
  "sdk_convertChange ch = \<lparr>c_Operation = sdk_operations (wc_operation ch), c_Table = wc_table ch,
     c_Key = wc_key ch, c_Values = convertValues (wc_values ch)\<rparr>"

definition sdk_convertBatch :: "wire_batch \<Rightarrow> sdk_batch" where
  "sdk_convertBatch b = \<lparr>b_Cursor = wb_cursor b,
     b_CommitTime = (case wb_commitTime b of None \<Rightarrow> 0 | Some t \<Rightarrow> t),
     b_Changes = map sdk_convertChange (wb_changes b)\<rparr>"

text \<open>\<open>Client.CompareCursors\<close> on the server's answer.\<close>

fun sdk_order :: "code + wire_order \<Rightarrow> code option + int" where
  "sdk_order (Inl e) = Inl (Some e)"
| "sdk_order (Inr CURSOR_ORDER_BEFORE) = Inr (-1)"
| "sdk_order (Inr CURSOR_ORDER_EQUAL) = Inr 0"
| "sdk_order (Inr CURSOR_ORDER_AFTER) = Inr 1"
| "sdk_order (Inr CURSOR_ORDER_UNSPECIFIED) = Inl None"

section \<open>One stream\<close>

record state =
  st_Fresh :: bool
  st_Cursor :: string

record 's syncer =
  sy_store :: 's
  sy_state :: state
  sy_reported :: bool
  sy_progressed :: bool
  sy_log :: "state list"

text \<open>The errors that end a stream, as far as \<open>Sync\<close> tells them apart: \<open>errResync\<close>, an error wrapping
  \<open>errStore\<close>, a gRPC status, and any other, whose status code is \<open>Unknown\<close>.\<close>

datatype stream_end = EndResync | EndStore goerror | EndStatus code | EndOther

definition setState :: "bool \<Rightarrow> string \<Rightarrow> 's syncer \<Rightarrow> 's syncer" where
  "setState fresh cursor sy =
     (let next = \<lparr>st_Fresh = fresh, st_Cursor = cursor\<rparr>
      in if sy_reported sy \<and> next = sy_state sy then sy
         else sy\<lparr>sy_state := next, sy_reported := True, sy_log := sy_log sy @ [next]\<rparr>)"

datatype recv = Received wire_event | RecvEOF | RecvError code

definition handle ::
    "('s, 'w) store_ops \<Rightarrow> 's syncer \<Rightarrow> 'w option \<Rightarrow> recv \<Rightarrow> 's syncer \<times> 'w option \<times> stream_end option" where
  "handle ops sy writer r =
     (case r of
        RecvEOF \<Rightarrow> (sy, writer, Some EndOther)
      | RecvError c \<Rightarrow> (sy, writer, Some (EndStatus c))
      | Received ev \<Rightarrow>
          (case ev of
             WSnapshotBegin \<Rightarrow>
               (let sy1 = setState False [] sy
                in case op_BeginSnapshot ops (sy_store sy1) of
                     (st, Inl e) \<Rightarrow> (sy1\<lparr>sy_store := st\<rparr>, None, Some (EndStore e))
                   | (st, Inr w) \<Rightarrow> (sy1\<lparr>sy_store := st\<rparr>, Some w, None))
           | WSnapshotRows rs \<Rightarrow>
               (case writer of
                  None \<Rightarrow> (sy, None, Some EndOther)
                | Some w \<Rightarrow>
                    (case op_Put ops (sy_store sy) w (map convertValues rs) of
                       (st, w', Some e) \<Rightarrow> (sy\<lparr>sy_store := st\<rparr>, Some w', Some (EndStore e))
                     | (st, w', None) \<Rightarrow> (sy\<lparr>sy_store := st\<rparr>, Some w', None)))
           | WSnapshotEnd \<Rightarrow>
               (case writer of
                  None \<Rightarrow> (sy, None, Some EndOther)
                | Some w \<Rightarrow>
                    (case op_Commit ops (sy_store sy) w of
                       (st, Some e) \<Rightarrow> (sy\<lparr>sy_store := st\<rparr>, None, Some (EndStore e))
                     | (st, None) \<Rightarrow> (sy\<lparr>sy_store := st\<rparr>, None, None)))
           | WBatch b \<Rightarrow>
               (case writer of
                  Some w \<Rightarrow> (sy, Some w, Some EndOther)
                | None \<Rightarrow>
                    (case op_Apply ops (sy_store sy) (sdk_convertBatch b) of
                       (st, Some e) \<Rightarrow> (sy\<lparr>sy_store := st\<rparr>, None, Some (EndStore e))
                     | (st, None) \<Rightarrow> (sy\<lparr>sy_store := st\<rparr>, None, None)))
           | WProgress cursor \<Rightarrow>
               (case writer of
                  Some w \<Rightarrow> (sy, Some w, Some EndOther)
                | None \<Rightarrow>
                    (case op_SaveCursor ops (sy_store sy) cursor of
                       (st, Some e) \<Rightarrow> (sy\<lparr>sy_store := st\<rparr>, None, Some (EndStore e))
                     | (st, None) \<Rightarrow>
                         (setState True cursor (sy\<lparr>sy_store := st, sy_progressed := True\<rparr>), None, None)))
           | WResync reason \<Rightarrow> (sy, writer, Some EndResync)
           | EventUnset \<Rightarrow> (sy, writer, Some EndOther)))"

text \<open>The receive loop, over the outcomes of \<open>Recv\<close> so far: without an end, it waits for the next one.\<close>

fun receive_loop ::
    "('s, 'w) store_ops \<Rightarrow> 's syncer \<Rightarrow> 'w option \<Rightarrow> recv list \<Rightarrow> 's syncer \<times> 'w option \<times> stream_end option" where
  "receive_loop ops sy writer [] = (sy, writer, None)"
| "receive_loop ops sy writer (r # rs) =
     (case handle ops sy writer r of
        (sy', writer', None) \<Rightarrow> receive_loop ops sy' writer' rs
      | (sy', writer', Some e) \<Rightarrow> (sy', writer', Some e))"

text \<open>\<open>stream\<close>: the cursor it asks for, the state it leaves, and the error it returns, if it returned.\<close>

definition stream_cursor :: "('s, 'w) store_ops \<Rightarrow> bool \<Rightarrow> 's \<Rightarrow> goerror + string" where
  "stream_cursor ops snapshot st = (if snapshot then Inr [] else op_Cursor ops st)"

definition sdk_stream ::
    "('s, 'w) store_ops \<Rightarrow> bool \<Rightarrow> code option \<Rightarrow> recv list \<Rightarrow> 's syncer \<Rightarrow> 's syncer \<times> stream_end option" where
  "sdk_stream ops snapshot open_err recvs sy0 =
     (let sy = sy0\<lparr>sy_progressed := False\<rparr>
      in case stream_cursor ops snapshot (sy_store sy) of
           Inl e \<Rightarrow> (sy, Some (EndStore e))
         | Inr cursor \<Rightarrow>
             (case open_err of
                Some c \<Rightarrow> (sy, Some (EndStatus c))
              | None \<Rightarrow>
                  (case receive_loop ops sy None recvs of
                     (sy', writer, None) \<Rightarrow> (sy', None)
                   | (sy', None, Some e) \<Rightarrow> (sy', Some e)
                   | (sy', Some w, Some e) \<Rightarrow> (sy'\<lparr>sy_store := op_Abort ops (sy_store sy') w\<rparr>, Some e))))"

section \<open>Sync\<close>

definition defaultMinBackoff :: int where
  "defaultMinBackoff = 100000000"

definition defaultMaxBackoff :: int where
  "defaultMaxBackoff = 5000000000"

definition sync_bounds :: "int \<Rightarrow> int \<Rightarrow> int \<times> int" where
  "sync_bounds minB maxB =
     (let minB' = (if minB \<le> 0 then defaultMinBackoff else minB)
      in (minB', if maxB < minB' then max defaultMaxBackoff minB' else maxB))"

fun status_code :: "stream_end \<Rightarrow> code" where
  "status_code (EndStatus c) = c"
| "status_code _ = Unknown"

definition isPermanent :: "stream_end \<Rightarrow> bool" where
  "isPermanent e \<longleftrightarrow> status_code e \<in> {NotFound, InvalidArgument, FailedPrecondition, PermissionDenied, Unauthenticated, Unimplemented}"

record sync_vars =
  sv_backoff :: int
  sv_snapshot :: bool
  sv_resyncs :: int

datatype decision = Return "stream_end option" | RetryNow | RetryAfter int

text \<open>The wait before the next stream, with its jitter: \<open>random\<close> is the value drawn. The conversion to a duration
  truncates, which is the floor here: the product is never negative.\<close>

definition sync_wait :: "int \<Rightarrow> rat \<Rightarrow> int" where
  "sync_wait backoff random =
     \<lfloor>float64 (float64 (of_int backoff) * float64 (float64 (4 / 5) + float64 (float64 (2 / 5) * random)))\<rfloor>"

text \<open>The turn of the loop of \<open>Sync\<close> after a stream returned \<open>e\<close>: \<open>ctx_done\<close> says whether the context had
  ended by then. Doubling the backoff wraps as \<open>int64\<close> does.\<close>

definition sync_turn :: "int \<times> int \<Rightarrow> bool \<Rightarrow> rat \<Rightarrow> bool \<Rightarrow> stream_end \<Rightarrow> sync_vars \<Rightarrow> decision \<times> sync_vars" where
  "sync_turn bounds ctx_done random progressed e v =
     (if ctx_done then (Return None, v)
      else
        let after = (\<lambda>retryNow snapshot resyncs.
              let backoff = (if progressed then fst bounds else sv_backoff v);
                  resyncs' = (if progressed then (if e = EndResync then 1 else 0) else resyncs)
              in if retryNow then (RetryNow, \<lparr>sv_backoff = backoff, sv_snapshot = snapshot, sv_resyncs = resyncs'\<rparr>)
                 else (RetryAfter (sync_wait backoff random),
                   \<lparr>sv_backoff = min (wrap64 (backoff * 2)) (snd bounds), sv_snapshot = snapshot, sv_resyncs = resyncs'\<rparr>))
        in case e of
             EndResync \<Rightarrow> after (sv_resyncs v + 1 = 1) True (sv_resyncs v + 1)
           | EndStore x \<Rightarrow> (Return (Some e), v)
           | _ \<Rightarrow>
               if status_code e = InvalidArgument \<and> \<not> sv_snapshot v then after True True (sv_resyncs v)
               else if isPermanent e then (Return (Some e), v)
               else after False False (sv_resyncs v))"

text \<open>The loop of \<open>Sync\<close>, over what each stream met: the outcome of opening it, its messages,
  whether the context ended with the stream or during the wait, and the value drawn for the wait. It
  is in a stream, with the messages received on it so far, or between two streams, or has returned nil
  (\<open>Returned None\<close>) or an error.\<close>

record attempt =
  at_openErr :: "code option"
  at_recvs :: "recv list"
  at_ctxDone :: bool
  at_random :: rat
  at_waitDone :: bool

datatype sync_point = InStream "recv list" | BetweenStreams | Returned "stream_end option"

fun sync_loop ::
    "('s, 'w) store_ops \<Rightarrow> int \<times> int \<Rightarrow> 's syncer \<Rightarrow> sync_vars \<Rightarrow> attempt list \<Rightarrow> 's syncer \<times> sync_vars \<times> sync_point" where
  "sync_loop ops bounds sy v [] = (sy, v, BetweenStreams)"
| "sync_loop ops bounds sy v (a # as) =
     (case sdk_stream ops (sv_snapshot v) (at_openErr a) (at_recvs a) sy of
        (sy1, None) \<Rightarrow> (sy1, v, InStream (at_recvs a))
      | (sy1, Some e) \<Rightarrow>
          (let sy2 = setState False (st_Cursor (sy_state sy1)) sy1
           in case sync_turn bounds (at_ctxDone a) (at_random a) (sy_progressed sy2) e v of
                (Return r, v') \<Rightarrow> (sy2, v', Returned r)
              | (RetryNow, v') \<Rightarrow> sync_loop ops bounds sy2 v' as
              | (RetryAfter t, v') \<Rightarrow> if at_waitDone a then (sy2, v', Returned None) else sync_loop ops bounds sy2 v' as))"

definition Sync ::
    "('s, 'w) store_ops \<Rightarrow> string \<Rightarrow> int \<Rightarrow> int \<Rightarrow> 's \<Rightarrow> attempt list \<Rightarrow> 's syncer \<times> sync_vars \<times> sync_point" where
  "Sync ops projection minB maxB store attempts =
     (let sy = \<lparr>sy_store = store, sy_state = \<lparr>st_Fresh = False, st_Cursor = []\<rparr>, sy_reported = False, sy_progressed = False, sy_log = []\<rparr>;
          v = \<lparr>sv_backoff = fst (sync_bounds minB maxB), sv_snapshot = False, sv_resyncs = 0\<rparr>
      in if projection = [] then (sy, v, Returned (Some EndOther))
         else sync_loop ops (sync_bounds minB maxB) sy v attempts)"

end
