(* ===== verification/Store_Correct.thy ===== *)
theory Store_Correct
  imports Store
begin

text \<open>
  The in-memory store keeps the projection of its source: a snapshot followed by batches leaves the rows
  of the source table, and applying batches again changes nothing.
\<close>

section \<open>Valid changes\<close>

definition valid_change :: "string list \<Rightarrow> sdk_change \<Rightarrow> bool" where
  "valid_change pk ch \<longleftrightarrow> is_ok (keyOf pk (c_Key ch)) \<and> c_Operation ch \<noteq> OtherOperation"

definition valid_batch :: "string list \<Rightarrow> sdk_batch \<Rightarrow> bool" where
  "valid_batch pk b \<longleftrightarrow> list_all (valid_change pk) (b_Changes b)"

definition effect :: "string list \<Rightarrow> sdk_change \<Rightarrow> (string, sdk_row) fmap \<Rightarrow> (string, sdk_row) fmap" where
  "effect pk ch rs = (case apply_change pk rs ch of Inl e \<Rightarrow> rs | Inr rs' \<Rightarrow> rs')"

lemma apply_change_valid: "valid_change pk ch \<Longrightarrow> apply_change pk rs ch = Inr (effect pk ch rs)"
  by (auto simp: valid_change_def apply_change_def effect_def is_ok_iff split: sdk_operation.splits)

lemma effect_eq:
  "effect pk ch = (case keyOf pk (c_Key ch) of
     Inl e \<Rightarrow> (\<lambda>rs. rs)
   | Inr i \<Rightarrow> (case c_Operation ch of
       Delete \<Rightarrow> fmdrop i
     | OtherOperation \<Rightarrow> (\<lambda>rs. rs)
     | _ \<Rightarrow> (\<lambda>rs. fmupd i (merged (fmlookup rs i) (c_Values ch)) rs)))"
  by (intro ext) (auto simp: effect_def apply_change_def split: sum.splits sdk_operation.splits)

lemma acts_effect: "acts (effect pk ch)"
  unfolding effect_eq by (auto simp: acts_id acts_drop acts_merge split: sum.split sdk_operation.split)

definition effects :: "string list \<Rightarrow> sdk_change list \<Rightarrow> (string, sdk_row) fmap \<Rightarrow> (string, sdk_row) fmap" where
  "effects pk chs rs = fold (effect pk) chs rs"

lemma effects_simps [simp]:
  "effects pk [] = (\<lambda>rs. rs)" "effects pk (ch # chs) = (\<lambda>rs. effects pk chs (effect pk ch rs))"
  "effects pk (chs @ chs') = (\<lambda>rs. effects pk chs' (effects pk chs rs))"
  by (intro ext; simp add: effects_def)+

lemma acts_effects: "acts (effects pk chs)"
  by (induction chs) (simp_all add: acts_id acts_comp acts_effect)

lemma apply_changes_valid:
  "list_all (valid_change pk) chs \<Longrightarrow> apply_changes pk rs chs = (effects pk chs rs, None)"
  by (induction chs arbitrary: rs) (simp_all add: apply_change_valid)

lemma Apply_valid:
  "valid_batch (primaryKey s) b \<Longrightarrow>
     Apply s b = (s\<lparr>rows := effects (primaryKey s) (b_Changes b) (rows s), stored_cursor := b_Cursor b\<rparr>, None)"
  by (simp add: Apply_def valid_batch_def apply_changes_valid)

section \<open>Sequences of batches\<close>

fun apply_batches :: "memoryStore \<Rightarrow> sdk_batch list \<Rightarrow> memoryStore \<times> goerror option" where
  "apply_batches s [] = (s, None)"
| "apply_batches s (b # bs) = (case Apply s b of (s', None) \<Rightarrow> apply_batches s' bs | (s', Some e) \<Rightarrow> (s', Some e))"

lemma apply_batches_valid:
  assumes "list_all (valid_batch (primaryKey s)) bs"
  shows "apply_batches s bs =
    (s\<lparr>rows := effects (primaryKey s) (concat (map b_Changes bs)) (rows s),
       stored_cursor := (if bs = [] then stored_cursor s else b_Cursor (last bs))\<rparr>, None)"
  using assms
proof (induction bs arbitrary: s)
  case Nil
  then show ?case by simp
next
  case (Cons b bs)
  then show ?case by (simp add: Apply_valid)
qed

text \<open>C29: redelivery is harmless. After a reconnect the server may send again any number of the latest
  batches: applying a suffix of the batches a second time leaves the same rows and the same cursor.\<close>

theorem apply_again:
  assumes "list_all (valid_batch (primaryKey s)) (old @ new)"
  shows "apply_batches s (old @ new @ new) = apply_batches s (old @ new)"
proof -
  let ?pk = "primaryKey s" and ?ch = "\<lambda>bs. concat (map b_Changes bs)"
  have v: "list_all (valid_batch ?pk) (old @ new @ new)" using assms by simp
  have "effects ?pk (?ch (old @ new @ new)) (rows s) = effects ?pk (?ch new) (effects ?pk (?ch new) (effects ?pk (?ch old) (rows s)))"
    by simp
  also have "\<dots> = effects ?pk (?ch (old @ new)) (rows s)"
    by (subst acts_twice [OF acts_effects]) simp
  finally show ?thesis
    unfolding apply_batches_valid [OF v] apply_batches_valid [OF assms] by (auto simp: last_append)
qed

definition text_cell :: "string \<Rightarrow> sdk_value" where
  "text_cell t = \<lparr>v_Text = t, v_Null = False, v_Unchanged = False\<rparr>"

definition kept_cell :: sdk_value where
  "kept_cell = \<lparr>v_Text = [], v_Null = False, v_Unchanged = True\<rparr>"

definition id_row :: "string \<Rightarrow> sdk_value \<Rightarrow> sdk_row" where
  "id_row i v = fmupd ''id'' (text_cell i) (fmupd ''doc'' v fmempty)"

definition id_change :: "sdk_operation \<Rightarrow> string \<Rightarrow> sdk_value \<Rightarrow> sdk_change" where
  "id_change oper i v = \<lparr>c_Operation = oper, c_Table = ''public.docs'', c_Key = fmupd ''id'' i fmempty, c_Values = id_row i v\<rparr>"

definition doc_batch :: "string \<Rightarrow> sdk_change list \<Rightarrow> sdk_batch" where
  "doc_batch cur chs = \<lparr>b_Cursor = cur, b_CommitTime = 0, b_Changes = chs\<rparr>"

theorem apply_again_witness:
  "apply_batches (NewMemoryStore [''id''])
     ([doc_batch ''1'' [id_change Insert ''a'' (text_cell ''x'')]] @
      [doc_batch ''2'' [id_change Update ''a'' kept_cell, id_change Delete ''b'' kept_cell]] @
      [doc_batch ''2'' [id_change Update ''a'' kept_cell, id_change Delete ''b'' kept_cell]]) =
   apply_batches (NewMemoryStore [''id''])
     ([doc_batch ''1'' [id_change Insert ''a'' (text_cell ''x'')]] @
      [doc_batch ''2'' [id_change Update ''a'' kept_cell, id_change Delete ''b'' kept_cell]])"
  by (rule apply_again)
     (simp add: valid_batch_def valid_change_def doc_batch_def id_change_def NewMemoryStore_def keyOf_def)

section \<open>Tracking the source\<close>

text \<open>The source's rows of one scope, by primary-key values.\<close>

type_synonym source_rows = "(string list, sdk_row) fmap"

definition clean_key :: "string list \<Rightarrow> string list \<Rightarrow> bool" where
  "clean_key pk k \<longleftrightarrow> length k = length pk \<and> list_all (\<lambda>p. NUL \<notin> set p) k"

text \<open>A change describes a step of the source: a delete removes its row; an insert or update gives
  the new row, leaving out only values that the step did not touch.\<close>

definition row_described :: "sdk_row option \<Rightarrow> sdk_row \<Rightarrow> sdk_row \<Rightarrow> bool" where
  "row_described cur vals r \<longleftrightarrow> (\<forall>c.
     case fmlookup vals c of
       None \<Rightarrow> fmlookup r c = None
     | Some v \<Rightarrow>
         if v_Unchanged v then (\<exists>old. cur = Some old \<and> fmlookup old c = fmlookup r c)
         else fmlookup r c = Some v)"

definition describes :: "string list \<Rightarrow> sdk_change \<Rightarrow> source_rows \<Rightarrow> source_rows \<Rightarrow> bool" where
  "describes pk ch src src' \<longleftrightarrow>
     (case key_parts pk (c_Key ch) of
        Inl e \<Rightarrow> False
      | Inr k \<Rightarrow> clean_key pk k \<and>
          (case c_Operation ch of
             Delete \<Rightarrow> src' = fmdrop k src
           | OtherOperation \<Rightarrow> False
           | _ \<Rightarrow> (\<exists>r. src' = fmupd k r src \<and> row_described (fmlookup src k) (c_Values ch) r)))"

fun describes_all :: "string list \<Rightarrow> sdk_change list \<Rightarrow> source_rows \<Rightarrow> source_rows \<Rightarrow> bool" where
  "describes_all pk [] src src' = (src' = src)"
| "describes_all pk (ch # chs) src src' = (\<exists>mid. describes pk ch src mid \<and> describes_all pk chs mid src')"

definition holds :: "string list \<Rightarrow> (string, sdk_row) fmap \<Rightarrow> source_rows \<Rightarrow> bool" where
  "holds pk rs src \<longleftrightarrow> (\<forall>k. clean_key pk k \<longrightarrow> fmlookup rs (join_nul k) = fmlookup src k)"

lemma join_nul_clean: "clean_key pk k \<Longrightarrow> clean_key pk l \<Longrightarrow> join_nul k = join_nul l \<longleftrightarrow> k = l"
  using join_nul_inject [of k l] by (auto simp: clean_key_def)

lemma holds_drop: "holds pk rs src \<Longrightarrow> clean_key pk k \<Longrightarrow> holds pk (fmdrop (join_nul k) rs) (fmdrop k src)"
  by (auto simp: holds_def join_nul_clean)

lemma holds_upd: "holds pk rs src \<Longrightarrow> clean_key pk k \<Longrightarrow> holds pk (fmupd (join_nul k) r rs) (fmupd k r src)"
  by (auto simp: holds_def join_nul_clean)

lemma merged_described: "row_described cur vals r \<Longrightarrow> merged cur vals = r"
proof (rule fmap_ext)
  fix c
  assume "row_described cur vals r"
  then show "fmlookup (merged cur vals) c = fmlookup r c"
    unfolding row_described_def by (elim allE [of _ c]) (auto simp: fmlookup_merged split: option.splits if_splits)
qed

lemma effect_tracks:
  assumes "holds pk rs src" "describes pk ch src src'"
  shows "valid_change pk ch" "holds pk (effect pk ch rs) src'"
proof -
  obtain k where k: "key_parts pk (c_Key ch) = Inr k" "clean_key pk k"
    using assms(2) by (auto simp: describes_def split: sum.splits)
  then have key: "keyOf pk (c_Key ch) = Inr (join_nul k)" by (simp add: keyOf_def)
  show "valid_change pk ch" using assms(2) k by (auto simp: valid_change_def describes_def key split: sdk_operation.splits)
  have cur: "fmlookup rs (join_nul k) = fmlookup src k" using assms(1) k(2) by (simp add: holds_def)
  show "holds pk (effect pk ch rs) src'"
  proof (cases "c_Operation ch = Delete")
    case True
    then show ?thesis using assms k key holds_drop by (simp add: effect_def apply_change_def describes_def)
  next
    case False
    then obtain r where r: "src' = fmupd k r src" "merged (fmlookup src k) (c_Values ch) = r"
      using assms(2) k merged_described by (auto simp: describes_def split: sdk_operation.splits)
    have "effect pk ch rs = fmupd (join_nul k) r rs"
      using False assms(2) k key cur r(2) by (auto simp: effect_def apply_change_def describes_def split: sdk_operation.splits)
    then show ?thesis using holds_upd [OF assms(1) k(2)] r(1) by simp
  qed
qed

lemma effects_track:
  "holds pk rs src \<Longrightarrow> describes_all pk chs src src' \<Longrightarrow>
     list_all (valid_change pk) chs \<and> holds pk (effects pk chs rs) src'"
proof (induction chs arbitrary: rs src)
  case (Cons ch chs)
  then obtain mid where mid: "describes pk ch src mid" "describes_all pk chs mid src'" by auto
  show ?case
    using Cons.IH [OF effect_tracks(2) [OF Cons.prems(1) mid(1)] mid(2)] effect_tracks(1) [OF Cons.prems(1) mid(1)]
    by simp
qed simp

section \<open>Installing a snapshot\<close>

definition row_values_of :: "string list \<Rightarrow> sdk_row \<Rightarrow> string list" where
  "row_values_of pk r = map (\<lambda>c. v_Text (the (fmlookup r c))) pk"

definition keyed_row :: "string list \<Rightarrow> sdk_row \<Rightarrow> bool" where
  "keyed_row pk r \<longleftrightarrow> (\<forall>c \<in> set pk. \<exists>v. fmlookup r c = Some v \<and> \<not> v_Null v \<and> \<not> v_Unchanged v \<and> NUL \<notin> set (v_Text v))"

definition table_rows :: "string list \<Rightarrow> sdk_row list \<Rightarrow> source_rows" where
  "table_rows pk rs = fold (\<lambda>r. fmupd (row_values_of pk r) r) rs fmempty"

lemma row_key_ok:
  assumes "\<forall>c \<in> set cols. \<exists>v. fmlookup r c = Some v \<and> \<not> v_Null v \<and> \<not> v_Unchanged v"
  shows "\<exists>key. row_key cols r acc = Inr key \<and>
    (\<forall>c. fmlookup key c = (if c \<in> set cols then Some (v_Text (the (fmlookup r c))) else fmlookup acc c))"
  using assms by (induction cols arbitrary: acc) (fastforce+)

lemma put_row_ok:
  assumes "keyed_row pk r"
  shows "put_row pk w r = Inr (fmupd (join_nul (row_values_of pk r)) r w)" "clean_key pk (row_values_of pk r)"
proof -
  have "\<forall>c \<in> set pk. \<exists>v. fmlookup r c = Some v \<and> \<not> v_Null v \<and> \<not> v_Unchanged v"
    using assms unfolding keyed_row_def by blast
  then obtain key where key: "row_key pk r fmempty = Inr key"
    "\<forall>c. fmlookup key c = (if c \<in> set pk then Some (v_Text (the (fmlookup r c))) else None)"
    using row_key_ok [of pk r fmempty] by auto
  then have "key_parts pk key = Inr (row_values_of pk r)"
    by (auto simp: key_parts_eq row_values_of_def fmlookup_dom'_iff)
  then show "put_row pk w r = Inr (fmupd (join_nul (row_values_of pk r)) r w)"
    using key(1) by (simp add: put_row_def keyOf_def)
  show "clean_key pk (row_values_of pk r)"
    using assms by (auto simp: clean_key_def row_values_of_def keyed_row_def list_all_iff)
qed

lemma Put_ok:
  assumes "list_all (keyed_row pk) rs" "holds pk w src"
  shows "\<exists>w'. Put pk w rs = (w', None) \<and> holds pk w' (fold (\<lambda>r. fmupd (row_values_of pk r) r) rs src)"
  using assms
proof (induction rs arbitrary: w src)
  case (Cons r rs)
  then show ?case using put_row_ok [of pk r] holds_upd [of pk w src "row_values_of pk r" r] by simp
qed simp

text \<open>the store ends with the source's rows. A snapshot whose rows have a primary key, put in any
  number of pieces and committed, followed by batches that describe the
  source's steps after it, leaves under each primary key exactly the row the source has there,
  values the stream did not resend included, and the cursor of the last batch.\<close>

theorem projection_equals_source:
  assumes "list_all (keyed_row (primaryKey s)) (concat pieces)"
    and "describes_all (primaryKey s) (concat (map b_Changes bs)) (table_rows (primaryKey s) (concat pieces)) src"
  shows "\<exists>w s'. Put (primaryKey s) BeginSnapshot (concat pieces) = (w, None) \<and>
    apply_batches (Commit s w) bs = (s', None) \<and>
    (\<forall>k. clean_key (primaryKey s) k \<longrightarrow> fmlookup (rows s') (join_nul k) = fmlookup src k) \<and>
    stored_cursor s' = (if bs = [] then [] else b_Cursor (last bs))"
proof -
  let ?pk = "primaryKey s"
  have "holds ?pk BeginSnapshot fmempty" by (simp add: holds_def BeginSnapshot_def)
  then obtain w where w: "Put ?pk BeginSnapshot (concat pieces) = (w, None)" "holds ?pk w (table_rows ?pk (concat pieces))"
    using Put_ok [OF assms(1)] unfolding table_rows_def by blast
  have v: "list_all (valid_change ?pk) (concat (map b_Changes bs))" "holds ?pk (effects ?pk (concat (map b_Changes bs)) w) src"
    using effects_track [OF w(2) assms(2)] by simp_all
  have "list_all (valid_batch (primaryKey (Commit s w))) bs"
    using v(1) by (auto simp: list_all_iff valid_batch_def Commit_def)
  then have run: "apply_batches (Commit s w) bs =
      ((Commit s w)\<lparr>rows := effects ?pk (concat (map b_Changes bs)) w,
        stored_cursor := (if bs = [] then [] else b_Cursor (last bs))\<rparr>, None)"
    by (simp add: apply_batches_valid Commit_def)
  show ?thesis
    by (intro exI [of _ w] exI conjI, rule w(1), rule run) (use v(2) in \<open>simp_all add: holds_def\<close>)
qed

theorem projection_equals_source_witness:
  "\<exists>w s'. Put [''id''] BeginSnapshot [id_row ''a'' (text_cell ''x'')] = (w, None) \<and>
    apply_batches (Commit (NewMemoryStore [''id'']) w)
      [doc_batch ''2'' [id_change Update ''a'' kept_cell]] = (s', None) \<and>
    fmlookup (rows s') ''a'' = Some (id_row ''a'' (text_cell ''x''))"
proof -
  let ?s = "NewMemoryStore [''id'']" and ?r = "id_row ''a'' (text_cell ''x'')"
  have src: "table_rows [''id''] [?r] = fmupd [''a''] ?r fmempty"
    by (simp add: table_rows_def row_values_of_def id_row_def text_cell_def)
  have d: "describes_all (primaryKey ?s) (concat (map b_Changes [doc_batch ''2'' [id_change Update ''a'' kept_cell]]))
      (table_rows (primaryKey ?s) (concat [[?r]])) (fmupd [''a''] ?r fmempty)"
    by (simp add: NewMemoryStore_def src doc_batch_def)
       (auto simp: describes_def row_described_def id_change_def clean_key_def NUL_def id_row_def kept_cell_def text_cell_def)
  have "list_all (keyed_row (primaryKey ?s)) (concat [[?r]])"
    by (simp add: NewMemoryStore_def keyed_row_def id_row_def text_cell_def NUL_def)
  from projection_equals_source [OF this d] obtain w s' where ws:
      "Put (primaryKey ?s) BeginSnapshot (concat [[?r]]) = (w, None)"
      "apply_batches (Commit ?s w) [doc_batch ''2'' [id_change Update ''a'' kept_cell]] = (s', None)"
      "\<forall>k. clean_key (primaryKey ?s) k \<longrightarrow> fmlookup (rows s') (join_nul k) = fmlookup (fmupd [''a''] ?r fmempty) k" by blast
  have "fmlookup (rows s') ''a'' = Some ?r"
    using ws(3) [rule_format, of "[''a'']"] by (simp add: NewMemoryStore_def clean_key_def NUL_def)
  moreover have "Put [''id''] BeginSnapshot [?r] = (w, None)" using ws(1) by (simp add: NewMemoryStore_def)
  ultimately show ?thesis using ws(2) by blast
qed

end
