(* ===== verification/Client_Correct.thy ===== *)
theory Client_Correct
  imports Client Store_Correct
begin

text \<open>
  What a client can rely on: it calls its projection fresh only when the server has, a broken-off
  snapshot does not show, a complete one is installed as the source's rows, and reconnects are bounded.
\<close>

section \<open>Freshness\<close>

text \<open>What the received messages alone say: the cursor of the last \<open>Progress\<close> since the last
  \<open>SnapshotBegin\<close>, if any.\<close>

fun confirmed :: "string option \<Rightarrow> recv list \<Rightarrow> string option" where
  "confirmed c [] = c"
| "confirmed c (Received (WProgress cursor) # rs) = confirmed (Some cursor) rs"
| "confirmed c (Received WSnapshotBegin # rs) = confirmed None rs"
| "confirmed c (_ # rs) = confirmed c rs"

definition fresh_at :: "state \<Rightarrow> string option" where
  "fresh_at st = (if st_Fresh st then Some (st_Cursor st) else None)"

lemma setState_state [simp]:
  "sy_state (setState fresh cursor sy) = \<lparr>st_Fresh = fresh, st_Cursor = cursor\<rparr>"
  "sy_store (setState fresh cursor sy) = sy_store sy" "sy_progressed (setState fresh cursor sy) = sy_progressed sy"
  by (simp_all add: setState_def Let_def)

lemma handle_fresh:
  assumes "handle ops sy w r = (sy', w', None)"
  shows "fresh_at (sy_state sy') = confirmed (fresh_at (sy_state sy)) [r]"
  using assms
  by (cases r) (auto simp: handle_def fresh_at_def Let_def split: wire_event.splits option.splits prod.splits sum.splits)

lemma confirmed_Cons: "confirmed c (r # rs) = confirmed (confirmed c [r]) rs"
  by (cases "(c, r # rs)" rule: confirmed.cases) simp_all

lemma receive_loop_fresh:
  "receive_loop ops sy w rs = (sy', w', None) \<Longrightarrow> fresh_at (sy_state sy') = confirmed (fresh_at (sy_state sy)) rs"
proof (induction rs arbitrary: sy w)
  case (Cons r rs)
  obtain sy1 w1 where h: "handle ops sy w r = (sy1, w1, None)" "receive_loop ops sy1 w1 rs = (sy', w', None)"
    using Cons.prems by (auto split: prod.splits option.splits)
  show ?case using Cons.IH [OF h(2)] handle_fresh [OF h(1)] confirmed_Cons by metis
qed simp

text \<open>The state last reported is the current one; before the first report it is stale.\<close>

definition log_ok :: "'s syncer \<Rightarrow> bool" where
  "log_ok sy \<longleftrightarrow> (if sy_log sy = [] then \<not> sy_reported sy \<and> \<not> st_Fresh (sy_state sy)
     else sy_reported sy \<and> last (sy_log sy) = sy_state sy)"

lemma log_ok_update [simp]:
  "log_ok (sy\<lparr>sy_store := st\<rparr>) = log_ok sy" "log_ok (sy\<lparr>sy_progressed := b\<rparr>) = log_ok sy"
  by (simp_all add: log_ok_def)

lemma setState_log [simp]: "log_ok sy \<Longrightarrow> log_ok (setState fresh cursor sy)"
  by (auto simp: log_ok_def setState_def Let_def)

lemma handle_log: "log_ok sy \<Longrightarrow> handle ops sy w r = (sy', w', e) \<Longrightarrow> log_ok sy'"
  by (cases r) (auto simp: handle_def Let_def split: wire_event.splits option.splits prod.splits sum.splits)

lemma receive_loop_log: "log_ok sy \<Longrightarrow> receive_loop ops sy w rs = (sy', w', e) \<Longrightarrow> log_ok sy'"
proof (induction rs arbitrary: sy w)
  case (Cons r rs)
  obtain sy1 w1 e1 where h: "handle ops sy w r = (sy1, w1, e1)" by (cases "handle ops sy w r") auto
  have "log_ok sy1" by (rule handle_log [OF Cons.prems(1) h])
  then show ?case using Cons.IH Cons.prems(2) h by (cases e1) auto
qed simp

lemma sdk_stream_log:
  assumes "log_ok sy" "sdk_stream ops snapshot open_err rs sy = (sy', e)"
  shows "log_ok sy'"
  using assms receive_loop_log [of "sy\<lparr>sy_progressed := False\<rparr>" ops None rs]
  by (auto simp: sdk_stream_def Let_def split: sum.splits option.splits prod.splits)

lemma sdk_stream_open:
  assumes "sdk_stream ops snapshot open_err rs sy = (sy', None)"
  shows "fresh_at (sy_state sy') = confirmed (fresh_at (sy_state sy)) rs"
  using assms receive_loop_fresh [of ops "sy\<lparr>sy_progressed := False\<rparr>" None rs]
  by (auto simp: sdk_stream_def Let_def split: sum.splits option.splits prod.splits)

lemma sync_loop_fresh:
  assumes "log_ok sy" "fresh_at (sy_state sy) = None" "sync_loop ops bounds sy v as = (sy', v', p)"
  shows "log_ok sy' \<and> fresh_at (sy_state sy') = (case p of InStream rs \<Rightarrow> confirmed None rs | _ \<Rightarrow> None)"
  using assms
proof (induction as arbitrary: sy v)
  case (Cons a as)
  obtain sy1 e where st: "sdk_stream ops (sv_snapshot v) (at_openErr a) (at_recvs a) sy = (sy1, e)"
    by (cases "sdk_stream ops (sv_snapshot v) (at_openErr a) (at_recvs a) sy")
  have log: "log_ok sy1" by (rule sdk_stream_log [OF Cons.prems(1) st])
  show ?case
  proof (cases e)
    case None
    then show ?thesis using Cons.prems(2,3) st log sdk_stream_open [OF st [unfolded None]] by auto
  next
    case (Some err)
    let ?sy2 = "setState False (st_Cursor (sy_state sy1)) sy1"
    have ok: "log_ok ?sy2" "fresh_at (sy_state ?sy2) = None" using log by (simp_all add: fresh_at_def)
    show ?thesis
      using Cons.prems(3) st Some ok Cons.IH [OF ok] by (auto simp: Let_def split: prod.splits decision.splits if_splits)
  qed
qed simp

text \<open>C30: the client is fresh exactly when the server said so. Over any sequence of streams, whatever each of
  them met, the state \<open>Sync\<close> is in is fresh exactly while a stream is open on which a \<open>Progress\<close> came after the last
  \<open>SnapshotBegin\<close>, and then with the cursor of the last such \<open>Progress\<close>; it is stale between streams and once \<open>Sync\<close> has
  returned; and it is the state last reported to \<open>OnState\<close>, if any was. This holds for every store.\<close>

theorem fresh_exact:
  assumes "Sync ops projection minB maxB store attempts = (sy, v, p)"
  shows "(if st_Fresh (sy_state sy) then Some (st_Cursor (sy_state sy)) else None) =
      (case p of InStream rs \<Rightarrow> confirmed None rs | _ \<Rightarrow> None) \<and>
    (if sy_log sy = [] then \<not> st_Fresh (sy_state sy) else last (sy_log sy) = sy_state sy)"
proof (cases "projection = []")
  case True
  then show ?thesis using assms by (auto simp: Sync_def Let_def)
next
  case False
  then have run: "sync_loop ops (sync_bounds minB maxB) \<lparr>sy_store = store, sy_state = \<lparr>st_Fresh = False, st_Cursor = []\<rparr>, sy_reported = False, sy_progressed = False, sy_log = []\<rparr>
      \<lparr>sv_backoff = fst (sync_bounds minB maxB), sv_snapshot = False, sv_resyncs = 0\<rparr> attempts = (sy, v, p)"
    using assms by (simp add: Sync_def Let_def)
  show ?thesis
    using sync_loop_fresh [OF _ _ run] by (simp add: log_ok_def fresh_at_def split: if_splits)
qed

definition new_syncer :: "memoryStore \<Rightarrow> memoryStore syncer" where
  "new_syncer s = \<lparr>sy_store = s, sy_state = \<lparr>st_Fresh = False, st_Cursor = []\<rparr>, sy_reported = False, sy_progressed = False, sy_log = []\<rparr>"

text \<open>A stream that installs a snapshot, confirms it and breaks, and a second one that resumes and is still open.\<close>

definition two_streams :: "attempt list" where
  "two_streams =
     [\<lparr>at_openErr = None, at_recvs = [Received WSnapshotBegin, Received WSnapshotEnd, Received (WProgress ''s@7''), RecvError Unavailable],
        at_ctxDone = False, at_random = 0, at_waitDone = False\<rparr>,
      \<lparr>at_openErr = None, at_recvs = [Received (WProgress ''s@9'')], at_ctxDone = False, at_random = 0, at_waitDone = False\<rparr>]"

theorem fresh_exact_witness:
  "st_Fresh (sy_state (fst (Sync memory_ops ''items'' 0 0 (NewMemoryStore [''id'']) two_streams))) \<and>
   \<not> st_Fresh (sy_state (fst (Sync memory_ops ''items'' 0 0 (NewMemoryStore [''id'']) (take 1 two_streams))))"
proof -
  obtain sy v where two: "Sync memory_ops ''items'' 0 0 (NewMemoryStore [''id'']) two_streams = (sy, v, InStream [Received (WProgress ''s@9'')])"
    by (simp add: two_streams_def Sync_def Let_def sdk_stream_def stream_cursor_def handle_def memory_ops_def setState_def
        sync_turn_def isPermanent_def)
  obtain sy1 v1 where one: "Sync memory_ops ''items'' 0 0 (NewMemoryStore [''id'']) (take 1 two_streams) = (sy1, v1, BetweenStreams)"
    by (simp add: two_streams_def Sync_def Let_def sdk_stream_def stream_cursor_def handle_def memory_ops_def setState_def
        sync_turn_def isPermanent_def)
  show ?thesis using fresh_exact [OF two] fresh_exact [OF one] two one by (auto split: if_splits)
qed

section \<open>Broken-off snapshots\<close>

text \<open>Outcomes of \<open>Recv\<close> that neither end a snapshot nor are live events.\<close>

fun before_end :: "recv \<Rightarrow> bool" where
  "before_end (Received WSnapshotEnd) = False"
| "before_end (Received (WBatch b)) = False"
| "before_end (Received (WProgress c)) = False"
| "before_end _ = True"

text \<open>What \<open>Store\<close> promises of a snapshot that is being written: nothing of it shows.\<close>

locale projection_store =
  fixes ops :: "('s, 'w) store_ops"
    and view :: "'s \<Rightarrow> 'v"
  assumes begin_keeps: "op_BeginSnapshot ops s = (s', r) \<Longrightarrow> view s' = view s"
    and put_keeps: "op_Put ops s w rs = (s', w', e) \<Longrightarrow> view s' = view s"
    and abort_keeps: "view (op_Abort ops s w) = view s"
begin

lemma handle_keeps:
  assumes "handle ops sy w r = (sy', w', e)" "before_end r"
  shows "view (sy_store sy') = view (sy_store sy)"
  using assms begin_keeps put_keeps
  by (cases r) (auto simp: handle_def Let_def split: wire_event.splits option.splits prod.splits sum.splits)

lemma receive_loop_keeps:
  "receive_loop ops sy w rs = (sy', w', e) \<Longrightarrow> list_all before_end rs \<Longrightarrow> view (sy_store sy') = view (sy_store sy)"
proof (induction rs arbitrary: sy w)
  case (Cons r rs)
  obtain sy1 w1 e1 where h: "handle ops sy w r = (sy1, w1, e1)" by (cases "handle ops sy w r") auto
  then have "view (sy_store sy1) = view (sy_store sy)" using handle_keeps Cons.prems(2) by simp
  then show ?case using Cons h by (cases e1) auto
qed simp

lemma stream_keeps:
  assumes "list_all before_end rs"
  shows "view (sy_store (fst (sdk_stream ops snap open_err rs sy))) = view (sy_store sy)"
  using receive_loop_keeps [OF _ assms, of "sy\<lparr>sy_progressed := False\<rparr>" None] abort_keeps
  by (auto simp: sdk_stream_def Let_def split: sum.splits option.splits prod.splits)

end

interpretation memory_store: projection_store memory_ops "\<lambda>s. (rows s, stored_cursor s)"
  by unfold_locales (auto simp: memory_ops_def)

text \<open>C31: a snapshot that breaks off does not show. Whatever ends the stream before \<open>SnapshotEnd\<close> (and
  before any live event), the in-memory store keeps the rows and the cursor it had.\<close>

theorem broken_snapshot_invisible:
  assumes "list_all before_end rs"
  shows "rows (sy_store (fst (sdk_stream memory_ops snap open_err rs sy))) = rows (sy_store sy) \<and>
    stored_cursor (sy_store (fst (sdk_stream memory_ops snap open_err rs sy))) = stored_cursor (sy_store sy)"
  using memory_store.stream_keeps [of rs snap open_err sy] assms by simp

theorem broken_snapshot_invisible_witness:
  "rows (sy_store (fst (sdk_stream memory_ops True None
     [Received WSnapshotBegin, Received (WSnapshotRows [fmupd ''id'' (WText ''b'') fmempty]), RecvError Unavailable]
     (new_syncer \<lparr>primaryKey = [''id''], rows = fmupd ''a'' fmempty fmempty, stored_cursor = ''s@3''\<rparr>)))) = fmupd ''a'' fmempty fmempty"
  using broken_snapshot_invisible [of "[Received WSnapshotBegin, Received (WSnapshotRows [fmupd ''id'' (WText ''b'') fmempty]), RecvError Unavailable]"
      True None "new_syncer \<lparr>primaryKey = [''id''], rows = fmupd ''a'' fmempty fmempty, stored_cursor = ''s@3''\<rparr>"]
  by (simp add: new_syncer_def)

section \<open>A complete stream\<close>

lemma receive_loop_append:
  "receive_loop ops sy w (rs @ rs') =
     (case receive_loop ops sy w rs of
        (sy', w', None) \<Rightarrow> receive_loop ops sy' w' rs' | (sy', w', Some e) \<Rightarrow> (sy', w', Some e))"
  by (induction rs arbitrary: sy w) (auto split: prod.splits option.splits)

lemma receive_rows:
  assumes "Put (primaryKey (sy_store sy)) w (concat (map (map convertValues) pieces)) = (w', None)"
  shows "receive_loop memory_ops sy (Some w) (map (\<lambda>p. Received (WSnapshotRows p)) pieces) = (sy, Some w', None)"
proof -
  have app: "Put pk v (rs @ rs') = (case Put pk v rs of (v', None) \<Rightarrow> Put pk v' rs' | (v', Some e) \<Rightarrow> (v', Some e))" for pk v rs rs'
    by (induction rs arbitrary: v) (auto split: sum.splits)
  show ?thesis using assms
  proof (induction pieces arbitrary: w)
    case (Cons p pieces)
    then obtain w1 where w1: "Put (primaryKey (sy_store sy)) w (map convertValues p) = (w1, None)"
      "Put (primaryKey (sy_store sy)) w1 (concat (map (map convertValues) pieces)) = (w', None)"
      by (auto simp: app split: prod.splits option.splits)
    have "handle memory_ops sy (Some w) (Received (WSnapshotRows p)) = (sy, Some w1, None)"
      using w1(1) by (simp add: handle_def memory_ops_def)
    then show ?case using Cons.IH [OF w1(2)] by simp
  qed simp
qed

lemma receive_batches:
  assumes "apply_batches (sy_store sy) (map sdk_convertBatch bs) = (st, None)"
  shows "receive_loop memory_ops sy None (map (\<lambda>b. Received (WBatch b)) bs) = (sy\<lparr>sy_store := st\<rparr>, None, None)"
  using assms
proof (induction bs arbitrary: sy)
  case (Cons b bs)
  obtain st1 where st1: "Apply (sy_store sy) (sdk_convertBatch b) = (st1, None)" "apply_batches st1 (map sdk_convertBatch bs) = (st, None)"
    using Cons.prems by (auto split: prod.splits option.splits)
  have "handle memory_ops sy None (Received (WBatch b)) = (sy\<lparr>sy_store := st1\<rparr>, None, None)"
    using st1(1) by (simp add: handle_def memory_ops_def)
  then show ?case using Cons.IH [of "sy\<lparr>sy_store := st1\<rparr>"] st1(2) by simp
qed simp

text \<open>a complete stream leaves the source's rows and a fresh state. After \<open>SnapshotBegin\<close>, the
  snapshot's rows in any pieces, \<open>SnapshotEnd\<close>, batches that describe the source's later steps, and a
  \<open>Progress\<close>, the store holds under each primary key the row the source has there, the cursor saved and the
  cursor reported fresh are the one of the \<open>Progress\<close>, whatever the store held before.\<close>

theorem stream_installs_source:
  fixes sy :: "memoryStore syncer"
  defines "pk \<equiv> primaryKey (sy_store sy)"
  assumes "list_all (keyed_row pk) (concat (map (map convertValues) pieces))"
    and "describes_all pk (concat (map (\<lambda>b. b_Changes (sdk_convertBatch b)) bs))
      (table_rows pk (concat (map (map convertValues) pieces))) src"
  shows "\<exists>sy'. receive_loop memory_ops sy None
      (Received WSnapshotBegin # map (\<lambda>p. Received (WSnapshotRows p)) pieces @ [Received WSnapshotEnd] @
        map (\<lambda>b. Received (WBatch b)) bs @ [Received (WProgress c)]) = (sy', None, None) \<and>
    (\<forall>k. clean_key pk k \<longrightarrow> fmlookup (rows (sy_store sy')) (join_nul k) = fmlookup src k) \<and>
    stored_cursor (sy_store sy') = c \<and> sy_state sy' = \<lparr>st_Fresh = True, st_Cursor = c\<rparr> \<and> sy_progressed sy'"
proof -
  let ?sy1 = "setState False [] sy"
  have d: "describes_all pk (concat (map b_Changes (map sdk_convertBatch bs)))
      (table_rows pk (concat (map (map convertValues) pieces))) src" using assms(3) by (simp add: comp_def)
  obtain w st where w: "Put pk BeginSnapshot (concat (map (map convertValues) pieces)) = (w, None)"
    and st: "apply_batches (Commit (sy_store sy) w) (map sdk_convertBatch bs) = (st, None)"
    and rows: "\<forall>k. clean_key pk k \<longrightarrow> fmlookup (rows st) (join_nul k) = fmlookup src k"
    using projection_equals_source [OF assms(2) [unfolded pk_def] d [unfolded pk_def]] unfolding pk_def by blast
  have start: "handle memory_ops sy None (Received WSnapshotBegin) = (?sy1, Some BeginSnapshot, None)"
    by (simp add: handle_def memory_ops_def Let_def setState_def)
  have put: "receive_loop memory_ops ?sy1 (Some BeginSnapshot) (map (\<lambda>p. Received (WSnapshotRows p)) pieces) = (?sy1, Some w, None)"
    by (rule receive_rows) (use w in \<open>simp add: pk_def\<close>)
  have commit: "handle memory_ops ?sy1 (Some w) (Received WSnapshotEnd) = (?sy1\<lparr>sy_store := Commit (sy_store sy) w\<rparr>, None, None)"
    by (simp add: handle_def memory_ops_def)
  have batches: "receive_loop memory_ops (?sy1\<lparr>sy_store := Commit (sy_store sy) w\<rparr>) None (map (\<lambda>b. Received (WBatch b)) bs) =
      (?sy1\<lparr>sy_store := st\<rparr>, None, None)"
    using receive_batches [of "?sy1\<lparr>sy_store := Commit (sy_store sy) w\<rparr>" bs st] st by simp
  have prog: "handle memory_ops (?sy1\<lparr>sy_store := st\<rparr>) None (Received (WProgress c)) =
      (setState True c (?sy1\<lparr>sy_store := SaveCursor st c, sy_progressed := True\<rparr>), None, None)"
    by (simp add: handle_def memory_ops_def)
  show ?thesis
    by (rule exI [of _ "setState True c (?sy1\<lparr>sy_store := SaveCursor st c, sy_progressed := True\<rparr>)"])
       (use rows in \<open>simp add: start receive_loop_append put commit batches prog SaveCursor_def\<close>)
qed

theorem stream_installs_source_witness:
  "\<exists>sy'. receive_loop memory_ops (new_syncer (NewMemoryStore [''id''])) None
      [Received WSnapshotBegin, Received (WSnapshotRows [fmupd ''id'' (WText ''a'') fmempty]), Received WSnapshotEnd,
       Received (WProgress ''s@7'')] = (sy', None, None) \<and>
    fmlookup (rows (sy_store sy')) ''a'' = Some (fmupd ''id'' (text_cell ''a'') fmempty) \<and> st_Fresh (sy_state sy')"
proof -
  let ?sy = "new_syncer (NewMemoryStore [''id''])" and ?r = "fmupd ''id'' (text_cell ''a'') fmempty"
  have r: "convertValues (fmupd ''id'' (WText ''a'') fmempty) = ?r"
    by (rule fmap_ext) (simp add: convertValues_def text_cell_def)
  have k: "list_all (keyed_row (primaryKey (sy_store ?sy))) (concat (map (map convertValues) [[fmupd ''id'' (WText ''a'') fmempty]]))"
    by (simp add: r keyed_row_def new_syncer_def NewMemoryStore_def text_cell_def NUL_def)
  have d: "describes_all (primaryKey (sy_store ?sy)) (concat (map (\<lambda>b. b_Changes (sdk_convertBatch b)) []))
      (table_rows (primaryKey (sy_store ?sy)) (concat (map (map convertValues) [[fmupd ''id'' (WText ''a'') fmempty]])))
      (fmupd [''a''] ?r fmempty)"
    by (simp add: r table_rows_def row_values_of_def new_syncer_def NewMemoryStore_def text_cell_def)
  obtain sy' where sy': "receive_loop memory_ops ?sy None
      (Received WSnapshotBegin # map (\<lambda>p. Received (WSnapshotRows p)) [[fmupd ''id'' (WText ''a'') fmempty]] @ [Received WSnapshotEnd] @
        map (\<lambda>b. Received (WBatch b)) [] @ [Received (WProgress ''s@7'')]) = (sy', None, None)"
    "\<forall>k. clean_key (primaryKey (sy_store ?sy)) k \<longrightarrow> fmlookup (rows (sy_store sy')) (join_nul k) = fmlookup (fmupd [''a''] ?r fmempty) k"
    "sy_state sy' = \<lparr>st_Fresh = True, st_Cursor = ''s@7''\<rparr>"
    using stream_installs_source [OF k d, of "''s@7''"] by blast
  have "fmlookup (rows (sy_store sy')) ''a'' = Some ?r"
    using sy'(2) [rule_format, of "[''a'']"] by (simp add: new_syncer_def NewMemoryStore_def clean_key_def NUL_def)
  then show ?thesis using sy'(1,3) by (intro exI [of _ sy']) simp
qed

section \<open>Reconnecting\<close>









text \<open>\<open>Sync\<close> never returns while it reports its projection fresh, whatever its streams brought.\<close>

theorem Sync_returns_stale:
  assumes "Sync ops projection minB maxB store attempts = (sy, v, Returned r)"
  shows "\<not> st_Fresh (sy_state sy)"
proof (cases "projection = []")
  case False
  then show ?thesis
    using assms sync_loop_fresh [of _ ops "sync_bounds minB maxB" _ attempts sy v "Returned r"]
    by (fastforce simp: Sync_def Let_def log_ok_def fresh_at_def split: if_splits)
qed (use assms in \<open>auto simp: Sync_def Let_def\<close>)

text \<open>A resync after confirmed progress is not always acted on at once. Two streams that each confirm
  progress and then ask for a resync: the loop goes on at once after the first one and waits
  after the second, because it compares its count before the confirmed progress resets it.\<close>

theorem resync_after_progress_waits:
  "let first = sync_turn (sync_bounds 0 0) False random True EndResync \<lparr>sv_backoff = 100000000, sv_snapshot = False, sv_resyncs = 0\<rparr>
   in fst first = RetryNow \<and> fst (sync_turn (sync_bounds 0 0) False random True EndResync (snd first)) = RetryAfter (sync_wait 100000000 random)"
  by (simp add: sync_turn_def sync_bounds_def defaultMinBackoff_def Let_def)

text \<open>A backoff of \<open>2 ^ 62\<close> nanoseconds or more, which a large enough \<open>MinBackoff\<close> or \<open>MaxBackoff\<close> allows, doubles to
  a negative one: from then on the client does not wait.\<close>

lemma backoff_overflows:
  assumes "2 ^ 62 \<le> sv_backoff v" "sv_backoff v < 2 ^ 63" "sync_turn bounds False random False EndOther v = (d, v')"
  shows "sv_backoff v' < 0"
proof -
  have "sv_backoff v' \<le> wrap64 (sv_backoff v * 2)" using assms(3) by (auto simp: sync_turn_def isPermanent_def Let_def)
  also have "\<dots> < 0" using wrap64_over [of "sv_backoff v * 2"] assms(1,2) by simp
  finally show ?thesis .
qed

end
