(* ===== verification/Server_Correct.thy ===== *)
theory Server_Correct
  imports Server Client_Correct Decoder_Correct
begin

text \<open>
  The wire between the hub and the client: cursors survive it, snapshot rows are packed within their bound,
  changes arrive as the decoder made them, and errors get a status the client treats as meant.
\<close>

section \<open>Cursors\<close>

lemma contains_single: "contains s [c] \<longleftrightarrow> c \<in> set s"
  by (auto simp: contains_iff in_set_conv_decomp)

lemma NewServer_ok:
  assumes "NewServer src maxBytes b = Inr s"
  shows "srv_sourceID s = src" "src \<noteq> []" "cursorSeparator \<notin> set src" "0 < srv_maxRowsMessageBytes s"
  using assms by (auto simp: NewServer_def contains_single defaultMaxRowsMessageBytes_def split: if_splits)

lemma decode_encode:
  assumes "NewServer src maxBytes b = Inr s" "\<And>l. parse_lsn (lsn_string l) = Some l" "cur_source c = src"
  shows "decodeCursor parse_lsn s (encodeCursor lsn_string s c) = Inr c"
proof -
  note n = NewServer_ok [OF assms(1)]
  have "cut_on cursorSeparator (src @ cursorSeparator # cursorString lsn_string c) = Some (src, cursorString lsn_string c)"
    using n(3) by (rule cut_on_append)
  then show ?thesis
    using n(1,2) assms(2,3) ParseCursor_cursorString [of parse_lsn lsn_string src c]
    by (simp add: decodeCursor_def encodeCursor_def)
qed

text \<open>C32: cursors survive the wire. A cursor of the server's source is read back as it was, text from
  any other source is refused, and comparing two cursors through the API gives the client what
  comparing them in the server gives. The LSN parser is taken to invert the LSN printer.\<close>

theorem wire_cursor_roundtrip:
  assumes "NewServer src maxBytes b = Inr s" and "\<And>l. parse_lsn (lsn_string l) = Some l"
    and "cur_source c = src" and "cur_source d = src"
  shows "decodeCursor parse_lsn s (encodeCursor lsn_string s c) = Inr c \<and>
    (decodeCursor parse_lsn s txt = Inr e \<longrightarrow> cur_source e = src \<and> (\<exists>p. txt = src @ cursorSeparator # p)) \<and>
    sdk_order (CompareCursors parse_lsn s (encodeCursor lsn_string s c) (encodeCursor lsn_string s d)) =
      (case Compare c d of Inl x \<Rightarrow> Inl (Some InvalidArgument) | Inr i \<Rightarrow> Inr i)"
proof -
  note dec = decode_encode [OF assms(1,2)]
  have "decodeCursor parse_lsn s txt = Inr e \<Longrightarrow> cur_source e = src \<and> (\<exists>p. txt = src @ cursorSeparator # p)"
    using NewServer_ok(1) [OF assms(1)]
    by (auto simp: decodeCursor_def cut_on_Some dest: ParseCursor_source split: option.splits if_splits sum.splits)
  moreover have "sdk_order (CompareCursors parse_lsn s (encodeCursor lsn_string s c) (encodeCursor lsn_string s d)) =
      (case Compare c d of Inl x \<Rightarrow> Inl (Some InvalidArgument) | Inr i \<Rightarrow> Inr i)"
    by (auto simp: CompareCursors_def dec assms(3,4) Compare_def order_of_def)
  ultimately show ?thesis using dec [OF assms(3)] by blast
qed

text \<open>A printer and parser of LSNs in unary, for examples.\<close>

definition unary :: "lsn \<Rightarrow> string" where
  "unary l = replicate (unat l) (CHR ''i'')"

definition from_unary :: "string \<Rightarrow> lsn option" where
  "from_unary txt = Some (of_nat (length txt))"

lemma from_unary_unary: "from_unary (unary l) = Some l"
  by (simp add: unary_def from_unary_def)

theorem wire_cursor_roundtrip_witness:
  "decodeCursor from_unary \<lparr>srv_sourceID = ''s'', srv_maxRowsMessageBytes = 8\<rparr> ''s@iii'' = Inr \<lparr>cur_source = ''s'', cur_lsn = 3\<rparr>"
proof -
  let ?s = "\<lparr>srv_sourceID = ''s'', srv_maxRowsMessageBytes = 8\<rparr>" and ?c = "\<lparr>cur_source = ''s'', cur_lsn = 3\<rparr>"
  have "NewServer ''s'' 8 True = Inr ?s" by (simp add: NewServer_def cursorSeparator_def)
  from wire_cursor_roundtrip [OF this from_unary_unary, of ?c ?c] have "decodeCursor from_unary ?s (encodeCursor unary ?s ?c) = Inr ?c"
    by simp
  moreover have "unary 3 = ''iii''" by code_simp
  ultimately show ?thesis by (simp add: encodeCursor_def cursorString_def cursorSeparator_def)
qed

section \<open>Packing rows\<close>

fun rows_of :: "wire_event \<Rightarrow> wire_row list" where
  "rows_of (WSnapshotRows rs) = rs"
| "rows_of _ = []"

definition packed :: "(wire_row \<Rightarrow> int) \<Rightarrow> int \<Rightarrow> wire_row list \<Rightarrow> bool" where
  "packed row_size maxBytes message \<longleftrightarrow> message \<noteq> [] \<and> (sum_list (map row_size message) \<le> maxBytes \<or> length message = 1)"

lemma send_rows_spec:
  assumes "\<And>sent. fails sent = None" "\<And>r. 0 \<le> row_size r" "messageBytes = sum_list (map row_size message)"
    "message = [] \<or> packed row_size maxBytes message"
  shows "\<exists>ms. send_rows row_size fails maxBytes rs sent message messageBytes = (sent @ map WSnapshotRows ms, None) \<and>
    concat ms = message @ map convertRow rs \<and> list_all (packed row_size maxBytes) ms"
  using assms(3,4)
proof (induction rs arbitrary: sent message messageBytes)
  case Nil
  show ?case
  proof (cases "message = []")
    case True
    then show ?thesis by (intro exI [of _ "[]"]) (simp add: flush_def)
  next
    case False
    then show ?thesis using Nil by (intro exI [of _ "[message]"]) (simp add: flush_def sendMessage_def assms(1))
  qed
next
  case (Cons r rs)
  let ?r = "convertRow r"
  have single: "packed row_size maxBytes [?r]" by (simp add: packed_def)
  show ?case
  proof (cases "messageBytes + row_size ?r > maxBytes")
    case True
    have fl: "flush fails sent message = (if message = [] then sent else sent @ [WSnapshotRows message], None)"
      by (simp add: flush_def sendMessage_def assms(1))
    obtain ms where ms: "send_rows row_size fails maxBytes rs (if message = [] then sent else sent @ [WSnapshotRows message]) [?r] (row_size ?r) =
        ((if message = [] then sent else sent @ [WSnapshotRows message]) @ map WSnapshotRows ms, None)"
      "concat ms = [?r] @ map convertRow rs" "list_all (packed row_size maxBytes) ms"
      using Cons.IH [of "row_size ?r" "[?r]"] single by auto
    have "send_rows row_size fails maxBytes (r # rs) sent message messageBytes =
        ((if message = [] then sent else sent @ [WSnapshotRows message]) @ map WSnapshotRows ms, None)"
      using True fl ms(1) by (simp add: Let_def)
    then show ?thesis
      using ms(2,3) Cons.prems(2) by (intro exI [of _ "if message = [] then ms else message # ms"]) auto
  next
    case False
    have "packed row_size maxBytes (message @ [?r])" using False Cons.prems by (auto simp: packed_def)
    then obtain ms where "send_rows row_size fails maxBytes rs sent (message @ [?r]) (messageBytes + row_size ?r) = (sent @ map WSnapshotRows ms, None)"
      "concat ms = (message @ [?r]) @ map convertRow rs" "list_all (packed row_size maxBytes) ms"
      using Cons.IH [of "messageBytes + row_size ?r" "message @ [?r]"] Cons.prems(1) by auto
    then show ?thesis using False by (intro exI [of _ ms]) (simp add: Let_def)
  qed
qed

text \<open>C33: snapshot rows are packed within their bound. When its sends succeed, \<open>sendRows\<close> sends the rows in
  order, each once, in messages that are not empty and whose rows together stay within the
  configured size, but for a single row that is larger. A message size is never negative.\<close>

theorem sendRows_packs:
  assumes "\<And>sent. fails sent = None" and "\<And>r. 0 \<le> row_size r"
  shows "\<exists>ms. sendRows row_size fails s rs sent = (sent @ map WSnapshotRows ms, None) \<and> concat ms = map convertRow rs \<and>
    (\<forall>m \<in> set ms. m \<noteq> [] \<and> (sum_list (map row_size m) \<le> srv_maxRowsMessageBytes s \<or> length m = 1))"
  using send_rows_spec [where fails = fails and row_size = row_size and messageBytes = 0 and message = "[]"
      and maxBytes = "srv_maxRowsMessageBytes s" and rs = rs and sent = sent] assms
  by (auto simp: sendRows_def packed_def list_all_iff)

theorem sendRows_packs_witness:
  "\<exists>ms. sendRows (\<lambda>r. 5) (\<lambda>_. None) \<lparr>srv_sourceID = ''s'', srv_maxRowsMessageBytes = 8\<rparr>
      [[(''id'', Some ''a'')], [(''id'', Some ''b'')]] [] = (map WSnapshotRows ms, None) \<and> concat ms = map convertRow [[(''id'', Some ''a'')], [(''id'', Some ''b'')]]"
  using sendRows_packs [of "\<lambda>_. None" "\<lambda>r. 5" "\<lparr>srv_sourceID = ''s'', srv_maxRowsMessageBytes = 8\<rparr>"
      "[[(''id'', Some ''a'')], [(''id'', Some ''b'')]]" "[]"] by auto

section \<open>Changes\<close>

fun wire_of :: "val \<Rightarrow> wire_value option" where
  "wire_of v = (case Kind v of ValueText \<Rightarrow> Some (WText (Text v)) | ValueNull \<Rightarrow> Some WNull
     | ValueUnchangedToast \<Rightarrow> Some WUnchangedToast | OtherKind k \<Rightarrow> None)"

lemma convert_values_spec:
  assumes "distinct columns" "i + length vs \<le> length columns" "list_all (\<lambda>v. wire_of v \<noteq> None) vs"
  shows "\<exists>m. convert_values columns vs i acc = Inr m \<and>
    (\<forall>c. fmlookup m c = (case map_of (zip (drop i columns) vs) c of Some v \<Rightarrow> wire_of v | None \<Rightarrow> fmlookup acc c))"
  using assms(2,3)
proof (induction vs arbitrary: i acc)
  case (Cons v vs)
  then have i: "i < length columns" by simp
  obtain wv where wv: "wire_of v = Some wv" using Cons.prems(2) by auto
  obtain m where m: "convert_values columns vs (Suc i) (fmupd (columns ! i) wv acc) = Inr m"
    "\<forall>c. fmlookup m c = (case map_of (zip (drop (Suc i) columns) vs) c of Some v \<Rightarrow> wire_of v | None \<Rightarrow> fmlookup (fmupd (columns ! i) wv acc) c)"
    using Cons.IH [of "Suc i" "fmupd (columns ! i) wv acc"] Cons.prems by auto
  have step: "convert_values columns (v # vs) i acc = convert_values columns vs (Suc i) (fmupd (columns ! i) wv acc)"
    using i wv by (cases "Kind v") auto
  have dr: "drop i columns = columns ! i # drop (Suc i) columns" using i by (simp add: Cons_nth_drop_Suc)
  have "columns ! i \<notin> set (drop (Suc i) columns)" using assms(1) i dr by (metis distinct.simps(2) distinct_drop)
  then have "map_of (zip (drop (Suc i) columns) vs) (columns ! i) = None"
    by (meson map_of_eq_None_iff in_set_zipE image_iff imageE set_zip_leftD map_of_SomeD not_None_eq)
  then show ?case using m step wv dr by (intro exI [of _ m]) (auto split: option.splits)
qed simp

lemma convertValues_lookup:
  "fmlookup (convertValues m) c =
     (case fmlookup m c of
        Some (WText t) \<Rightarrow> Some \<lparr>v_Text = t, v_Null = False, v_Unchanged = False\<rparr>
      | Some WNull \<Rightarrow> Some \<lparr>v_Text = [], v_Null = True, v_Unchanged = False\<rparr>
      | Some WUnchangedToast \<Rightarrow> Some \<lparr>v_Text = [], v_Null = False, v_Unchanged = True\<rparr>
      | _ \<Rightarrow> None)"
  by (auto simp: convertValues_def split: option.splits wire_value.splits)

definition sdk_of :: "val \<Rightarrow> sdk_value" where
  "sdk_of v = \<lparr>v_Text = Text v, v_Null = (Kind v = ValueNull), v_Unchanged = (Kind v = ValueUnchangedToast)\<rparr>"

lemma wf_value_wire:
  assumes "wf_value maxv v"
  shows "wire_of v \<noteq> None"
    "(case wire_of v of
        Some (WText t) \<Rightarrow> Some \<lparr>v_Text = t, v_Null = False, v_Unchanged = False\<rparr>
      | Some WNull \<Rightarrow> Some \<lparr>v_Text = [], v_Null = True, v_Unchanged = False\<rparr>
      | Some WUnchangedToast \<Rightarrow> Some \<lparr>v_Text = [], v_Null = False, v_Unchanged = True\<rparr>
      | _ \<Rightarrow> None) = Some (sdk_of v)"
  using assms by (auto simp: wf_value_def sdk_of_def)

definition sdk_operation_of :: "string \<Rightarrow> sdk_operation" where
  "sdk_operation_of oper = (if oper = OperationInsert then Insert else if oper = OperationUpdate then Update
     else if oper = OperationDelete then Delete else OtherOperation)"

lemma convertChange_values:
  assumes "length (Values ch) = length (Columns ch)" "list_all (wf_value maxv) (Values ch)" "distinct (Columns ch)"
  shows "\<exists>m. convertChangeValues (Columns ch) (Values ch) = Inr m \<and>
    (\<forall>c. fmlookup (convertValues m) c = map_option sdk_of (map_of (zip (Columns ch) (Values ch)) c))"
proof -
  have w: "list_all (\<lambda>v. wire_of v \<noteq> None) (Values ch)" using assms(2) wf_value_wire(1) by (auto simp: list_all_iff)
  obtain m where m: "convertChangeValues (Columns ch) (Values ch) = Inr m"
    "\<forall>c. fmlookup m c = (case map_of (zip (Columns ch) (Values ch)) c of Some v \<Rightarrow> wire_of v | None \<Rightarrow> None)"
    using convert_values_spec [OF assms(3) _ w, of 0 fmempty] assms(1)
    by (cases "Values ch = []") (auto simp: convertChangeValues_def cong: option.case_cong)
  have "fmlookup (convertValues m) c = map_option sdk_of (map_of (zip (Columns ch) (Values ch)) c)" for c
  proof (cases "map_of (zip (Columns ch) (Values ch)) c")
    case None
    then show ?thesis using m(2) by (simp add: convertValues_lookup)
  next
    case (Some v)
    then have "v \<in> set (Values ch)" by (meson map_of_SomeD set_zip_rightD)
    then have "wf_value maxv v" using assms(2) by (simp add: list_all_iff)
    then show ?thesis using m(2) Some wf_value_wire(2) [of maxv v] by (simp add: convertValues_lookup)
  qed
  with m(1) show ?thesis by blast
qed

text \<open>C28: a change arrives as the decoder made it. Every change that keeps the decoder's contract is
  accepted by the server's conversion, and what the client reads from the message has the same
  operation, table and key, and for each column the value \<open>Change.Value\<close> gives, with NULL and
  unchanged TOAST told apart from text.\<close>

theorem change_arrives:
  assumes "wf_change maxv ch" and "distinct (Columns ch)"
  shows "\<exists>wc. convertChange ch = Inr wc \<and>
    c_Operation (sdk_convertChange wc) = sdk_operation_of (Operation ch) \<and> c_Operation (sdk_convertChange wc) \<noteq> OtherOperation \<and>
    c_Table (sdk_convertChange wc) = Table ch \<and>
    (\<forall>k. fmlookup (c_Key (sdk_convertChange wc)) k = map_of (Key ch) k) \<and>
    (\<forall>column. fmlookup (c_Values (sdk_convertChange wc)) column =
      (case ChangeValue ch column of Inr (v, True) \<Rightarrow> Some (sdk_of v) | _ \<Rightarrow> None))"
proof -
  have len: "length (Values ch) = length (Columns ch)" "list_all (wf_value maxv) (Values ch)"
    "Operation ch \<in> {OperationInsert, OperationUpdate, OperationDelete}"
    using assms(1) by (auto simp: wf_change_def)
  obtain m where m: "convertChangeValues (Columns ch) (Values ch) = Inr m"
    "\<forall>c. fmlookup (convertValues m) c = map_option sdk_of (map_of (zip (Columns ch) (Values ch)) c)"
    using convertChange_values [OF len(1,2) assms(2)] by blast
  obtain oper where oper: "operations (Operation ch) = Some oper" "sdk_operations oper = sdk_operation_of (Operation ch)"
    "sdk_operations oper \<noteq> OtherOperation"
    using len(3) by (auto simp: operations_def sdk_operation_of_def OperationInsert_def OperationUpdate_def OperationDelete_def)
  have "convertChange ch = Inr \<lparr>wc_operation = oper, wc_table = Table ch, wc_key = fmap_of_list (Key ch), wc_values = m\<rparr>"
    using m(1) oper(1) by (simp add: convertChange_def)
  then show ?thesis
    using m(2) oper(2,3) by (simp add: sdk_convertChange_def fmap_of_list.rep_eq ChangeValue_map_of [OF len(1)] split: option.split)
qed

definition sample_change :: change where
  "sample_change = \<lparr>Operation = OperationUpdate, Table = ''public.items'', Key = [(''id'', ''7'')],
     Columns = [''id'', ''doc'', ''note''], Values = [TextValue ''7'', \<lparr>Kind = ValueUnchangedToast, Text = []\<rparr>, zeroValue]\<rparr>"

theorem change_arrives_witness:
  "\<exists>wc. convertChange sample_change = Inr wc \<and>
     fmlookup (c_Values (sdk_convertChange wc)) ''doc'' = Some \<lparr>v_Text = [], v_Null = False, v_Unchanged = True\<rparr>"
proof -
  have "wf_change 10 sample_change"
    by (simp add: wf_change_def wf_key_def wf_value_def sample_change_def TextValue_def zeroValue_def)
  moreover have "distinct (Columns sample_change)" by (simp add: sample_change_def)
  ultimately obtain wc where wc: "convertChange sample_change = Inr wc"
    "\<forall>column. fmlookup (c_Values (sdk_convertChange wc)) column =
      (case ChangeValue sample_change column of Inr (v, True) \<Rightarrow> Some (sdk_of v) | _ \<Rightarrow> None)"
    using change_arrives [of 10 sample_change] by blast
  then show ?thesis
    using wc(2) [rule_format, of "''doc''"] by (auto simp: ChangeValue_def sample_change_def sdk_of_def)
qed

section \<open>Status codes\<close>

lemma sync_turn_status:
  assumes "\<not> (c = InvalidArgument \<and> \<not> sv_snapshot v)"
  shows "\<exists>t v'. sync_turn bounds False random progressed (EndStatus c) v =
    (if isPermanent (EndStatus c) then (Return (Some (EndStatus c)), v) else (RetryAfter t, v'))"
  using assms by (cases "isPermanent (EndStatus c)") (simp_all add: sync_turn_def Let_def)

definition refuses :: "goerror \<Rightarrow> bool" where
  "refuses e \<longleftrightarrow> errors_is e ErrUnknownProjection \<or> errors_is e ErrInvalidCursor \<or>
     (errors_is e ErrInvalidReaderConfig \<or> errors_is e ErrInsufficientPrivileges) \<and>
       \<not> (errors_is e ErrSourceUnavailable \<or> errors_is e ErrSourceNotStarted \<or> errors_is e ErrSlotInUse)"

lemma status_permanent:
  "as_status e = None \<Longrightarrow> isPermanent (EndStatus (status as_status None (Some e))) \<longleftrightarrow> refuses e"
  by (simp add: status_def isPermanent_def refuses_def)

lemma status_invalid:
  "as_status e = None \<Longrightarrow> status as_status None (Some e) = InvalidArgument \<Longrightarrow> errors_is e ErrInvalidCursor"
  by (simp add: status_def split: if_splits)

text \<open>The client treats a refused watch as the server means it. When the hub's error is neither the
  context's nor a status of its own, an unknown projection, an invalid cursor that was not the client's stored
  one, and a misconfigured source end \<open>Sync\<close> with that status; an unavailable source, and any unexpected
  error, are retried after a wait.\<close>

theorem status_decides_retry:
  assumes "as_status e = None" and "errors_is e ErrInvalidCursor \<longrightarrow> sv_snapshot v"
  shows "\<exists>t v'. sync_turn bounds False random progressed (EndStatus (status as_status None (Some e))) v =
    (if refuses e then (Return (Some (EndStatus (status as_status None (Some e)))), v) else (RetryAfter t, v'))"
  using sync_turn_status [of "status as_status None (Some e)" v bounds random progressed] assms status_permanent [of as_status e]
    status_invalid [of as_status e] by auto

theorem status_decides_retry_witness:
  "\<not> (\<exists>r v'. sync_turn (1, 8) False 0 False (EndStatus (status (\<lambda>_. None) None (Some (Errorf [Sentinel ErrSlotInUse]))))
      \<lparr>sv_backoff = 1, sv_snapshot = False, sv_resyncs = 0\<rparr> = (Return r, v'))"
  using status_decides_retry [of "\<lambda>_. None" "Errorf [Sentinel ErrSlotInUse]" "\<lparr>sv_backoff = 1, sv_snapshot = False, sv_resyncs = 0\<rparr>"
      "(1, 8)" 0 False] by (auto simp: refuses_def)

end
