(* ===== verification/Reader_Config.thy ===== *)
theory Reader_Config
  imports Complex_Main Decoder
begin

text \<open>
  The reader's configuration (\<open>internal/cdc/config.go\<close>) and the static checks of a projection spec
  (\<open>internal/cdc/validation.go\<close>): the identifier pattern, the defaults, and the validations that need
  no connection.

  Durations are nanoseconds. The fractions and the jitter (\<open>float64\<close>) are rationals: every finite
  \<open>float64\<close> is one, and the code here only compares them. \<open>has_sink\<close> says whether the sink given is
  non-nil; the meter and the logger are not modelled.
\<close>

section \<open>Identifiers\<close>

text \<open>\<open>postgresIdentifier\<close>, the pattern \<open>^[a-z_][a-z0-9_$]{0,62}$\<close>.\<close>

definition identifier_start :: "char \<Rightarrow> bool" where
  "identifier_start c \<longleftrightarrow> (let n = of_char c :: nat in 97 \<le> n \<and> n \<le> 122) \<or> c = CHR ''_''"

definition identifier_char :: "char \<Rightarrow> bool" where
  "identifier_char c \<longleftrightarrow> identifier_start c \<or> is_digit c \<or> c = CHR ''$''"

fun postgresIdentifier :: "string \<Rightarrow> bool" where
  "postgresIdentifier [] = False"
| "postgresIdentifier (c # cs) \<longleftrightarrow> identifier_start c \<and> list_all identifier_char cs \<and> length cs \<le> 62"

section \<open>Configuration\<close>

record retryPolicy =
  InitialBackoff :: int
  MaxBackoff :: int
  MaxAttempts :: int
  Jitter :: rat

record readerConfig =
  rd_DatabaseURL :: string
  rd_SourceID :: string
  SlotName :: string
  PublicationName :: string
  MaxTransactionBytes :: int
  MaxTransactionChanges :: int
  MaxValueBytes :: int
  SnapshotBatchRows :: int
  ConnectionTimeout :: int
  StatusInterval :: int
  rd_ShutdownTimeout :: int
  RetryPolicy :: retryPolicy
  MaxRetainedWALBytes :: int
  RetentionCheckInterval :: int
  RetentionSampleInterval :: int
  RetentionWarnFraction :: rat
  RetentionDegradeFraction :: rat

definition second :: int where "second = 10 ^ 9"

definition defaultConnectionTimeout :: int where "defaultConnectionTimeout = 10 * second"
definition defaultStatusInterval :: int where "defaultStatusInterval = 10 * second"
definition rd_defaultShutdownTimeout :: int where "rd_defaultShutdownTimeout = 5 * second"
definition defaultInitialBackoff :: int where "defaultInitialBackoff = 250 * 10 ^ 6"
definition rd_defaultMaxBackoff :: int where "rd_defaultMaxBackoff = 10 * second"
definition defaultMaxAttempts :: int where "defaultMaxAttempts = 8"
definition rd_defaultJitter :: rat where "rd_defaultJitter = 1 / 5"
definition defaultSnapshotBatchRows :: int where "defaultSnapshotBatchRows = 1000"
definition defaultMaxRetainedWALBytes :: int where "defaultMaxRetainedWALBytes = 2 ^ 30"
definition defaultRetentionCheckInterval :: int where "defaultRetentionCheckInterval = 300 * second"
definition defaultRetentionSampleInterval :: int where "defaultRetentionSampleInterval = 30 * second"
definition defaultRetentionWarnFraction :: rat where "defaultRetentionWarnFraction = 1 / 2"
definition defaultRetentionDegradeFraction :: rat where "defaultRetentionDegradeFraction = 4 / 5"

lemmas reader_defaults =
  second_def defaultMaxTransactionBytes_def defaultMaxTransactionChanges_def defaultMaxValueBytes_def
  defaultConnectionTimeout_def defaultStatusInterval_def rd_defaultShutdownTimeout_def
  defaultInitialBackoff_def rd_defaultMaxBackoff_def defaultMaxAttempts_def rd_defaultJitter_def
  defaultSnapshotBatchRows_def defaultMaxRetainedWALBytes_def defaultRetentionCheckInterval_def
  defaultRetentionSampleInterval_def defaultRetentionWarnFraction_def
  defaultRetentionDegradeFraction_def

text \<open>\<open>if config.F == 0 { config.F = default }\<close>.\<close>

definition or_default :: "'a::zero \<Rightarrow> 'a \<Rightarrow> 'a" where
  "or_default x d = (if x = 0 then d else x)"

definition normalizeRetryPolicy :: "retryPolicy \<Rightarrow> retryPolicy" where
  "normalizeRetryPolicy p =
     p\<lparr>InitialBackoff := or_default (InitialBackoff p) defaultInitialBackoff,
       MaxBackoff := or_default (MaxBackoff p) rd_defaultMaxBackoff,
       MaxAttempts := or_default (MaxAttempts p) defaultMaxAttempts,
       Jitter := or_default (Jitter p) rd_defaultJitter\<rparr>"

definition normalizeReaderConfig :: "readerConfig \<Rightarrow> readerConfig" where
  "normalizeReaderConfig c =
     c\<lparr>MaxTransactionBytes := or_default (MaxTransactionBytes c) defaultMaxTransactionBytes,
       MaxTransactionChanges := or_default (MaxTransactionChanges c) defaultMaxTransactionChanges,
       MaxValueBytes := or_default (MaxValueBytes c) defaultMaxValueBytes,
       SnapshotBatchRows := or_default (SnapshotBatchRows c) defaultSnapshotBatchRows,
       ConnectionTimeout := or_default (ConnectionTimeout c) defaultConnectionTimeout,
       StatusInterval := or_default (StatusInterval c) defaultStatusInterval,
       rd_ShutdownTimeout := or_default (rd_ShutdownTimeout c) rd_defaultShutdownTimeout,
       MaxRetainedWALBytes := or_default (MaxRetainedWALBytes c) defaultMaxRetainedWALBytes,
       RetentionCheckInterval := or_default (RetentionCheckInterval c) defaultRetentionCheckInterval,
       RetentionSampleInterval := or_default (RetentionSampleInterval c) defaultRetentionSampleInterval,
       RetentionWarnFraction := or_default (RetentionWarnFraction c) defaultRetentionWarnFraction,
       RetentionDegradeFraction := or_default (RetentionDegradeFraction c) defaultRetentionDegradeFraction,
       RetryPolicy := normalizeRetryPolicy (RetryPolicy c)\<rparr>"

definition configError :: goerror where
  "configError = Errorf [Sentinel ErrInvalidReaderConfig]"

definition validateReaderConfig :: "readerConfig \<Rightarrow> bool \<Rightarrow> goerror + unit" where
  "validateReaderConfig c has_sink =
     (if rd_DatabaseURL c = [] \<or> rd_SourceID c = [] \<or> SlotName c = [] \<or> PublicationName c = [] \<or> \<not> has_sink
      then Inl (Sentinel ErrInvalidReaderConfig)
      else if \<not> postgresIdentifier (SlotName c) \<or> \<not> postgresIdentifier (PublicationName c)
      then Inl configError
      else if MaxTransactionBytes c \<le> 0 \<or> MaxTransactionChanges c \<le> 0 \<or> MaxValueBytes c \<le> 0 \<or>
              SnapshotBatchRows c \<le> 0 \<or> ConnectionTimeout c \<le> 0 \<or> StatusInterval c \<le> 0 \<or>
              rd_ShutdownTimeout c \<le> 0
      then Inl (Sentinel ErrInvalidReaderConfig)
      else if MaxRetainedWALBytes c \<le> 0 \<or> RetentionCheckInterval c \<le> 0 \<or> RetentionSampleInterval c \<le> 0
      then Inl (Sentinel ErrInvalidReaderConfig)
      else if \<not> (0 < RetentionWarnFraction c \<and> RetentionWarnFraction c < RetentionDegradeFraction c \<and>
                 RetentionDegradeFraction c < 1)
      then Inl configError
      else if MaxValueBytes c > MaxTransactionBytes c then Inl configError
      else let p = RetryPolicy c in
        if InitialBackoff p \<le> 0 \<or> MaxBackoff p < InitialBackoff p \<or> MaxAttempts p < 0 \<or>
           Jitter p < 0 \<or> Jitter p > 1
        then Inl (Sentinel ErrInvalidReaderConfig)
        else Inr ())"

section \<open>Static checks of a projection spec\<close>

text \<open>The loop over \<open>spec.PrimaryKey\<close>; \<open>seen\<close> is the set of columns so far.\<close>

fun check_key_columns :: "string list \<Rightarrow> string list \<Rightarrow> goerror + string list" where
  "check_key_columns seen [] = Inr seen"
| "check_key_columns seen (column # columns) =
     (if \<not> postgresIdentifier column \<or> column = [] then Inl configError
      else if column \<in> set seen then Inl configError
      else check_key_columns (column # seen) columns)"

definition validateProjectionSpecConfig :: "projectionSpec \<Rightarrow> goerror + unit" where
  "validateProjectionSpecConfig spec =
     (if SourceID spec = [] \<or> Schema spec = [] \<or> TableName spec = [] \<or> ScopeColumn spec = [] \<or>
         PrimaryKey spec = []
      then Inl (Sentinel ErrInvalidReaderConfig)
      else if \<not> postgresIdentifier (Schema spec) \<or> \<not> postgresIdentifier (TableName spec) \<or>
              \<not> postgresIdentifier (ScopeColumn spec)
      then Inl configError
      else rbind (check_key_columns [] (PrimaryKey spec)) (\<lambda>seen.
        if ScopeColumn spec \<notin> set seen then Inl configError else Inr ()))"

definition ValidateProjectionSpec :: "projectionSpec \<Rightarrow> goerror + unit" where
  "ValidateProjectionSpec spec = validateProjectionSpecConfig spec"

definition validateSourceProjectionSpec :: "readerConfig \<Rightarrow> projectionSpec \<Rightarrow> goerror + unit" where
  "validateSourceProjectionSpec c spec =
     rbind (validateProjectionSpecConfig spec) (\<lambda>_.
     if SourceID spec \<noteq> rd_SourceID c then Inl configError else Inr ())"

section \<open>Lemmas\<close>

lemma or_default_idem [simp]: "or_default (or_default x d) d = or_default x d"
  by (simp add: or_default_def)

lemma normalize_idem: "normalizeReaderConfig (normalizeReaderConfig c) = normalizeReaderConfig c"
  by (simp add: normalizeReaderConfig_def normalizeRetryPolicy_def)

text \<open>What a configuration that passes validation promises the rest of the reader.\<close>

definition wf_readerConfig :: "readerConfig \<Rightarrow> bool" where
  "wf_readerConfig c \<longleftrightarrow>
     rd_DatabaseURL c \<noteq> [] \<and> rd_SourceID c \<noteq> [] \<and> postgresIdentifier (SlotName c) \<and>
     postgresIdentifier (PublicationName c) \<and>
     0 < MaxValueBytes c \<and> MaxValueBytes c \<le> MaxTransactionBytes c \<and> 0 < MaxTransactionChanges c \<and>
     0 < SnapshotBatchRows c \<and> 0 < ConnectionTimeout c \<and> 0 < StatusInterval c \<and>
     0 < rd_ShutdownTimeout c \<and> 0 < MaxRetainedWALBytes c \<and> 0 < RetentionCheckInterval c \<and>
     0 < RetentionSampleInterval c \<and>
     0 < RetentionWarnFraction c \<and> RetentionWarnFraction c < RetentionDegradeFraction c \<and>
     RetentionDegradeFraction c < 1 \<and>
     0 < InitialBackoff (RetryPolicy c) \<and> InitialBackoff (RetryPolicy c) \<le> MaxBackoff (RetryPolicy c) \<and>
     0 \<le> MaxAttempts (RetryPolicy c) \<and> 0 \<le> Jitter (RetryPolicy c) \<and> Jitter (RetryPolicy c) \<le> 1"

lemma postgresIdentifier_nonempty: "postgresIdentifier s \<Longrightarrow> s \<noteq> []"
  by (cases s) auto

lemma validateReaderConfig_iff: "validateReaderConfig c has_sink = Inr u \<longleftrightarrow> has_sink \<and> wf_readerConfig c"
  by (auto simp: validateReaderConfig_def wf_readerConfig_def Let_def not_le not_less
      dest: postgresIdentifier_nonempty)

lemma check_key_columns_iff:
  "check_key_columns seen cs = Inr out \<longleftrightarrow>
     out = rev cs @ seen \<and> list_all postgresIdentifier cs \<and> distinct cs \<and> set cs \<inter> set seen = {}"
  by (induction cs arbitrary: seen) (auto dest: postgresIdentifier_nonempty)

lemma validateProjectionSpecConfig_iff:
  "validateProjectionSpecConfig spec = Inr u \<longleftrightarrow>
     SourceID spec \<noteq> [] \<and> postgresIdentifier (Schema spec) \<and> postgresIdentifier (TableName spec) \<and>
     list_all postgresIdentifier (PrimaryKey spec) \<and> distinct (PrimaryKey spec) \<and>
     ScopeColumn spec \<in> set (PrimaryKey spec)"
  by (auto simp: validateProjectionSpecConfig_def rbind_Inr_iff check_key_columns_iff list_all_iff
      dest: postgresIdentifier_nonempty)

lemma identifier_no_dot: "postgresIdentifier s \<Longrightarrow> CHR ''.'' \<notin> set s"
  by (cases s) (auto simp: identifier_start_def identifier_char_def is_digit_def list_all_iff)

text \<open>A configuration that sets only the four names.\<close>

definition basic_config :: readerConfig where
  "basic_config = normalizeReaderConfig
     \<lparr>rd_DatabaseURL = ''postgres:'', rd_SourceID = ''src'', SlotName = ''slot'', PublicationName = ''pub'',
      MaxTransactionBytes = 0, MaxTransactionChanges = 0, MaxValueBytes = 0, SnapshotBatchRows = 0,
      ConnectionTimeout = 0, StatusInterval = 0, rd_ShutdownTimeout = 0,
      RetryPolicy = \<lparr>InitialBackoff = 0, MaxBackoff = 0, MaxAttempts = 0, Jitter = 0\<rparr>,
      MaxRetainedWALBytes = 0, RetentionCheckInterval = 0, RetentionSampleInterval = 0,
      RetentionWarnFraction = 0, RetentionDegradeFraction = 0\<rparr>"

lemma basic_config_wf: "wf_readerConfig basic_config" "MaxRetainedWALBytes basic_config = 2 ^ 30"
  "MaxAttempts (RetryPolicy basic_config) = 8"
  by (simp_all add: basic_config_def wf_readerConfig_def normalizeReaderConfig_def
      normalizeRetryPolicy_def or_default_def reader_defaults identifier_start_def identifier_char_def)

end
