(* ===== verification/Retention.thy ===== *)
theory Retention
  imports Reader_Config Float64
begin

text \<open>
  The retained-WAL policy (\<open>internal/cdc/retention.go\<close>, \<open>internal/cdc/retention_policy.go\<close>): the
  effective budget, the state a sample calls for, the monitor beside \<open>Run\<close> and the slot drop.

  Queries are answered by PostgreSQL, so a task takes their answers as arguments. The monitor is a
  run over the ticks it processes, each with the outcome of its connection. Log lines are values where
  a branch only logs; \<open>int64\<close> products wrap.
\<close>

section \<open>The budget\<close>

definition walKeepSizeUnitMultipliers :: "(string, int) gomap" where
  "walKeepSizeUnitMultipliers =
     [(''B'', 1), (''kB'', 1024), (''MB'', 1024 * 1024), (''GB'', 1024 * 1024 * 1024),
      (''TB'', 1024 * 1024 * 1024 * 1024)]"

text \<open>\<open>strconv.ParseInt(s, 10, 64)\<close>; \<open>None\<close> is a syntax or range error.\<close>

definition parse_magnitude :: "string \<Rightarrow> int option" where
  "parse_magnitude s = (if s = [] \<or> \<not> list_all is_digit s then None else Some (int (digits_value s)))"

definition ParseInt :: "string \<Rightarrow> int option" where
  "ParseInt s =
     (let signed = (\<lambda>sgn ds. case parse_magnitude ds of
                      None \<Rightarrow> None
                    | Some n \<Rightarrow> if - (2 ^ 63) \<le> sgn * n \<and> sgn * n < 2 ^ 63 then Some (sgn * n) else None)
      in case s of
           [] \<Rightarrow> None
         | c # cs \<Rightarrow> if c = CHR ''-'' then signed (- 1) cs
                    else if c = CHR ''+'' then signed 1 cs else signed 1 s)"

text \<open>The answer is the row of \<open>pg_settings\<close>: the raw setting and its unit.\<close>

definition readMaxSlotWALKeepSize :: "goerror + string \<times> string \<Rightarrow> goerror + int \<times> bool" where
  "readMaxSlotWALKeepSize answer =
     (case answer of
        Inl err \<Rightarrow> Inl (classifyPostgresError err)
      | Inr (setting, unit) \<Rightarrow>
          (case ParseInt setting of
             None \<Rightarrow> Inl (Errorf [Sentinel ErrPostgresServer])
           | Some n \<Rightarrow>
               if n < 0 then Inr (0, True)
               else case map_of walKeepSizeUnitMultipliers unit of
                      None \<Rightarrow> Inl (Errorf [Sentinel ErrPostgresServer])
                    | Some multiplier \<Rightarrow> Inr (wrap64 (n * multiplier), False)))"

definition effectiveRetentionBudget :: "int \<Rightarrow> int \<Rightarrow> bool \<Rightarrow> int" where
  "effectiveRetentionBudget configuredBytes serverBytes serverUnbounded =
     (if serverUnbounded \<or> serverBytes \<ge> configuredBytes then configuredBytes else serverBytes)"

datatype budget_warning = NoServerBackstop | ServerStricter

definition checkRetentionBudget ::
    "readerConfig \<Rightarrow> goerror + string \<times> string \<Rightarrow> goerror + budget_warning option" where
  "checkRetentionBudget c answer =
     rbind (readMaxSlotWALKeepSize answer) (\<lambda>(serverBytes, unbounded).
       if unbounded then Inr (Some NoServerBackstop)
       else let effective = effectiveRetentionBudget (MaxRetainedWALBytes c) serverBytes unbounded in
         if effective < MaxRetainedWALBytes c then Inr (Some ServerStricter) else Inr None)"

section \<open>The policy\<close>

datatype retentionState = retentionOK | retentionWarn | retentionDegrade | retentionTerminal

primrec retention_rank :: "retentionState \<Rightarrow> nat" where
  "retention_rank retentionOK = 0"
| "retention_rank retentionWarn = 1"
| "retention_rank retentionDegrade = 2"
| "retention_rank retentionTerminal = 3"

lemma retention_rank_inject [simp]: "retention_rank s = retention_rank t \<longleftrightarrow> s = t"
  by (cases s; cases t) simp_all

instantiation retentionState :: linorder
begin

definition less_eq_retentionState :: "retentionState \<Rightarrow> retentionState \<Rightarrow> bool" where
  "s \<le> t \<longleftrightarrow> retention_rank s \<le> retention_rank t"

definition less_retentionState :: "retentionState \<Rightarrow> retentionState \<Rightarrow> bool" where
  "s < t \<longleftrightarrow> retention_rank s < retention_rank t"

instance
proof
  fix s t u :: retentionState
  show "s < t \<longleftrightarrow> s \<le> t \<and> \<not> t \<le> s"
    by (simp add: less_eq_retentionState_def less_retentionState_def less_le_not_le)
  show "s \<le> s" by (simp add: less_eq_retentionState_def)
  show "s \<le> t \<Longrightarrow> t \<le> u \<Longrightarrow> s \<le> u" by (simp add: less_eq_retentionState_def)
  show "s \<le> t \<Longrightarrow> t \<le> s \<Longrightarrow> s = t" using retention_rank_inject [of s t]
    by (simp add: less_eq_retentionState_def)
  show "s \<le> t \<or> t \<le> s" by (auto simp: less_eq_retentionState_def)
qed

end

lemmas retention_order = less_eq_retentionState_def less_retentionState_def

primrec retentionStateNames :: "retentionState \<Rightarrow> string" where
  "retentionStateNames retentionOK = ''ok''"
| "retentionStateNames retentionWarn = ''warn''"
| "retentionStateNames retentionDegrade = ''degrade''"
| "retentionStateNames retentionTerminal = ''terminal''"

definition retentionHysteresis :: rat where "retentionHysteresis = float64 (1 / 20)"

text \<open>\<open>current--\<close>, and the loop that falls with hysteresis.\<close>

fun lower :: "retentionState \<Rightarrow> retentionState" where
  "lower retentionTerminal = retentionDegrade"
| "lower retentionDegrade = retentionWarn"
| "lower retentionWarn = retentionOK"
| "lower retentionOK = retentionOK"

definition threshold :: "rat \<Rightarrow> rat \<Rightarrow> retentionState \<Rightarrow> rat" where
  "threshold warn degrade current = (if current = retentionDegrade then degrade else warn)"

function fall :: "rat \<Rightarrow> rat \<Rightarrow> rat \<Rightarrow> retentionState \<Rightarrow> retentionState \<Rightarrow> retentionState" where
  "fall warn degrade ratio target current =
     (if current > target then
        if ratio \<ge> float64 (threshold warn degrade current - retentionHysteresis) then current
        else fall warn degrade ratio target (lower current)
      else current)"
  by pat_completeness auto
termination
proof (relation "measure (\<lambda>(_, _, _, _, current). retention_rank current)")
  show "wf (measure (\<lambda>(_, _, _, _, current). retention_rank current))" by simp
next
  fix warn degrade ratio target and current :: retentionState
  assume "current > target"
  then show "((warn, degrade, ratio, target, lower current), (warn, degrade, ratio, target, current))
      \<in> measure (\<lambda>(_, _, _, _, current). retention_rank current)"
    by (cases current) (auto simp: retention_order)
qed

declare fall.simps [simp del]

definition nextRetentionState ::
    "retentionState \<Rightarrow> int \<Rightarrow> int \<Rightarrow> rat \<Rightarrow> rat \<Rightarrow> retentionState" where
  "nextRetentionState current retained budget warn degrade =
     (if budget \<le> 0 \<or> retained < 0 \<or> current = retentionTerminal then current
      else let ratio = float64 (float64 (of_int retained) / float64 (of_int budget)) in
        if ratio \<ge> 1 then retentionTerminal
        else let target = (if ratio \<ge> degrade then retentionDegrade
                           else if ratio \<ge> warn then retentionWarn else retentionOK)
          in max (fall warn degrade ratio target current) target)"

section \<open>The monitor\<close>

text \<open>The monitor's part of the reader: the policy's state, as the metrics and as the statistics report
  it, the transitions counted, the last sample, and the cause the stream was stopped with.\<close>

record retention =
  rt_state :: retentionState
  rt_reported :: string
  rt_transitions :: "retentionState list"
  rt_retained :: int
  rt_safe :: int
  rt_walStatus :: int
  rt_budget :: int
  rt_known :: bool
  rt_cause :: "goerror option"

definition newRetention :: retention where
  "newRetention =
     \<lparr>rt_state = retentionOK, rt_reported = retentionStateNames retentionOK, rt_transitions = [],
      rt_retained = 0, rt_safe = 0, rt_walStatus = - 1, rt_budget = 0, rt_known = False, rt_cause = None\<rparr>"

text \<open>\<open>stopStream\<close> is a \<open>context.CancelCauseFunc\<close>: the first cause is kept.\<close>

definition stopStream :: "goerror \<Rightarrow> retention \<Rightarrow> retention" where
  "stopStream cause rt = rt\<lparr>rt_cause := (case rt_cause rt of None \<Rightarrow> Some cause | Some e \<Rightarrow> Some e)\<rparr>"

definition applyRetentionPolicy :: "readerConfig \<Rightarrow> int \<Rightarrow> int \<Rightarrow> retention \<Rightarrow> retention" where
  "applyRetentionPolicy c retained budget rt =
     (let current = rt_state rt;
          s = nextRetentionState current retained budget (RetentionWarnFraction c) (RetentionDegradeFraction c)
      in if s = current then rt
         else let rt' = rt\<lparr>rt_state := s, rt_transitions := rt_transitions rt @ [s],
                           rt_reported := retentionStateNames s\<rparr>
           in if s = retentionTerminal then stopStream (Sentinel ErrRetainedWALBudgetExceeded) rt' else rt')"

definition valueOr :: "int option \<Rightarrow> int \<Rightarrow> int" where
  "valueOr v fallback = (case v of None \<Rightarrow> fallback | Some n \<Rightarrow> n)"

definition walStatuses :: "string list" where
  "walStatuses = [''reserved'', ''extended'', ''unreserved'', ''lost'']"

fun index_of :: "string \<Rightarrow> string list \<Rightarrow> int \<Rightarrow> int" where
  "index_of status [] i = - 1"
| "index_of status (known # rest) i = (if status = known then i else index_of status rest (i + 1))"

text \<open>The row of \<open>pg_replication_slots\<close> for the slot: retained WAL, status and safe size; \<open>None\<close>
  when the query has no row.\<close>

type_synonym slot_row = "(int option \<times> string \<times> int option) option"

definition sampleRetention ::
    "readerConfig \<Rightarrow> goerror + slot_row \<Rightarrow> goerror + string \<times> string \<Rightarrow> retention
      \<Rightarrow> retention \<times> (goerror + unit)" where
  "sampleRetention c slot setting rt =
     (case slot of
        Inl err \<Rightarrow> (rt, Inl (classifyPostgresError err))
      | Inr None \<Rightarrow> (rt, Inl (Sentinel ErrSlotNotFound))
      | Inr (Some (retained, status, safe)) \<Rightarrow>
          (case readMaxSlotWALKeepSize setting of
             Inl err \<Rightarrow> (rt, Inl err)
           | Inr (serverBytes, unbounded) \<Rightarrow>
               let budget = effectiveRetentionBudget (MaxRetainedWALBytes c) serverBytes unbounded;
                   rt' = rt\<lparr>rt_retained := valueOr retained (- 1), rt_safe := valueOr safe (- 1),
                            rt_walStatus := index_of status walStatuses 0, rt_budget := budget,
                            rt_known := True\<rparr>
               in (case retained of
                     None \<Rightarrow> rt'
                   | Some n \<Rightarrow> applyRetentionPolicy c n budget rt', Inr ())))"

text \<open>One round of the loop: the case the select took, and what the connection answered
  (\<open>Inl\<close> when there was none).\<close>

datatype tick =
    CheckTick "goerror + (goerror + string \<times> string)"
  | SampleTick "goerror + (goerror + slot_row) \<times> (goerror + string \<times> string)"

fun monitor_tick :: "readerConfig \<Rightarrow> tick \<Rightarrow> retention \<Rightarrow> retention" where
  "monitor_tick c (CheckTick answer) rt = rt"
| "monitor_tick c (SampleTick (Inl err)) rt = rt"
| "monitor_tick c (SampleTick (Inr (slot, setting))) rt = fst (sampleRetention c slot setting rt)"

definition monitorRetentionBudget :: "readerConfig \<Rightarrow> tick list \<Rightarrow> retention \<Rightarrow> retention" where
  "monitorRetentionBudget c ticks rt = fold (monitor_tick c) ticks rt"

section \<open>Dropping the slot\<close>

definition slotDropTimeout :: nat where "slotDropTimeout = 30 * 10 ^ 9"
definition slotDropRetry :: nat where "slotDropRetry = 200 * 10 ^ 6"

text \<open>The loop of \<open>dropSlotForBudget\<close>. \<open>exec k\<close> is the \<open>k\<close>-th attempt: its error, if any, and how
  long it took. \<open>waitContext\<close> returns nil when its timer fires before the context's deadline.
  The number of attempts made is returned too.\<close>

function drop_loop ::
    "(nat \<Rightarrow> goerror option \<times> nat) \<Rightarrow> nat \<Rightarrow> nat \<Rightarrow> nat \<times> goerror option" where
  "drop_loop exec k elapsed =
     (case exec k of
        (None, _) \<Rightarrow> (Suc k, None)
      | (Some err, took) \<Rightarrow>
          (case as_pg_error err of
             None \<Rightarrow> (Suc k, Some (classifyPostgresError err))
           | Some (sqlState, _) \<Rightarrow>
               if sqlState = ''42704'' then (Suc k, None)
               else if sqlState = ''55006'' then
                 (if elapsed + took + slotDropRetry < slotDropTimeout
                  then drop_loop exec (Suc k) (elapsed + took + slotDropRetry)
                  else (Suc k, Some (Errorf [Sentinel ContextDeadlineExceeded])))
               else (Suc k, Some (classifyPostgresError err))))"
  by pat_completeness auto
termination
  by (relation "measure (\<lambda>(_, _, elapsed). slotDropTimeout - elapsed)")
    (auto simp: slotDropRetry_def slotDropTimeout_def)

declare drop_loop.simps [simp del]

text \<open>\<open>management\<close> is the outcome of connecting, with the time it took.\<close>

definition dropSlotForBudget ::
    "goerror + nat \<times> (nat \<Rightarrow> goerror option \<times> nat) \<Rightarrow> nat \<times> goerror option" where
  "dropSlotForBudget management =
     (case management of
        Inl err \<Rightarrow> (0, Some err)
      | Inr (took, exec) \<Rightarrow> drop_loop exec 0 took)"

end
