(* ===== verification/Retention_Correct.thy ===== *)
theory Retention_Correct
  imports Retention
begin

text \<open>
  The retention policy is exact: a sample reaches a state as soon as its threshold is passed, a state
  is left only with hysteresis, and the monitor stops the stream exactly when a sample shows retained
  WAL at the effective budget - the \<open>float64\<close> rounding of the code included. The slot drop makes a
  bounded number of attempts.
\<close>

section \<open>The ratio of a sample\<close>

definition wal_ratio :: "int \<Rightarrow> int \<Rightarrow> rat" where
  "wal_ratio retained budget = float64 (float64 (of_int retained) / float64 (of_int budget))"

lemma wal_ratio_reached:
  assumes "0 < budget" "budget \<le> retained"
  shows "1 \<le> wal_ratio retained budget"
proof -
  have "float64 (of_int budget) \<le> float64 (of_int retained)" using assms by (simp add: float64_mono)
  moreover have "0 < float64 (of_int budget)" using assms by simp
  ultimately have "1 \<le> float64 (of_int retained) / float64 (of_int budget)" by simp
  then have "float64 1 \<le> wal_ratio retained budget" unfolding wal_ratio_def by (rule float64_mono)
  then show ?thesis by simp
qed

text \<open>The largest \<open>float64\<close> below \<open>1\<close> is \<open>1 - 2 ^ -53\<close>: for a budget of at most \<open>2 ^ 53\<close> bytes no sample
  below the budget is rounded up to it.\<close>

lemma wal_ratio_below:
  assumes "0 < budget" "budget \<le> 2 ^ 53" "0 \<le> retained" "retained < budget"
  shows "wal_ratio retained budget < 1"
proof -
  let ?top = "of_int (2 ^ 53 - 1) * 2 powi (- 53) :: rat"
  have r: "float64 (of_int retained) = of_int retained"
    using assms by (intro float64_int) simp_all
  have b: "float64 (of_int budget) = of_int budget"
  proof (cases "budget = 2 ^ 53")
    case True
    then show ?thesis using float64_exact [of 1 53] by simp
  next
    case False
    with assms show ?thesis by (intro float64_int) simp_all
  qed
  have "of_int retained \<le> (of_int budget - 1 :: rat)"
    using assms(4) by (metis of_int_1 of_int_diff of_int_le_iff zle_diff1_eq)
  then have "of_int retained / of_int budget \<le> (of_int budget - 1 :: rat) / of_int budget"
    using assms(1) by (intro divide_right_mono) simp_all
  also have "\<dots> = 1 - 1 / of_int budget" using assms(1) by (simp add: diff_divide_distrib)
  also have "\<dots> \<le> 1 - 1 / 2 ^ 53"
  proof -
    have "(of_int budget :: rat) \<le> of_int (2 ^ 53)" using assms(2) by (simp only: of_int_le_iff)
    then show ?thesis using assms(1) by (simp add: field_simps)
  qed
  also have "\<dots> = ?top" by (simp add: power_int_def power_divide)
  finally have "wal_ratio retained budget \<le> float64 ?top"
    unfolding wal_ratio_def r b by (rule float64_mono)
  also have "float64 ?top = ?top" by (rule float64_exact) simp_all
  also have "\<dots> < 1" by (simp add: power_int_def power_divide)
  finally show ?thesis .
qed

lemma wal_ratio_iff:
  "0 < budget \<Longrightarrow> budget \<le> 2 ^ 53 \<Longrightarrow> 0 \<le> retained \<Longrightarrow>
   1 \<le> wal_ratio retained budget \<longleftrightarrow> budget \<le> retained"
  using wal_ratio_reached [of budget retained] wal_ratio_below [of budget retained] by fastforce

section \<open>The state a sample calls for\<close>

text \<open>A state's threshold is held while the sample is less than the hysteresis below it.\<close>

definition held :: "rat \<Rightarrow> rat \<Rightarrow> rat \<Rightarrow> retentionState \<Rightarrow> bool" where
  "held warn degrade ratio s \<longleftrightarrow> float64 (threshold warn degrade s - retentionHysteresis) \<le> ratio"

lemma held_lower: "warn \<le> degrade \<Longrightarrow> held warn degrade ratio retentionDegrade \<Longrightarrow> held warn degrade ratio retentionWarn"
  using float64_mono [of "warn - retentionHysteresis" "degrade - retentionHysteresis"]
  by (simp add: held_def threshold_def)

lemma fall_eq:
  assumes "warn \<le> degrade" "current \<noteq> retentionTerminal"
  shows "fall warn degrade ratio target current =
    (if current \<le> target then current
     else if current = retentionDegrade then
       (if held warn degrade ratio retentionDegrade then retentionDegrade
        else if target < retentionWarn \<and> \<not> held warn degrade ratio retentionWarn then retentionOK
        else retentionWarn)
     else if held warn degrade ratio retentionWarn then retentionWarn else retentionOK)"
  using assms
  by (cases current; cases target)
    (simp_all add: fall.simps [of warn degrade ratio] retention_order held_def threshold_def)

lemma nextRetentionState_ratio:
  assumes "0 < budget" "0 \<le> retained" "current \<noteq> retentionTerminal"
  shows "nextRetentionState current retained budget warn degrade =
    (let ratio = wal_ratio retained budget in
     if 1 \<le> ratio then retentionTerminal
     else let target = (if degrade \<le> ratio then retentionDegrade
                        else if warn \<le> ratio then retentionWarn else retentionOK)
       in max (fall warn degrade ratio target current) target)"
  using assms by (simp add: nextRetentionState_def wal_ratio_def Let_def)

lemma nextRetentionState_terminal_iff:
  assumes "0 < budget" "budget \<le> 2 ^ 53" "0 \<le> retained" "current \<noteq> retentionTerminal"
    "warn \<le> degrade"
  shows "nextRetentionState current retained budget warn degrade = retentionTerminal \<longleftrightarrow> budget \<le> retained"
proof -
  have "max (fall warn degrade ratio target current) target \<noteq> retentionTerminal"
    if "target \<noteq> retentionTerminal" for ratio target
    using that assms(4,5) by (simp add: fall_eq max_def)
  then show ?thesis
    using wal_ratio_iff [OF assms(1-3)]
    by (simp add: nextRetentionState_ratio [OF assms(1,3,4)] Let_def)
qed

text \<open>C23: One step of the policy, with the rounding of its \<open>float64\<close> arithmetic. For a budget of at most
  \<open>2 ^ 53\<close> bytes and a state that is not final, the next state is at least \<open>terminal\<close> exactly when the
  retained WAL has reached the budget; it is at least \<open>warn\<close> (\<open>degrade\<close>) exactly when the sample has
  reached that threshold, or the policy was already there and the sample has not fallen below the
  threshold by the hysteresis.\<close>

theorem policy_exact:
  assumes "0 < warn" "warn < degrade" "degrade < 1"
    and "0 < budget" "budget \<le> 2 ^ 53" "0 \<le> retained" "current \<noteq> retentionTerminal"
  shows "s \<le> nextRetentionState current retained budget warn degrade \<longleftrightarrow>
    (case s of
       retentionOK \<Rightarrow> True
     | retentionTerminal \<Rightarrow> budget \<le> retained
     | _ \<Rightarrow> threshold warn degrade s \<le> wal_ratio retained budget \<or>
            s \<le> current \<and> held warn degrade (wal_ratio retained budget) s)"
proof (cases "1 \<le> wal_ratio retained budget")
  case True
  then have "nextRetentionState current retained budget warn degrade = retentionTerminal"
    using assms by (simp add: nextRetentionState_ratio)
  moreover have "budget \<le> retained" using True assms by (simp add: wal_ratio_iff)
  ultimately show ?thesis
    using True assms by (cases s) (auto simp: retention_order threshold_def)
next
  case False
  let ?r = "wal_ratio retained budget"
  have not: "\<not> budget \<le> retained" using False assms by (simp add: wal_ratio_iff)
  have le: "warn \<le> degrade" using assms by simp
  have next_eq: "nextRetentionState current retained budget warn degrade =
      (let target = (if degrade \<le> ?r then retentionDegrade
                     else if warn \<le> ?r then retentionWarn else retentionOK)
       in max (fall warn degrade ?r target current) target)"
    using False assms by (simp add: nextRetentionState_ratio)
  show ?thesis
    unfolding next_eq using not le assms held_lower [OF le, of ?r]
    by (cases s; cases current)
      (auto simp: fall_eq Let_def retention_order max_def threshold_def split: if_splits)
qed

theorem policy_exact_witness:
  "retentionTerminal \<le> nextRetentionState retentionWarn 1000 1000 (1 / 2) (4 / 5)"
  using policy_exact [of "1 / 2" "4 / 5" 1000 1000 retentionWarn retentionTerminal] by simp

section \<open>The monitor\<close>

text \<open>What a tick shows: the retained WAL and the effective budget, when the connection, both queries and the
  server's setting were good and the slot retains WAL.\<close>

fun sampled :: "readerConfig \<Rightarrow> tick \<Rightarrow> (int \<times> int) option" where
  "sampled c (SampleTick (Inr (Inr (Some (Some retained, status, safe)), setting))) =
     (case readMaxSlotWALKeepSize setting of
        Inl err \<Rightarrow> None
      | Inr (serverBytes, unbounded) \<Rightarrow>
          Some (retained, effectiveRetentionBudget (MaxRetainedWALBytes c) serverBytes unbounded))"
| "sampled c _ = None"

text \<open>The budget is reached: it is positive, and the retained WAL is at or above it. A server that keeps no WAL for
  slots, \<open>max_slot_wal_keep_size = 0\<close>, gives the budget 0, on which the policy never acts.\<close>

definition reached :: "(int \<times> int) option \<Rightarrow> bool" where
  "reached sample \<longleftrightarrow> (\<exists>retained budget. sample = Some (retained, budget) \<and> 0 < budget \<and> budget \<le> retained)"

lemma reached_simps [simp]:
  "reached None = False" "reached (Some (retained, budget)) = (0 < budget \<and> budget \<le> retained)"
  by (simp_all add: reached_def)

definition retention_ok :: "retention \<Rightarrow> bool" where
  "retention_ok rt \<longleftrightarrow>
     rt_cause rt = (if rt_state rt = retentionTerminal then Some (Sentinel ErrRetainedWALBudgetExceeded) else None) \<and>
     rt_reported rt = retentionStateNames (rt_state rt)"

lemma effectiveRetentionBudget_le: "effectiveRetentionBudget configured server unbounded \<le> configured"
  by (simp add: effectiveRetentionBudget_def)

lemma applyRetentionPolicy_step:
  assumes "wf_readerConfig c" "MaxRetainedWALBytes c \<le> 2 ^ 53" "retention_ok rt"
    "budget \<le> MaxRetainedWALBytes c"
  shows "retention_ok (applyRetentionPolicy c retained budget rt)"
    and "rt_state (applyRetentionPolicy c retained budget rt) = retentionTerminal \<longleftrightarrow>
      rt_state rt = retentionTerminal \<or> 0 < budget \<and> budget \<le> retained"
proof -
  let ?n = "nextRetentionState (rt_state rt) retained budget (RetentionWarnFraction c) (RetentionDegradeFraction c)"
  show "retention_ok (applyRetentionPolicy c retained budget rt)"
    using assms(3)
    by (cases "?n = retentionTerminal") (auto simp: retention_ok_def applyRetentionPolicy_def Let_def stopStream_def nextRetentionState_def)
  have "rt_state (applyRetentionPolicy c retained budget rt) = ?n"
    by (simp add: applyRetentionPolicy_def Let_def stopStream_def)
  moreover have "?n = retentionTerminal \<longleftrightarrow>
      rt_state rt = retentionTerminal \<or> 0 < budget \<and> budget \<le> retained"
  proof (cases "rt_state rt = retentionTerminal \<or> \<not> 0 < budget \<or> retained < 0")
    case True
    then show ?thesis by (auto simp: nextRetentionState_def)
  next
    case False
    with assms show ?thesis
      by (subst nextRetentionState_terminal_iff) (auto simp: wf_readerConfig_def)
  qed
  ultimately show "rt_state (applyRetentionPolicy c retained budget rt) = retentionTerminal \<longleftrightarrow>
      rt_state rt = retentionTerminal \<or> 0 < budget \<and> budget \<le> retained" by simp
qed

lemma retention_ok_sample [simp]:
  "retention_ok (rt\<lparr>rt_retained := a, rt_safe := b, rt_walStatus := d, rt_budget := e, rt_known := f\<rparr>) = retention_ok rt"
  by (simp add: retention_ok_def)

lemma monitor_tick_step:
  assumes "wf_readerConfig c" "MaxRetainedWALBytes c \<le> 2 ^ 53" "retention_ok rt"
  shows "retention_ok (monitor_tick c t rt) \<and>
    (rt_state (monitor_tick c t rt) = retentionTerminal \<longleftrightarrow>
       rt_state rt = retentionTerminal \<or> reached (sampled c t))"
  using assms applyRetentionPolicy_step [OF assms(1,2)] effectiveRetentionBudget_le
  by (cases "(c, t)" rule: sampled.cases)
    (auto simp: sampleRetention_def Let_def split: sum.splits option.splits prod.splits)

text \<open>C22: The retention monitor stops the stream exactly when it must, for a configured budget of at most \<open>2 ^ 53\<close>
  bytes. Whatever mixture of checks, failed connections, failed queries and samples it processes, the stream is
  cancelled with \<open>ErrRetainedWALBudgetExceeded\<close> if and only if one of its samples showed a positive effective
  budget and retained WAL at or above it, and the reported state is then \<open>terminal\<close> and stays so. The
  effective budget is 0, and the stream is never stopped, while the server has \<open>max_slot_wal_keep_size = 0\<close>.\<close>

theorem monitor_stops_exactly:
  assumes "wf_readerConfig c" "MaxRetainedWALBytes c \<le> 2 ^ 53"
  shows "rt_cause (monitorRetentionBudget c ticks newRetention) =
      (if \<exists>t \<in> set ticks. \<exists>retained budget. sampled c t = Some (retained, budget) \<and> 0 < budget \<and> budget \<le> retained
       then Some (Sentinel ErrRetainedWALBudgetExceeded) else None) \<and>
    (rt_reported (monitorRetentionBudget c ticks newRetention) = ''terminal'' \<longleftrightarrow>
      (\<exists>t \<in> set ticks. \<exists>retained budget. sampled c t = Some (retained, budget) \<and> 0 < budget \<and> budget \<le> retained))"
proof -
  let ?rt = "monitorRetentionBudget c ticks newRetention"
  have step: "retention_ok (fold (monitor_tick c) ticks rt) \<and>
      (rt_state (fold (monitor_tick c) ticks rt) = retentionTerminal \<longleftrightarrow>
        rt_state rt = retentionTerminal \<or> (\<exists>t \<in> set ticks. reached (sampled c t)))"
    if "retention_ok rt" for rt
    using that by (induction ticks arbitrary: rt) (use monitor_tick_step [OF assms] in auto)
  have "retention_ok newRetention" by (simp add: retention_ok_def newRetention_def)
  from step [OF this] have "retention_ok ?rt"
    "rt_state ?rt = retentionTerminal \<longleftrightarrow>
       (\<exists>t \<in> set ticks. reached (sampled c t))"
    by (simp_all add: monitorRetentionBudget_def newRetention_def)
  moreover have "retentionStateNames s = ''terminal'' \<longleftrightarrow> s = retentionTerminal" for s by (cases s) simp_all
  ultimately show ?thesis by (simp add: retention_ok_def flip: reached_def)
qed

text \<open>A first sample at half a budget the server sets to 1 MB, then a failed connection, then a sample
  past it.\<close>

definition sample_ticks :: "tick list" where
  "sample_ticks =
     [SampleTick (Inr (Inr (Some (Some 524288, ''reserved'', None)), Inr (''1'', ''MB''))),
      SampleTick (Inl (Sentinel ErrSourceUnavailable)),
      SampleTick (Inr (Inr (Some (Some 2000000, ''extended'', None)), Inr (''1'', ''MB'')))]"

lemma sample_ticks_sampled: "map (sampled basic_config) sample_ticks = [Some (524288, 1048576), None, Some (2000000, 1048576)]"
proof -
  have "readMaxSlotWALKeepSize (Inr (''1'', ''MB'')) = Inr (1048576, False)" by code_simp
  then show ?thesis
    by (simp add: sample_ticks_def effectiveRetentionBudget_def basic_config_wf)
qed

theorem monitor_stops_exactly_witness:
  "rt_cause (monitorRetentionBudget basic_config sample_ticks newRetention) =
     Some (Sentinel ErrRetainedWALBudgetExceeded) \<and>
   rt_cause (monitorRetentionBudget basic_config (take 2 sample_ticks) newRetention) = None"
  using monitor_stops_exactly [of basic_config sample_ticks]
    monitor_stops_exactly [of basic_config "take 2 sample_ticks"] sample_ticks_sampled
  by (simp add: basic_config_wf sample_ticks_def)

section \<open>Dropping the slot\<close>

lemma drop_loop_bound:
  assumes "k * slotDropRetry \<le> elapsed" "k = 0 \<or> elapsed < slotDropTimeout"
  shows "fst (drop_loop exec k elapsed) \<le> 150"
  using assms
proof (induction exec k elapsed rule: drop_loop.induct)
  case (1 exec k elapsed)
  have k: "Suc k \<le> 150" using 1(2,3) by (auto simp: slotDropRetry_def slotDropTimeout_def)
  show ?case
    using k 1 by (subst drop_loop.simps) (auto split: prod.splits option.splits)
qed

lemma dropSlotForBudget_bound: "fst (dropSlotForBudget management) \<le> 150"
  using drop_loop_bound [of 0] by (auto simp: dropSlotForBudget_def split: sum.splits prod.splits)

end
