(* ===== verification/Catalog.thy ===== *)
theory Catalog
  imports Reader_Config
begin

text \<open>
  What the reader reads from PostgreSQL's catalogs: the checks of a publication and of a projection
  spec against the live source (\<open>internal/cdc/validation.go\<close>), the shape a validated table has
  (\<open>projectionShape\<close> of \<open>internal/cdc/relation.go\<close>) and the replication slot
  (\<open>internal/cdc/slot.go\<close>, \<open>slotExists\<close> of \<open>internal/cdc/source.go\<close>).

  PostgreSQL answers the queries: a \<open>catalog\<close> holds one answer per query, a function of the
  arguments bound to it. \<open>Inl\<close> is an error of the query or of reading its rows, and \<open>None\<close> the
  absence of a row (\<open>pgx.ErrNoRows\<close>). A table is named by its \<open>pgx.Identifier\<close>, whose
  quoting belongs to the driver. \<open>pglogrepl.ParseLSN\<close> is a parameter.
\<close>

section \<open>Answers\<close>

record slotState =
  slotType :: string
  plugin :: string
  slot_active :: bool
  resumeLSN :: string
  restartLSN :: string

type_synonym table_id = "string list"

record catalog =
  pg_publication :: "string \<Rightarrow> goerror + (bool \<times> bool \<times> bool \<times> bool) option"
  pg_table :: "table_id \<Rightarrow> string \<Rightarrow> goerror + bool \<times> bool"
  pg_primary_key :: "table_id \<Rightarrow> goerror + string list"
  pg_publication_tables :: "string \<Rightarrow> string \<Rightarrow> string \<Rightarrow> goerror + bool"
  pg_class_published :: "table_id \<Rightarrow> string \<Rightarrow> string \<Rightarrow> string \<Rightarrow> goerror + int \<times> string \<times> string list"
  pg_attributes :: "table_id \<Rightarrow> string list \<Rightarrow> goerror + (string \<times> int) list"
  pg_replident_index :: "table_id \<Rightarrow> goerror + string list"
  pg_replication_slots :: "string \<Rightarrow> goerror + slotState option"

definition classified :: "goerror + 'a \<Rightarrow> goerror + 'a" where
  "classified answer = (case answer of Inl err \<Rightarrow> Inl (classifyPostgresError err) | Inr x \<Rightarrow> Inr x)"

section \<open>Validation against the source\<close>

definition validatePublication :: "readerConfig \<Rightarrow> catalog \<Rightarrow> goerror + unit" where
  "validatePublication c management =
     rbind (classified (pg_publication management (PublicationName c))) (\<lambda>row.
       case row of
         None \<Rightarrow> Inl configError
       | Some (publishesInsert, publishesUpdate, publishesDelete, publishesTruncate) \<Rightarrow>
           if publishesTruncate then Inl configError
           else if \<not> publishesInsert \<or> \<not> publishesUpdate \<or> \<not> publishesDelete then Inl configError
           else Inr ())"

definition projectionPrimaryKey :: "catalog \<Rightarrow> table_id \<Rightarrow> goerror + string list" where
  "projectionPrimaryKey management table =
     rbind (classified (pg_primary_key management table)) (\<lambda>primaryKey.
       if primaryKey = [] then Inl configError else Inr primaryKey)"

fun same_strings_loop :: "string list \<Rightarrow> string list \<Rightarrow> bool" where
  "same_strings_loop (l # left) (r # right) = (if l \<noteq> r then False else same_strings_loop left right)"
| "same_strings_loop _ _ = True"

definition sameStrings :: "string list \<Rightarrow> string list \<Rightarrow> bool" where
  "sameStrings left right = (if length left \<noteq> length right then False else same_strings_loop left right)"

text \<open>The switch on the replica identity: the key columns of the shape, before they are sorted.\<close>

definition shape_key ::
    "catalog \<Rightarrow> projectionSpec \<Rightarrow> table_id \<Rightarrow> char \<Rightarrow> shapeColumn list \<Rightarrow> goerror + string list" where
  "shape_key management spec table identity columns =
     (if identity = CHR ''d'' then Inr (PrimaryKey spec)
      else if identity = CHR ''f'' then Inr (map sc_name columns)
      else if identity = CHR ''i'' then classified (pg_replident_index management table)
      else Inr [])"

definition projectionShape :: "readerConfig \<Rightarrow> catalog \<Rightarrow> projectionSpec \<Rightarrow> goerror + relationShape" where
  "projectionShape c management spec =
     (let table = [Schema spec, TableName spec] in
      rbind (classified (pg_class_published management table (PublicationName c) (Schema spec) (TableName spec)))
        (\<lambda>(class_oid, identity, published).
      if length identity \<noteq> 1 then Inl configError
      else rbind (classified (pg_attributes management table published)) (\<lambda>attributes.
        let columns = map (\<lambda>(name, typeOID). \<lparr>sc_name = name, sc_typeOID = word_of_int typeOID\<rparr>) attributes
        in rbind (shape_key management spec table (hd identity) columns) (\<lambda>key.
           Inr \<lparr>rs_table = Schema spec @ ''.'' @ TableName spec, rs_oid = word_of_int class_oid,
                rs_replicaIdentity = hd identity, rs_columns = columns, rs_key = sort key\<rparr>))))"

text \<open>Everything \<open>validateProjectionSpec\<close> checks before it records the shape.\<close>

definition projection_shape_checked ::
    "readerConfig \<Rightarrow> catalog \<Rightarrow> projectionSpec \<Rightarrow> goerror + relationShape" where
  "projection_shape_checked c management spec =
     (let table = [Schema spec, TableName spec] in
      rbind (classified (pg_table management table (ScopeColumn spec))) (\<lambda>(tableExists, scopeColumnExists).
      if \<not> tableExists then Inl configError
      else if \<not> scopeColumnExists then Inl configError
      else rbind (projectionPrimaryKey management table) (\<lambda>primaryKey.
        if \<not> sameStrings primaryKey (PrimaryKey spec) then Inl configError
        else rbind (classified (pg_publication_tables management (PublicationName c) (Schema spec) (TableName spec)))
          (\<lambda>published. if \<not> published then Inl configError else projectionShape c management spec))))"

definition validateProjectionSpec ::
    "readerConfig \<Rightarrow> catalog \<Rightarrow> projectionSpec \<Rightarrow> shapes \<Rightarrow> shapes \<times> (goerror + unit)" where
  "validateProjectionSpec c management spec registry =
     (case projection_shape_checked c management spec of
        Inl err \<Rightarrow> (registry, Inl err)
      | Inr shape \<Rightarrow> (recordShape registry shape, Inr ()))"

section \<open>The replication slot\<close>

definition lookupSlot :: "catalog \<Rightarrow> string \<Rightarrow> goerror + slotState option" where
  "lookupSlot management slotName = classified (pg_replication_slots management slotName)"

definition validateSlot :: "slotState \<Rightarrow> goerror + unit" where
  "validateSlot slot =
     (if slotType slot \<noteq> ''logical'' \<or> plugin slot \<noteq> ''pgoutput'' \<or> resumeLSN slot = []
      then Inl (Sentinel ErrSlotInvalidated)
      else if slot_active slot then Inl (retryableError (Sentinel ErrSlotInUse) [])
      else Inr ())"

definition parseLSN :: "(string \<Rightarrow> lsn option) \<Rightarrow> string \<Rightarrow> goerror + lsn" where
  "parseLSN ParseLSN v =
     (case ParseLSN v of None \<Rightarrow> Inl (Sentinel ErrSlotInvalidated) | Some l \<Rightarrow> Inr l)"

text \<open>\<open>management\<close> is the outcome of opening a management connection.\<close>

definition requireSlot ::
    "(string \<Rightarrow> lsn option) \<Rightarrow> readerConfig \<Rightarrow> goerror + catalog \<Rightarrow> goerror + lsn" where
  "requireSlot ParseLSN c connection =
     rbind connection (\<lambda>management.
     rbind (validatePublication c management) (\<lambda>_.
     rbind (lookupSlot management (SlotName c)) (\<lambda>found.
       case found of
         None \<Rightarrow> Inl (Sentinel ErrSlotInvalidated)
       | Some slot \<Rightarrow> rbind (validateSlot slot) (\<lambda>_. parseLSN ParseLSN (resumeLSN slot)))))"

definition usable_slot :: "slotState \<Rightarrow> bool" where
  "usable_slot slot \<longleftrightarrow> slotType slot = ''logical'' \<and> plugin slot = ''pgoutput''"

definition slotExists :: "readerConfig \<Rightarrow> goerror + catalog \<Rightarrow> goerror + bool" where
  "slotExists c connection =
     rbind connection (\<lambda>management.
     rbind (validatePublication c management) (\<lambda>_.
     rbind (lookupSlot management (SlotName c)) (\<lambda>found.
       case found of
         None \<Rightarrow> Inr False
       | Some slot \<Rightarrow> if \<not> usable_slot slot then Inl (Sentinel ErrSlotInvalidated) else Inr True)))"

section \<open>Lemmas\<close>

lemma classified_Inr_iff [simp]: "classified answer = Inr x \<longleftrightarrow> answer = Inr x"
  by (auto simp: classified_def split: sum.splits)

lemma sameStrings_iff: "sameStrings l r \<longleftrightarrow> l = r"
proof -
  have "length l = length r \<Longrightarrow> same_strings_loop l r \<longleftrightarrow> l = r"
    by (induction l r rule: same_strings_loop.induct) auto
  then show ?thesis by (auto simp: sameStrings_def)
qed

lemma projectionShape_Inr:
  assumes "projectionShape c management spec = Inr shape"
  shows "rs_table shape = Schema spec @ ''.'' @ TableName spec"
    and "rs_replicaIdentity shape = CHR ''d'' \<Longrightarrow> rs_key shape = sort (PrimaryKey spec)"
    and "rs_replicaIdentity shape = CHR ''f'' \<Longrightarrow> rs_key shape = sort (map sc_name (rs_columns shape))"
  using assms
  by (auto simp: projectionShape_def Let_def rbind_Inr_iff shape_key_def split: if_splits)

lemma projection_shape_checked_Inr:
  assumes "projection_shape_checked c management spec = Inr shape"
  shows "projectionShape c management spec = Inr shape"
    and "pg_primary_key management [Schema spec, TableName spec] = Inr (PrimaryKey spec)"
  using assms
  by (auto simp: projection_shape_checked_def Let_def rbind_Inr_iff projectionPrimaryKey_def
      sameStrings_iff split: if_splits)

lemma validateProjectionSpec_Inr:
  assumes "validateProjectionSpec c management spec registry = (registry', Inr u)"
  obtains shape where "projection_shape_checked c management spec = Inr shape"
    "registry' = recordShape registry shape"
  using assms by (auto simp: validateProjectionSpec_def split: sum.splits)

end
