(* ===== verification/Catalog_Correct.thy ===== *)
theory Catalog_Correct
  imports Catalog Decoder_Rows Hub
begin

text \<open>
  What validation buys the rest of the program: a table that was validated and whose relation passes
  the decoder's shape check only yields changes that carry the whole primary key, so the hub can
  route every one of them to its scope. The argument needs the default replica identity; with an index
  as replica identity validation accepts a table whose changes no scope receives.
\<close>

section \<open>The key of a decoded change\<close>

lemma foldl_update_lookup:
  assumes "distinct (map g js)"
  shows "map_of (foldl (\<lambda>key i. AList.update (g i) (f i) key) key js) x =
    (case map_of (map (\<lambda>i. (g i, f i)) js) x of Some v \<Rightarrow> Some v | None \<Rightarrow> map_of key x)"
  using assms
proof (induction js arbitrary: key)
  case (Cons j js)
  have "map_of (map (\<lambda>i. (g i, f i)) js) (g j) = None"
    using Cons.prems by (auto simp: map_of_eq_None_iff image_iff)
  with Cons show ?case by (auto simp: update_conv' split: option.splits)
qed simp

lemma distinct_key_columns:
  assumes "wf_info info" "distinct (ri_columns info)"
  shows "distinct (map ((!) (ri_columns info)) (keyIndexes info))"
proof -
  have "distinct (keyIndexes info)" using assms(1) by (simp add: wf_info_def strict_sorted_iff)
  moreover have "inj_on ((!) (ri_columns info)) (set (keyIndexes info))"
    using assms by (intro inj_onI) (simp add: wf_info_def list_all_iff nth_eq_iff_index_eq)
  ultimately show ?thesis by (simp add: distinct_map)
qed

lemma key_map_lookup:
  assumes "wf_info info" "distinct (ri_columns info)"
  shows "map_of (key_map info f) x =
    map_of (map (\<lambda>i. (ri_columns info ! i, f i)) (keyIndexes info)) x"
  unfolding key_map_def
  using foldl_update_lookup [OF distinct_key_columns [OF assms], of f "[]" x]
  by (simp split: option.splits)

lemma keyFromTuple_some_key_map:
  assumes "wf_info info" "key_tuple_length info cs"
    "\<And>k. k < length (keyIndexes info) \<Longrightarrow> P (Data (key_column info cs k))"
  shows "\<exists>f. keyFromTuple info cs = Inr (key_map info f) \<and> (\<forall>i \<in> set (keyIndexes info). P (f i))"
proof -
  define f where "f i = Data (key_column info cs (the (map_of (zip (keyIndexes info) [0..<length (keyIndexes info)]) i)))" for i
  have d: "distinct (keyIndexes info)" using assms(1) by (simp add: wf_info_def strict_sorted_iff)
  have f: "f (keyIndexes info ! k) = Data (key_column info cs k)" if "k < length (keyIndexes info)" for k
  proof -
    have "map_of (zip (keyIndexes info) [0..<length (keyIndexes info)]) (keyIndexes info ! k) = Some ([0..<length (keyIndexes info)] ! k)"
      using that d by (intro map_of_zip_nth) simp_all
    with that show ?thesis by (simp add: f_def)
  qed
  have "keyFromTuple info cs = Inr (key_map info f)"
    using assms(1,2) f by (intro keyFromTuple_key_map) simp_all
  moreover have "\<forall>i \<in> set (keyIndexes info). P (f i)"
    using assms(3) f by (auto simp: in_set_conv_nth)
  ultimately show ?thesis by blast
qed

text \<open>A change decoded from a row message of relation \<open>i\<close>.\<close>

definition decodes :: "decoder \<Rightarrow> oid \<Rightarrow> change \<Rightarrow> bool" where
  "decodes d i ch \<longleftrightarrow> (\<exists>new. insert_row d i new = Inr ch) \<or>
     (\<exists>old new. update_row d i old new = Inr ch) \<or> (\<exists>old. delete_row d i old = Inr ch)"

lemma keyFromValues_some_key_map:
  assumes "wf_info info" "decodeRow info new maxv = Inr vals" "keyFromValues info vals = Inr key"
  shows "\<exists>f. key = key_map info f \<and> (\<forall>i \<in> set (keyIndexes info). f i \<noteq> [])"
proof -
  obtain cs where cs: "length cs = length (ri_columns info)" "vals = map column_value cs"
    using assms(2) by (auto simp: decodeRow_Inr_iff)
  note key = keyFromValues_row_texts [OF assms(1) cs(1) assms(3) [unfolded cs(2)]]
  from key(2) have "\<forall>i \<in> set (keyIndexes info). Data (cs ! i) \<noteq> []" by (simp add: list_all_iff)
  with key(3) show ?thesis by blast
qed

lemma decodes_key:
  assumes "decodes d i ch" "relation d i = Inr info" "wf_info info"
  shows "Table ch = ri_table info"
    and "\<exists>f. Key ch = key_map info f \<and> (\<forall>j \<in> set (keyIndexes info). f j \<noteq> [])"
proof -
  have "Table ch = ri_table info \<and> (\<exists>f. Key ch = key_map info f \<and> (\<forall>j \<in> set (keyIndexes info). f j \<noteq> []))"
    using assms(1) unfolding decodes_def
  proof (elim disjE exE)
    fix new assume "insert_row d i new = Inr ch"
    then show ?thesis
      using assms(2,3) by (auto simp: insert_row_def rbind_Inr_iff dest: keyFromValues_some_key_map)
  next
    fix old new assume "update_row d i old new = Inr ch"
    then show ?thesis
      using assms(2,3) by (auto simp: update_row_def rbind_Inr_iff dest: keyFromValues_some_key_map)
  next
    fix old assume "delete_row d i old = Inr ch"
    then obtain cs key where ch: "checkKeyTuple info old (maxValueBytes d) = Inr ()" "old = Some cs"
      "keyFromTuple info cs = Inr key" "Key ch = key" "Table ch = ri_table info"
      using assms(2) by (auto simp: delete_row_def rbind_Inr_iff split: option.splits)
    obtain cs' where "old = Some cs'" and len: "key_tuple_length info cs'"
      and texts: "\<And>k. k < length (keyIndexes info) \<Longrightarrow> key_text (maxValueBytes d) (key_column info cs' k)"
      using checkKeyTuple_Inr [OF assms(3) ch(1)] by blast
    with ch(2) have "cs' = cs" by simp
    with keyFromTuple_some_key_map [OF assms(3) len, of "\<lambda>s. s \<noteq> []"] texts ch
    show ?thesis by (auto simp: key_text_def)
  qed
  then show "Table ch = ri_table info"
    "\<exists>f. Key ch = key_map info f \<and> (\<forall>j \<in> set (keyIndexes info). f j \<noteq> [])" by simp_all
qed

section \<open>Validated tables can be routed\<close>

lemma key_columns_of_message:
  "set (map ((!) (ri_columns (newRelationInfo m))) (keyIndexes (newRelationInfo m))) =
   set (rs_key (shapeOfRelation m))"
  by (auto simp: newRelationInfo_def shapeOfRelation_def in_set_conv_nth image_iff)

lemma diff_None_same:
  assumes "diff s a = None"
  shows "rs_key a = rs_key s" "rs_replicaIdentity a = rs_replicaIdentity s"
  using assms by (auto simp: diff_def split: if_splits)

lemma check_compatible:
  assumes "ri_incompatible (fst (check (Some regs) info evs)) = None"
    "baselineByTable (at_table regs) (ri_table info) = Some b"
  shows "diff b (ri_shape info) = None"
  using assms by (auto simp: check_def Let_def split: option.splits if_splits)

lemma check_same:
  "fst (check regs info evs) = info\<lparr>checked := checked (fst (check regs info evs)),
     ri_incompatible := ri_incompatible (fst (check regs info evs))\<rparr>"
  by (auto simp: check_def Let_def split: option.splits if_splits)

lemma validated_key_columns:
  assumes valid: "validateProjectionSpec c management spec registry = (registry', Inr ())"
    and identity: "map_option rs_replicaIdentity
      (baselineByTable registry' (Schema spec @ ''.'' @ TableName spec)) = Some (CHR ''d'')"
    and table: "ri_table (newRelationInfo m) = Schema spec @ ''.'' @ TableName spec"
    and info: "ri_incompatible (fst (check (Some (quiet registry')) (newRelationInfo m) evs)) = None"
  shows "set (rs_key (shapeOfRelation m)) = set (PrimaryKey spec)"
proof -
  let ?table = "Schema spec @ ''.'' @ TableName spec"
  obtain shape where shape: "projection_shape_checked c management spec = Inr shape"
    and registry': "registry' = recordShape registry shape"
    using valid by (rule validateProjectionSpec_Inr)
  note ps = projectionShape_Inr [OF projection_shape_checked_Inr(1) [OF shape]]
  obtain b where b: "baselineByTable registry' ?table = Some b" "diff b shape = None"
    using shapes_registry.recorded [of registry shape] unfolding registry' ps(1) by blast
  have "diff b (shapeOfRelation m) = None"
    using check_compatible [OF info] b(1) table by (simp add: quiet_def newRelationInfo_def)
  then have "rs_key (shapeOfRelation m) = rs_key b" by (rule diff_None_same)
  also have "\<dots> = rs_key shape" by (rule diff_None_same [OF b(2), symmetric])
  also have "\<dots> = sort (PrimaryKey spec)"
  proof (rule ps(2))
    have "rs_replicaIdentity shape = rs_replicaIdentity b" by (rule diff_None_same [OF b(2)])
    with identity b(1) show "rs_replicaIdentity shape = CHR ''d''" by simp
  qed
  finally show ?thesis by simp
qed

lemma key_map_keys:
  assumes "wf_info info" "distinct (ri_columns info)"
  shows "fst ` set (key_map info f) = (!) (ri_columns info) ` set (keyIndexes info)"
proof -
  have "fst ` set (key_map info f) = dom (map_of (key_map info f))" by (simp add: dom_map_of_conv_image_fst)
  also have "\<dots> = dom (map_of (map (\<lambda>j. (ri_columns info ! j, f j)) (keyIndexes info)))"
    unfolding dom_def key_map_lookup [OF assms] ..
  also have "\<dots> = (!) (ri_columns info) ` set (keyIndexes info)"
    by (force simp: dom_map_of_conv_image_fst)
  finally show ?thesis .
qed

text \<open>C21: Validation makes every change routable. Let a spec pass the static checks and the checks against
  the source, which records the table's shape, and let the table have the default replica identity.
  If the relation PostgreSQL announces for the table passes the decoder's shape check, then every change
  the decoder makes of its INSERT, UPDATE and DELETE messages carries exactly the primary key's
  columns, none of them empty; so its scope value is present, and the hub's filter for that scope, and
  for no other, keeps the change.\<close>

theorem validated_changes_routed:
  assumes spec: "validateSourceProjectionSpec c spec = Inr ()"
    and valid: "validateProjectionSpec c management spec registry = (registry', Inr ())"
    and identity: "map_option rs_replicaIdentity
      (baselineByTable registry' (Schema spec @ ''.'' @ TableName spec)) = Some (CHR ''d'')"
    and names: "distinct (map rc_name (rm_columns m))"
      "qualifiedTable (rm_namespace m) (rm_relationName m) = Schema spec @ ''.'' @ TableName spec"
    and info: "relation d i = Inr (fst (check (Some (quiet registry')) (newRelationInfo m) evs))"
      "ri_incompatible (fst (check (Some (quiet registry')) (newRelationInfo m) evs)) = None"
    and change: "decodes d i ch"
    and p: "pr_spec p = spec" "pr_table p = Schema spec @ ''.'' @ TableName spec"
  shows "fst ` set (Key ch) = set (PrimaryKey spec) \<and>
    (\<exists>v. v \<noteq> [] \<and> map_of (Key ch) (ScopeColumn spec) = Some v \<and>
       (\<forall>t scope. ch \<in> set (Changes t) \<longrightarrow> (ch \<in> set (projection_changes p scope t) \<longleftrightarrow> scope = v)))"
proof -
  let ?info = "fst (check (Some (quiet registry')) (newRelationInfo m) evs)"
  have table: "ri_table (newRelationInfo m) = Schema spec @ ''.'' @ TableName spec"
    using names(2) by (simp add: newRelationInfo_def)
  have same: "ri_columns ?info = ri_columns (newRelationInfo m)" "keyIndexes ?info = keyIndexes (newRelationInfo m)"
    "ri_table ?info = Schema spec @ ''.'' @ TableName spec"
    by (subst check_same; simp add: table)+
  have wf: "wf_info ?info" using newRelationInfo_wf [of m] by (simp add: wf_info_def same)
  have dist: "distinct (ri_columns ?info)" unfolding same using names(1) by (simp add: newRelationInfo_def)
  obtain f where f: "Key ch = key_map ?info f" "\<forall>j \<in> set (keyIndexes ?info). f j \<noteq> []"
    using decodes_key(2) [OF change info(1) wf] by blast
  have keys: "fst ` set (Key ch) = set (PrimaryKey spec)"
    using key_map_keys [OF wf dist] key_columns_of_message [of m]
      validated_key_columns [OF valid identity table info(2)]
    by (simp add: f(1) same)
  then have "ScopeColumn spec \<in> fst ` set (Key ch)"
    using spec by (auto simp: validateSourceProjectionSpec_def rbind_Inr_iff validateProjectionSpecConfig_iff)
  then obtain v where v: "map_of (Key ch) (ScopeColumn spec) = Some v"
    by (metis domD dom_map_of_conv_image_fst)
  have "v \<noteq> []"
    using map_of_SomeD [OF v [unfolded f(1) key_map_lookup [OF wf dist, of f]]] f(2) by auto
  moreover have "ch \<in> set (projection_changes p scope t) \<longleftrightarrow> scope = v" if "ch \<in> set (Changes t)" for t scope
    using that v decodes_key(1) [OF change info(1) wf] same(3) p by (auto simp: projection_changes_def gm_get_def)
  ultimately show ?thesis using v keys by blast
qed

text \<open>A table \<open>public.items\<close> with key \<open>(tenant, id)\<close>, and the catalog of a source that publishes it
  with replica identity \<open>identity\<close> and, for an index identity, the index columns \<open>index\<close>.\<close>

definition stock_spec :: projectionSpec where
  "stock_spec = \<lparr>SourceID = ''src'', Schema = ''public'', TableName = ''items'', ScopeColumn = ''tenant'',
     PrimaryKey = [''tenant'', ''id'']\<rparr>"

definition stock_catalog :: "string \<Rightarrow> string list \<Rightarrow> catalog" where
  "stock_catalog identity index =
     \<lparr>pg_publication = (\<lambda>_. Inr (Some (True, True, True, False))),
      pg_table = (\<lambda>_ _. Inr (True, True)),
      pg_primary_key = (\<lambda>_. Inr [''tenant'', ''id'']),
      pg_publication_tables = (\<lambda>_ _ _. Inr True),
      pg_class_published = (\<lambda>_ _ _ _. Inr (7, identity, [''tenant'', ''title'', ''id''])),
      pg_attributes = (\<lambda>_ _. Inr [(''tenant'', 25), (''title'', 25), (''id'', 23)]),
      pg_replident_index = (\<lambda>_. Inr index),
      pg_replication_slots = (\<lambda>_. Inr None)\<rparr>"

definition stock_msg :: "char \<Rightarrow> string list \<Rightarrow> relation_msg" where
  "stock_msg identity key = \<lparr>rm_relationID = 7, rm_namespace = ''public'', rm_relationName = ''items'',
     rm_replicaIdentity = identity,
     rm_columns = map (\<lambda>(n, ty). \<lparr>rc_flags = (if n \<in> set key then 1 else 0), rc_name = n, rc_dataType = ty\<rparr>)
       [(''tenant'', 25), (''title'', 25), (''id'', 23)]\<rparr>"

definition stock_registry :: "string \<Rightarrow> string list \<Rightarrow> shapes" where
  "stock_registry identity index =
     fst (validateProjectionSpec basic_config (stock_catalog identity index) stock_spec newShapes)"

definition stock_decoder :: "string \<Rightarrow> string list \<Rightarrow> relation_msg \<Rightarrow> decoder" where
  "stock_decoder identity index m =
     fst (Consume (Some (quiet (stock_registry identity index))) NewDecoder (RelationMessage m))"

definition stock_row :: tupleData where
  "stock_row = [\<lparr>DataType = CHR ''t'', Data = ''acme''\<rparr>, \<lparr>DataType = CHR ''t'', Data = ''milk''\<rparr>,
                \<lparr>DataType = CHR ''t'', Data = ''42''\<rparr>]"

definition stock_insert :: "(string, string) gomap \<Rightarrow> change" where
  "stock_insert key = \<lparr>Operation = OperationInsert, Table = ''public.items'', Key = key,
     Columns = [''tenant'', ''title'', ''id''], Values = map column_value stock_row\<rparr>"

definition stock_projection :: projection where
  "stock_projection = \<lparr>pr_spec = stock_spec, pr_table = ''public.items''\<rparr>"

theorem validated_changes_routed_witness:
  "\<exists>v. v \<noteq> [] \<and> map_of (Key (stock_insert [(''tenant'', ''acme''), (''id'', ''42'')])) (ScopeColumn stock_spec) = Some v"
proof -
  let ?m = "stock_msg (CHR ''d'') [''tenant'', ''id'']"
  let ?d = "stock_decoder ''d'' [] ?m"
  let ?k = "[(''tenant'', ''acme''), (''id'', ''42'')]"
  have "fst ` set (Key (stock_insert ?k)) = set (PrimaryKey stock_spec) \<and>
    (\<exists>v. v \<noteq> [] \<and> map_of (Key (stock_insert ?k)) (ScopeColumn stock_spec) = Some v \<and>
       (\<forall>t scope. stock_insert ?k \<in> set (Changes t) \<longrightarrow>
         (stock_insert ?k \<in> set (projection_changes stock_projection scope t) \<longleftrightarrow> scope = v)))"
  proof (rule validated_changes_routed)
    show "validateSourceProjectionSpec basic_config stock_spec = Inr ()" by code_simp
    show "validateProjectionSpec basic_config (stock_catalog ''d'' []) stock_spec newShapes =
        (stock_registry ''d'' [], Inr ())" by code_simp
    show "map_option rs_replicaIdentity (baselineByTable (stock_registry ''d'' [])
        (Schema stock_spec @ ''.'' @ TableName stock_spec)) = Some (CHR ''d'')" by code_simp
    show "distinct (map rc_name (rm_columns ?m))" by code_simp
    show "qualifiedTable (rm_namespace ?m) (rm_relationName ?m) = Schema stock_spec @ ''.'' @ TableName stock_spec"
      by code_simp
    show "relation ?d 7 = Inr (fst (check (Some (quiet (stock_registry ''d'' []))) (newRelationInfo ?m) []))"
      by code_simp
    show "ri_incompatible (fst (check (Some (quiet (stock_registry ''d'' []))) (newRelationInfo ?m) [])) = None"
      by code_simp
    have "insert_row ?d 7 (Some stock_row) = Inr (stock_insert ?k)" by code_simp
    then show "decodes ?d 7 (stock_insert ?k)" by (auto simp: decodes_def)
    show "pr_spec stock_projection = stock_spec"
      "pr_table stock_projection = Schema stock_spec @ ''.'' @ TableName stock_spec" by code_simp+
  qed
  then show ?thesis by blast
qed

section \<open>An index as replica identity\<close>

text \<open>With \<open>REPLICA IDENTITY USING INDEX\<close> validation accepts a table whose changes cannot be routed.
  The spec's scope column is part of the primary key, but the index is on \<open>id\<close> alone; both validations
  succeed, the relation passes the shape check, and the decoded INSERT carries only the index's
  column, so the filter keeps it for no scope but the empty one: watchers of tenant \<open>acme\<close> never see
  the row.\<close>

theorem index_identity_unroutable:
  "validateSourceProjectionSpec basic_config stock_spec = Inr () \<and>
   snd (validateProjectionSpec basic_config (stock_catalog ''i'' [''id'']) stock_spec newShapes) = Inr () \<and>
   skip (Some (quiet (stock_registry ''i'' [''id''])))
     (stock_decoder ''i'' [''id''] (stock_msg (CHR ''i'') [''id''])) 7 =
     (stock_decoder ''i'' [''id''] (stock_msg (CHR ''i'') [''id'']), Inr False) \<and>
   insert_row (stock_decoder ''i'' [''id''] (stock_msg (CHR ''i'') [''id''])) 7 (Some stock_row) =
     Inr (stock_insert [(''id'', ''42'')]) \<and>
   (\<forall>t scope. projection_changes stock_projection scope (t\<lparr>Changes := [stock_insert [(''id'', ''42'')]]\<rparr>) =
     (if scope = [] then [stock_insert [(''id'', ''42'')]] else []))"
proof (intro conjI)
  show "validateSourceProjectionSpec basic_config stock_spec = Inr ()" by code_simp
  show "snd (validateProjectionSpec basic_config (stock_catalog ''i'' [''id'']) stock_spec newShapes) = Inr ()"
    by code_simp
  show "skip (Some (quiet (stock_registry ''i'' [''id''])))
     (stock_decoder ''i'' [''id''] (stock_msg (CHR ''i'') [''id''])) 7 =
     (stock_decoder ''i'' [''id''] (stock_msg (CHR ''i'') [''id'']), Inr False)" by code_simp
  show "insert_row (stock_decoder ''i'' [''id''] (stock_msg (CHR ''i'') [''id''])) 7 (Some stock_row) =
     Inr (stock_insert [(''id'', ''42'')])" by code_simp
  show "\<forall>t scope. projection_changes stock_projection scope (t\<lparr>Changes := [stock_insert [(''id'', ''42'')]]\<rparr>) =
     (if scope = [] then [stock_insert [(''id'', ''42'')]] else [])"
    by (auto simp: projection_changes_def stock_insert_def stock_projection_def stock_spec_def gm_get_def)
qed

end
