(* ===== verification/Stream.thy ===== *)
theory Stream
  imports Catalog Retention
begin

text \<open>
  The streaming loop of the reader (\<open>internal/cdc/stream.go\<close>) with the reader's statistics
  (\<open>internal/cdc/reader.go\<close>): one connection from start to its end (\<open>receive\<close>, \<open>consumeCopyData\<close>,
  \<open>acknowledge\<close>), and \<open>Run\<close>, which reconnects.

  The parsers of \<open>pglogrepl\<close> are parameters, gathered in \<open>parsers\<close>; the sink is a parameter with a
  state of its own. What arrives on a connection is a list of \<open>arrival\<close>s, each with what the code
  meets while it handles it: the registry states the decoder reads, and the outcome of sending a
  standby status. \<open>conn_sent\<close> logs every status sent, whatever its outcome, and \<open>conn_accepted\<close> every
  transaction the sink accepted; the code keeps neither. Log lines, histograms and the clock are not
  modelled.
\<close>

section \<open>The reader's statistics\<close>

definition stateIdle :: string where "stateIdle = ''idle''"
definition stateConnecting :: string where "stateConnecting = ''connecting''"
definition stateStreaming :: string where "stateStreaming = ''streaming''"
definition stateBackingOff :: string where "stateBackingOff = ''backing_off''"
definition stateStopped :: string where "stateStopped = ''stopped''"
definition stateFailed :: string where "stateFailed = ''failed''"

text \<open>An \<open>lsnStat\<close> that was never stored is \<open>None\<close>. \<open>bootstrap_stream\<close> is the stream \<open>Bootstrap\<close> left for
  \<open>read\<close>, with its LSN. The counters of the metrics follow the statistics.\<close>

record reader =
  connectionState :: string
  lastReceivedLSN :: "lsn option"
  lastAcknowledgedLSN :: "lsn option"
  transactionsReceived :: "64 word"
  transactionsAccepted :: "64 word"
  decodeErrors :: "64 word"
  reconnectAttempts :: "64 word"
  inFlightChanges :: int
  inFlightBytes :: int
  bootstrap_stream :: "lsn option"
  serverWALEnd :: lsn
  m_pendingMessages :: int
  m_pendingBytes :: int
  m_messages :: int
  m_walBytes :: int
  m_transactions :: int
  m_incompatible :: int

definition newReader :: reader where
  "newReader =
     \<lparr>connectionState = stateIdle, lastReceivedLSN = None, lastAcknowledgedLSN = None,
      transactionsReceived = 0, transactionsAccepted = 0, decodeErrors = 0, reconnectAttempts = 0,
      inFlightChanges = 0, inFlightBytes = 0, bootstrap_stream = None, serverWALEnd = 0,
      m_pendingMessages = 0, m_pendingBytes = 0, m_messages = 0, m_walBytes = 0, m_transactions = 0,
      m_incompatible = 0\<rparr>"

text \<open>\<open>NewReader\<close>; \<open>instruments\<close> is the error of creating the instruments, if any. The reader's
  configuration is returned beside its state.\<close>

definition NewReader :: "goerror option \<Rightarrow> readerConfig \<Rightarrow> bool \<Rightarrow> goerror + readerConfig \<times> reader" where
  "NewReader instruments config has_sink =
     (let c = normalizeReaderConfig config in
      rbind (validateReaderConfig c has_sink) (\<lambda>_.
        case instruments of Some err \<Rightarrow> Inl (Errorf [err]) | None \<Rightarrow> Inr (c, newReader)))"

definition setConnectionState :: "string \<Rightarrow> reader \<Rightarrow> reader" where
  "setConnectionState s r = r\<lparr>connectionState := s\<rparr>"

definition setLastReceivedLSN :: "lsn \<Rightarrow> reader \<Rightarrow> reader" where
  "setLastReceivedLSN l r = r\<lparr>lastReceivedLSN := Some l\<rparr>"

definition setLastAcknowledgedLSN :: "lsn \<Rightarrow> reader \<Rightarrow> reader" where
  "setLastAcknowledgedLSN l r = r\<lparr>lastAcknowledgedLSN := Some l\<rparr>"

definition setInFlight :: "nat \<times> int \<Rightarrow> reader \<Rightarrow> reader" where
  "setInFlight p r = r\<lparr>inFlightChanges := int (fst p), inFlightBytes := snd p\<rparr>"

definition incrementTransactionsReceived :: "reader \<Rightarrow> reader" where
  "incrementTransactionsReceived r = r\<lparr>transactionsReceived := transactionsReceived r + 1\<rparr>"

definition incrementTransactionsAccepted :: "reader \<Rightarrow> reader" where
  "incrementTransactionsAccepted r = r\<lparr>transactionsAccepted := transactionsAccepted r + 1\<rparr>"

definition incrementDecodeErrors :: "reader \<Rightarrow> reader" where
  "incrementDecodeErrors r = r\<lparr>decodeErrors := decodeErrors r + 1\<rparr>"

definition incrementReconnects :: "reader \<Rightarrow> reader" where
  "incrementReconnects r = r\<lparr>reconnectAttempts := reconnectAttempts r + 1\<rparr>"

text \<open>\<open>ReaderStats\<close>; \<open>print_lsn\<close> is \<open>pglogrepl.LSN.String\<close>, and the retention state is the monitor's.\<close>

record readerStats =
  rst_connectionState :: string
  rst_lastReceivedLSN :: string
  rst_lastAcknowledgedLSN :: string
  rst_transactionsReceived :: "64 word"
  rst_transactionsAccepted :: "64 word"
  rst_decodeErrors :: "64 word"
  rst_reconnectAttempts :: "64 word"
  rst_inFlightBytes :: int
  rst_inFlightChanges :: int
  rst_retentionState :: string

definition lsnStat_String :: "(lsn \<Rightarrow> string) \<Rightarrow> lsn option \<Rightarrow> string" where
  "lsnStat_String print_lsn s = (case s of None \<Rightarrow> [] | Some l \<Rightarrow> print_lsn l)"

definition Stats :: "(lsn \<Rightarrow> string) \<Rightarrow> reader \<Rightarrow> retention \<Rightarrow> readerStats" where
  "Stats print_lsn r rt =
     \<lparr>rst_connectionState = connectionState r,
      rst_lastReceivedLSN = lsnStat_String print_lsn (lastReceivedLSN r),
      rst_lastAcknowledgedLSN = lsnStat_String print_lsn (lastAcknowledgedLSN r),
      rst_transactionsReceived = transactionsReceived r,
      rst_transactionsAccepted = transactionsAccepted r,
      rst_decodeErrors = decodeErrors r, rst_reconnectAttempts = reconnectAttempts r,
      rst_inFlightBytes = inFlightBytes r, rst_inFlightChanges = inFlightChanges r,
      rst_retentionState = rt_reported rt\<rparr>"

text \<open>The compare-and-swap loop of \<open>observeServerWALEnd\<close>: the end never moves backwards.\<close>

definition observeServerWALEnd :: "lsn \<Rightarrow> reader \<Rightarrow> reader" where
  "observeServerWALEnd l r = (if l \<le> serverWALEnd r then r else r\<lparr>serverWALEnd := l\<rparr>)"

definition reportIncompatible :: "incompatible list \<Rightarrow> reader \<Rightarrow> reader" where
  "reportIncompatible evs r = fold (\<lambda>ev r. r\<lparr>m_incompatible := m_incompatible r + 1\<rparr>) evs r"

section \<open>One connection\<close>

text \<open>\<open>ParseXLogData\<close> gives \<open>WALStart\<close>, \<open>ServerWALEnd\<close> and the payload, \<open>ParseKeepalive\<close> gives
  \<open>ServerWALEnd\<close> and whether a reply is requested.\<close>

record parsers =
  ParseXLogData :: "string \<Rightarrow> (lsn \<times> lsn \<times> string) option"
  ParsePgoutput :: "string \<Rightarrow> message option"
  ParseKeepalive :: "string \<Rightarrow> (lsn \<times> bool) option"

type_synonym 'h sink = "'h \<Rightarrow> transaction \<Rightarrow> goerror + 'h"

record 'h conn =
  conn_reader :: reader
  conn_decoder :: decoder
  conn_safe :: lsn
  conn_sink :: 'h
  conn_sent :: "lsn list"
  conn_accepted :: "transaction list"

definition on_reader :: "(reader \<Rightarrow> reader) \<Rightarrow> 'h conn \<Rightarrow> 'h conn" where
  "on_reader f s = s\<lparr>conn_reader := f (conn_reader s)\<rparr>"

definition newDecoder :: "readerConfig \<Rightarrow> decoder" where
  "newDecoder c = NewDecoderWithLimits (MaxTransactionBytes c) (MaxTransactionChanges c) (MaxValueBytes c)"

text \<open>\<open>outcome\<close> is the error of \<open>sendStandbyStatus\<close>, if any.\<close>

definition acknowledge :: "goerror option \<Rightarrow> 'h conn \<Rightarrow> 'h conn \<times> goerror option" where
  "acknowledge outcome s =
     (let s1 = s\<lparr>conn_sent := conn_sent s @ [conn_safe s]\<rparr> in
      case outcome of
        None \<Rightarrow> (on_reader (setLastAcknowledgedLSN (conn_safe s)) s1, None)
      | Some err \<Rightarrow> (s1, Some err))"

definition malformed :: goerror where
  "malformed = Errorf [Sentinel ErrMalformedReplicationData]"

text \<open>The metrics' tallies of the open transaction, and their flush at COMMIT.\<close>

definition tally :: "nat \<Rightarrow> reader \<Rightarrow> reader" where
  "tally n r = r\<lparr>m_pendingMessages := m_pendingMessages r + 1, m_pendingBytes := m_pendingBytes r + int n\<rparr>"

definition flush_tallies :: "reader \<Rightarrow> reader" where
  "flush_tallies r = r\<lparr>m_messages := m_messages r + m_pendingMessages r,
     m_walBytes := m_walBytes r + m_pendingBytes r, m_pendingMessages := 0, m_pendingBytes := 0\<rparr>"

text \<open>The part of \<open>consumeCopyData\<close> after the decoder emitted \<open>t\<close> at the commit ending at \<open>end_lsn\<close>:
  stamp the source, hand the transaction to the sink, then acknowledge.\<close>

definition deliver_commit ::
    "readerConfig \<Rightarrow> 'h sink \<Rightarrow> goerror option \<Rightarrow> transaction \<Rightarrow> lsn \<Rightarrow> 'h conn \<Rightarrow> 'h conn \<times> goerror option" where
  "deliver_commit c sink outcome t end_lsn s =
     (let s1 = on_reader (flush_tallies \<circ> reportIncompatible (Incompatible t) \<circ> incrementTransactionsReceived) s;
          t1 = t\<lparr>Cursor_of := (Cursor_of t)\<lparr>cur_source := rd_SourceID c\<rparr>\<rparr>
      in case sink (conn_sink s1) t1 of
           Inl err \<Rightarrow> (s1, Some (Errorf [Sentinel ErrSinkRejected, err]))
         | Inr h \<Rightarrow>
             (let s2 = s1\<lparr>conn_sink := h, conn_accepted := conn_accepted s1 @ [t1], conn_safe := end_lsn\<rparr>
              in case acknowledge outcome s2 of
                   (s3, Some err) \<Rightarrow> (s3, Some (classifyPostgresError err))
                 | (s3, None) \<Rightarrow>
                     (on_reader (setLastAcknowledgedLSN (conn_safe s3) \<circ>
                        (\<lambda>r. r\<lparr>m_transactions := m_transactions r + 1\<rparr>) \<circ> incrementTransactionsAccepted) s3,
                      None)))"

text \<open>The \<open>XLogData\<close> case, from the parsed message on.\<close>

definition consume_message ::
    "readerConfig \<Rightarrow> 'h sink \<Rightarrow> reads \<Rightarrow> goerror option \<Rightarrow> message \<Rightarrow> 'h conn \<Rightarrow> 'h conn \<times> goerror option" where
  "consume_message c sink regs outcome m s =
     (case Consume (Some regs) (conn_decoder s) m of
        (d, result) \<Rightarrow>
          (let s1 = on_reader (setInFlight (Pending d)) (s\<lparr>conn_decoder := d\<rparr>) in
           case result of
             Inl err \<Rightarrow> (on_reader incrementDecodeErrors s1, Some err)
           | Inr None \<Rightarrow> (s1, None)
           | Inr (Some t) \<Rightarrow>
               (case m of
                  CommitMessage commit_lsn end_lsn \<Rightarrow>
                    if end_lsn = 0 then (s1, Some malformed) else deliver_commit c sink outcome t end_lsn s1
                | _ \<Rightarrow> (s1, Some malformed))))"

definition consume_xlog ::
    "parsers \<Rightarrow> readerConfig \<Rightarrow> 'h sink \<Rightarrow> reads \<Rightarrow> goerror option \<Rightarrow> string \<Rightarrow> 'h conn \<Rightarrow> 'h conn \<times> goerror option" where
  "consume_xlog P c sink regs outcome payload s =
     (case ParseXLogData P payload of
        None \<Rightarrow> (s, Some malformed)
      | Some (walStart, walEnd, walData) \<Rightarrow>
          if walData = [] then (s, Some malformed)
          else if int (length walData) > MaxTransactionBytes c then (s, Some (Sentinel ErrTransactionTooLarge))
          else let s1 = on_reader (observeServerWALEnd walEnd \<circ> setLastReceivedLSN walStart) s in
            case ParsePgoutput P walData of
              None \<Rightarrow> (on_reader incrementDecodeErrors s1, Some malformed)
            | Some m \<Rightarrow> consume_message c sink regs outcome m (on_reader (tally (length walData)) s1))"

definition consume_keepalive ::
    "parsers \<Rightarrow> goerror option \<Rightarrow> string \<Rightarrow> 'h conn \<Rightarrow> 'h conn \<times> goerror option" where
  "consume_keepalive P outcome payload s =
     (case ParseKeepalive P payload of
        None \<Rightarrow> (s, Some malformed)
      | Some (walEnd, replyRequested) \<Rightarrow>
          (let s1 = on_reader (observeServerWALEnd walEnd) s;
               s2 = (if \<not> InTransaction (conn_decoder s1) \<and> walEnd > conn_safe s1
                     then s1\<lparr>conn_safe := walEnd\<rparr> else s1)
           in if replyRequested then
                (case acknowledge outcome s2 of
                   (s3, Some err) \<Rightarrow> (s3, Some (classifyPostgresError err))
                 | (s3, None) \<Rightarrow> (s3, None))
              else (s2, None)))"

definition consumeCopyData ::
    "parsers \<Rightarrow> readerConfig \<Rightarrow> 'h sink \<Rightarrow> reads \<Rightarrow> goerror option \<Rightarrow> string \<Rightarrow> 'h conn \<Rightarrow> 'h conn \<times> goerror option" where
  "consumeCopyData P c sink regs outcome data s =
     (case data of
        [] \<Rightarrow> (s, Some (Sentinel ErrMalformedReplicationData))
      | b # payload \<Rightarrow>
          if b = CHR ''w'' then consume_xlog P c sink regs outcome payload s
          else if b = CHR ''k'' then consume_keepalive P outcome payload s
          else (s, Some (Errorf [Sentinel ErrUnexpectedReplicationMessage])))"

text \<open>What \<open>ReceiveMessage\<close> returned, with the outcome of a status sent in reply.\<close>

datatype arrival =
    CtxDone goerror
  | TimedOut "goerror option"
  | ReceiveFailed goerror
  | CopyData string reads "goerror option"
  | ErrorResponse string string
  | CopyDone
  | OtherBackend

fun receive_one ::
    "parsers \<Rightarrow> readerConfig \<Rightarrow> 'h sink \<Rightarrow> arrival \<Rightarrow> 'h conn \<Rightarrow> 'h conn \<times> goerror option" where
  "receive_one P c sink (CtxDone err) s = (s, Some err)"
| "receive_one P c sink (TimedOut outcome) s =
     (case acknowledge outcome s of
        (s1, Some err) \<Rightarrow> (s1, Some (classifyPostgresError err))
      | (s1, None) \<Rightarrow> (s1, None))"
| "receive_one P c sink (ReceiveFailed err) s = (s, Some err)"
| "receive_one P c sink (CopyData data regs outcome) s = consumeCopyData P c sink regs outcome data s"
| "receive_one P c sink (ErrorResponse code message) s = (s, Some (classifyErrorResponse code message))"
| "receive_one P c sink CopyDone s = (s, Some (retryableError (Sentinel ErrReplicationEnded) []))"
| "receive_one P c sink OtherBackend s = (s, Some (Errorf [Sentinel ErrUnexpectedReplicationMessage]))"

text \<open>The loop of \<open>receive\<close>. It only returns with an error; \<open>None\<close> says it still waits for more.\<close>

fun receive_from ::
    "parsers \<Rightarrow> readerConfig \<Rightarrow> 'h sink \<Rightarrow> arrival list \<Rightarrow> 'h conn \<Rightarrow> 'h conn \<times> goerror option" where
  "receive_from P c sink [] s = (s, None)"
| "receive_from P c sink (a # as) s =
     (case receive_one P c sink a s of
        (s1, Some err) \<Rightarrow> (s1, Some err)
      | (s1, None) \<Rightarrow> receive_from P c sink as s1)"

definition start_conn :: "readerConfig \<Rightarrow> lsn \<Rightarrow> reader \<Rightarrow> 'h \<Rightarrow> 'h conn" where
  "start_conn c initialLSN r h =
     \<lparr>conn_reader = r\<lparr>m_pendingMessages := 0, m_pendingBytes := 0\<rparr>, conn_decoder = newDecoder c,
      conn_safe = initialLSN, conn_sink = h, conn_sent = [], conn_accepted = []\<rparr>"

definition receive ::
    "parsers \<Rightarrow> readerConfig \<Rightarrow> 'h sink \<Rightarrow> lsn \<Rightarrow> arrival list \<Rightarrow> reader \<Rightarrow> 'h \<Rightarrow> 'h conn \<times> goerror option" where
  "receive P c sink initialLSN arrivals r h = receive_from P c sink arrivals (start_conn c initialLSN r h)"

section \<open>Connecting, and connecting again\<close>

definition takeBootstrapStream :: "reader \<Rightarrow> reader \<times> lsn option" where
  "takeBootstrapStream r = (r\<lparr>bootstrap_stream := None\<rparr>, bootstrap_stream r)"

definition startReplication :: "goerror option \<Rightarrow> goerror option" where
  "startReplication outcome = map_option classifyPostgresError outcome"

text \<open>\<open>connectReplication\<close> (\<open>internal/cdc/connections.go\<close>): \<open>outcome\<close> is the error of \<open>connect\<close>, and \<open>ctx_err\<close> the
  error of the caller's context, if any.\<close>

definition connectReplication :: "goerror option \<Rightarrow> goerror option \<Rightarrow> goerror option" where
  "connectReplication ctx_err outcome =
     (case outcome of
        None \<Rightarrow> None
      | Some err \<Rightarrow> (case ctx_err of Some e \<Rightarrow> Some e | None \<Rightarrow> Some (classifyConnectionError err)))"

text \<open>What one turn of \<open>Run\<close>'s loop meets: the errors \<open>connectReplication\<close> meets, the management connection
  \<open>requireSlot\<close> opens, the error of \<open>START_REPLICATION\<close> and the arrivals; then, after \<open>read\<close>, whether the
  caller's context is done and the cause of the stream's context; the same after the wait, with the
  wait's error; and the connection \<open>dropSlotForBudget\<close> opens.\<close>

record turn =
  tn_connect_ctx :: "goerror option"
  tn_connect :: "goerror option"
  tn_slot :: "goerror + catalog"
  tn_start :: "goerror option"
  tn_arrivals :: "arrival list"
  tn_ctx :: bool
  tn_cause :: "goerror option"
  tn_wait :: "goerror option"
  tn_wait_ctx :: bool
  tn_wait_cause :: "goerror option"
  tn_drop :: "goerror + nat \<times> (nat \<Rightarrow> goerror option \<times> nat)"

text \<open>The tail of \<open>read\<close>, once its connection streams.\<close>

definition read_stream ::
    "parsers \<Rightarrow> readerConfig \<Rightarrow> 'h sink \<Rightarrow> turn \<Rightarrow> lsn \<Rightarrow> reader \<Rightarrow> 'h \<Rightarrow> reader \<times> 'h \<times> goerror option" where
  "read_stream P c sink tn startLSN r h =
     (case receive P c sink startLSN (tn_arrivals tn) (setConnectionState stateStreaming r) h of
        (s, err) \<Rightarrow> (conn_reader s, conn_sink s, err))"

text \<open>\<open>read\<close>; the last component is the error it returned, or \<open>None\<close> while it still streams: it never
  returns nil, so \<open>Run\<close>'s case for that is not reached.\<close>

definition read ::
    "(string \<Rightarrow> lsn option) \<Rightarrow> parsers \<Rightarrow> readerConfig \<Rightarrow> 'h sink \<Rightarrow> turn \<Rightarrow> reader \<Rightarrow> 'h
      \<Rightarrow> reader \<times> 'h \<times> goerror option" where
  "read ParseLSN P c sink tn r h =
     (case takeBootstrapStream r of
        (r1, Some startLSN) \<Rightarrow> read_stream P c sink tn startLSN r1 h
      | (r1, None) \<Rightarrow>
          (case connectReplication (tn_connect_ctx tn) (tn_connect tn) of
             Some err \<Rightarrow> (r1, h, Some err)
           | None \<Rightarrow>
               (case requireSlot ParseLSN c (tn_slot tn) of
                  Inl err \<Rightarrow> (r1, h, Some err)
                | Inr startLSN \<Rightarrow>
                    (case startReplication (tn_start tn) of
                       Some err \<Rightarrow> (r1, h, Some err)
                     | None \<Rightarrow> read_stream P c sink tn startLSN r1 h))))"

text \<open>How \<open>Run\<close> ends: it still streams, it returned, or it returned from \<open>budgetExceeded\<close>, whose error
  wraps the cause and says whether the slot was dropped.\<close>

datatype run_result = Streaming | Returned "goerror option" | BudgetExceeded goerror bool

definition budgetExceeded ::
    "goerror \<Rightarrow> goerror + nat \<times> (nat \<Rightarrow> goerror option \<times> nat) \<Rightarrow> reader \<Rightarrow> reader \<times> run_result" where
  "budgetExceeded cause management r =
     (setConnectionState stateFailed r,
      case snd (dropSlotForBudget management) of
        Some err \<Rightarrow> BudgetExceeded (Errorf [cause]) False
      | None \<Rightarrow> BudgetExceeded (Errorf [cause]) True)"

text \<open>The loop of \<open>Run\<close>: \<open>turns k\<close> is its \<open>k\<close>-th turn. The result carries the number of turns made.\<close>

function run_loop ::
    "(string \<Rightarrow> lsn option) \<Rightarrow> parsers \<Rightarrow> readerConfig \<Rightarrow> 'h sink \<Rightarrow> (nat \<Rightarrow> turn) \<Rightarrow> nat \<Rightarrow> int \<Rightarrow> reader \<Rightarrow> 'h
      \<Rightarrow> reader \<times> 'h \<times> nat \<times> run_result" where
  "run_loop ParseLSN P c sink turns k attempts r h =
     (case read ParseLSN P c sink (turns k) (setConnectionState stateConnecting r) h of
        (r1, h1, None) \<Rightarrow> (r1, h1, Suc k, Streaming)
      | (r1, h1, Some err) \<Rightarrow>
          if tn_ctx (turns k) then (setConnectionState stateStopped r1, h1, Suc k, Returned None)
          else case tn_cause (turns k) of
            Some cause \<Rightarrow>
              (case budgetExceeded cause (tn_drop (turns k)) r1 of (r2, result) \<Rightarrow> (r2, h1, Suc k, result))
          | None \<Rightarrow>
              if \<not> isRetryable err then (setConnectionState stateFailed r1, h1, Suc k, Returned (Some err))
              else if attempts \<ge> MaxAttempts (RetryPolicy c)
              then (setConnectionState stateFailed r1, h1, Suc k, Returned (Some (Errorf [Sentinel ErrRetryExhausted])))
              else let r2 = setConnectionState stateBackingOff (incrementReconnects r1) in
                case tn_wait (turns k) of
                  None \<Rightarrow> run_loop ParseLSN P c sink turns (Suc k) (attempts + 1) r2 h1
                | Some werr \<Rightarrow>
                    if tn_wait_ctx (turns k) then (setConnectionState stateStopped r2, h1, Suc k, Returned None)
                    else case tn_wait_cause (turns k) of
                      Some cause \<Rightarrow>
                        (case budgetExceeded cause (tn_drop (turns k)) r2 of (r3, result) \<Rightarrow> (r3, h1, Suc k, result))
                    | None \<Rightarrow> (setConnectionState stateFailed r2, h1, Suc k, Returned (Some werr)))"
  by pat_completeness auto
termination
  by (relation "measure (\<lambda>(_, _, c, _, _, _, attempts, _, _). nat (MaxAttempts (RetryPolicy c) - attempts))") auto

declare run_loop.simps [simp del]

definition Run ::
    "(string \<Rightarrow> lsn option) \<Rightarrow> parsers \<Rightarrow> readerConfig \<Rightarrow> 'h sink \<Rightarrow> (nat \<Rightarrow> turn) \<Rightarrow> reader \<Rightarrow> 'h
      \<Rightarrow> reader \<times> 'h \<times> nat \<times> run_result" where
  "Run ParseLSN P c sink turns r h = run_loop ParseLSN P c sink turns 0 0 r h"

text \<open>\<open>retryDelay\<close>; \<open>random\<close> is the value drawn. \<open>time.Duration(x)\<close>
  truncates, which is the floor here: the product is never negative.\<close>

definition retryDelay :: "readerConfig \<Rightarrow> rat \<Rightarrow> nat \<Rightarrow> int" where
  "retryDelay c random attempt =
     (let p = RetryPolicy c;
          base = min (float64 (float64 (of_int (InitialBackoff p)) * 2 ^ (attempt - 1))) (float64 (of_int (MaxBackoff p)));
          jitter = float64 (1 + float64 (float64 (float64 (random * 2) - 1) * Jitter p))
      in \<lfloor>float64 (base * jitter)\<rfloor>)"

end
