(* ===== verification/Stream_Correct.thy ===== *)
theory Stream_Correct
  imports Stream Decoder_Correct
begin

text \<open>
  On one connection the streaming loop never acknowledges what the sink has not accepted.

  The acknowledgement theorem relies on what PostgreSQL's walsender documents (\<open>walsender\<close> below):
  commits arrive in order of their end LSN, and a keepalive sent between transactions carries a position
  that every transaction still to come ends after.
\<close>

section \<open>The decoder's open transaction\<close>

lemma consume_row_InTransaction:
  assumes "consume_row regs d i dec = (d', Inr t)"
  shows "t = None \<and> InTransaction d' = InTransaction d"
proof -
  obtain d1 s where sk: "skip regs d i = (d1, s)" by (cases "skip regs d i")
  note frame = same_but_verdicts_simps [OF skip_frame(1) [OF sk]]
  show ?thesis
  proof (cases s)
    case (Inr b)
    then show ?thesis
      using assms sk frame
      by (cases b) (auto simp: consume_row_def append_change_def rbind_Inr_iff InTransaction_def
          split: sum.splits if_splits option.splits)
  qed (use assms sk in \<open>simp add: consume_row_def\<close>)
qed

lemma Consume_InTransaction:
  assumes "Consume regs d m = (d', Inr t)"
  shows "InTransaction d' = (case m of BeginMessage _ _ \<Rightarrow> True | CommitMessage _ _ \<Rightarrow> False | _ \<Rightarrow> InTransaction d)"
    and "(case t of None \<Rightarrow> \<forall>a e. m \<noteq> CommitMessage a e
          | Some x \<Rightarrow> \<exists>a. m = CommitMessage a (cur_lsn (Cursor_of x)))"
proof -
  have "InTransaction d' = (case m of BeginMessage _ _ \<Rightarrow> True | CommitMessage _ _ \<Rightarrow> False | _ \<Rightarrow> InTransaction d) \<and>
    (case t of None \<Rightarrow> \<forall>a e. m \<noteq> CommitMessage a e
          | Some x \<Rightarrow> \<exists>a. m = CommitMessage a (cur_lsn (Cursor_of x)))"
    using assms
  proof (cases m)
    case (RelationMessage rm)
    then show ?thesis
      using assms same_but_verdicts_simps [OF check_relation_frame [of d regs "rm_relationID rm" "newRelationInfo rm"]]
      by (auto simp: InTransaction_def)
  qed (auto simp: InTransaction_def [of "d\<lparr>pending := None\<rparr>"] InTransaction_def commit_transaction_def
      dest!: consume_row_InTransaction split: if_splits option.splits)
  then show "InTransaction d' = (case m of BeginMessage _ _ \<Rightarrow> True | CommitMessage _ _ \<Rightarrow> False | _ \<Rightarrow> InTransaction d)"
    "(case t of None \<Rightarrow> \<forall>a e. m \<noteq> CommitMessage a e
          | Some x \<Rightarrow> \<exists>a. m = CommitMessage a (cur_lsn (Cursor_of x)))" by simp_all
qed

section \<open>What the walsender promises\<close>

definition arrival_message :: "parsers \<Rightarrow> arrival \<Rightarrow> message option" where
  "arrival_message P a =
     (case a of
        CopyData (b # payload) regs outcome \<Rightarrow>
          if b = CHR ''w'' then
            (case ParseXLogData P payload of
               None \<Rightarrow> None | Some (walStart, walEnd, walData) \<Rightarrow> ParsePgoutput P walData)
          else None
      | _ \<Rightarrow> None)"

definition arrival_keepalive :: "parsers \<Rightarrow> arrival \<Rightarrow> lsn option" where
  "arrival_keepalive P a =
     (case a of
        CopyData (b # payload) regs outcome \<Rightarrow>
          if b = CHR ''k'' then map_option fst (ParseKeepalive P payload) else None
      | _ \<Rightarrow> None)"

text \<open>\<open>walsender P open_tx fl as\<close>: in the arrivals \<open>as\<close>, read with a transaction open or not, every commit
  ends after \<open>fl\<close>, after every commit before it, and after the position of every keepalive that arrived
  before it between transactions.\<close>

fun walsender :: "parsers \<Rightarrow> bool \<Rightarrow> lsn \<Rightarrow> arrival list \<Rightarrow> bool" where
  "walsender P open_tx fl [] = True"
| "walsender P open_tx fl (a # as) =
     (case arrival_message P a of
        Some (BeginMessage x t) \<Rightarrow> walsender P True fl as
      | Some (CommitMessage c e) \<Rightarrow> fl < e \<and> walsender P False e as
      | Some m \<Rightarrow> walsender P open_tx fl as
      | None \<Rightarrow>
          (case arrival_keepalive P a of
             Some p \<Rightarrow> walsender P open_tx (if open_tx then fl else max fl p) as
           | None \<Rightarrow> walsender P open_tx fl as))"

fun commit_end :: "message option \<Rightarrow> lsn list" where
  "commit_end (Some (CommitMessage c e)) = [e]"
| "commit_end _ = []"

definition commit_ends :: "parsers \<Rightarrow> arrival list \<Rightarrow> lsn list" where
  "commit_ends P as = concat (map (\<lambda>a. commit_end (arrival_message P a)) as)"

lemma commit_ends_simps [simp]:
  "commit_ends P [] = []"
  "commit_ends P (a # as) = commit_end (arrival_message P a) @ commit_ends P as"
  by (simp_all add: commit_ends_def)

text \<open>What is known after an arrival: whether a transaction is open, and the bound on later commits.\<close>

definition open_after :: "parsers \<Rightarrow> arrival \<Rightarrow> bool \<Rightarrow> bool" where
  "open_after P a b =
     (case arrival_message P a of
        Some (BeginMessage x t) \<Rightarrow> True | Some (CommitMessage c e) \<Rightarrow> False | _ \<Rightarrow> b)"

definition floor_after :: "parsers \<Rightarrow> arrival \<Rightarrow> bool \<Rightarrow> lsn \<Rightarrow> lsn" where
  "floor_after P a b fl =
     (case arrival_message P a of
        Some (CommitMessage c e) \<Rightarrow> e
      | Some m \<Rightarrow> fl
      | None \<Rightarrow> (case arrival_keepalive P a of Some p \<Rightarrow> if b then fl else max fl p | None \<Rightarrow> fl))"

lemma walsender_Cons:
  "walsender P b fl (a # as) \<longleftrightarrow>
     (\<forall>e \<in> set (commit_end (arrival_message P a)). fl < e) \<and>
     walsender P (open_after P a b) (floor_after P a b fl) as"
  by (cases "arrival_message P a"; cases "the (arrival_message P a)")
    (auto simp: open_after_def floor_after_def split: option.splits)

declare walsender.simps(2) [simp del]

lemma floor_after_le:
  "(\<forall>e \<in> set (commit_end (arrival_message P a)). fl < e) \<Longrightarrow> fl \<le> floor_after P a b fl"
  by (cases "arrival_message P a"; cases "the (arrival_message P a)")
    (auto simp: floor_after_def split: option.splits)

lemma walsender_commits: "walsender P b fl as \<Longrightarrow> e \<in> set (commit_ends P as) \<Longrightarrow> fl < e"
proof (induction as arbitrary: b fl)
  case (Cons a as)
  from Cons.prems(1) have now: "\<forall>e \<in> set (commit_end (arrival_message P a)). fl < e"
    and later: "walsender P (open_after P a b) (floor_after P a b fl) as" by (simp_all add: walsender_Cons)
  from Cons.prems(2) consider "e \<in> set (commit_end (arrival_message P a))" | "e \<in> set (commit_ends P as)" by auto
  then show ?case
  proof cases
    case 2
    with Cons.IH [OF later] floor_after_le [OF now, of b] show ?thesis by (meson le_less_trans)
  qed (use now in blast)
qed simp

section \<open>One arrival\<close>

text \<open>What handling one arrival does to the safe LSN, the statuses sent, the sink and the transactions
  accepted.\<close>

definition quiet_step :: "parsers \<Rightarrow> arrival \<Rightarrow> 'h conn \<Rightarrow> 'h conn \<Rightarrow> bool" where
  "quiet_step P a s s1 \<longleftrightarrow>
     conn_accepted s1 = conn_accepted s \<and> conn_sink s1 = conn_sink s \<and>
     conn_sent s1 \<in> {conn_sent s, conn_sent s @ [conn_safe s1]} \<and>
     (conn_safe s1 = conn_safe s \<or>
      (\<exists>p. arrival_message P a = None \<and> arrival_keepalive P a = Some p \<and>
         \<not> InTransaction (conn_decoder s) \<and> conn_safe s < p \<and> conn_safe s1 = p))"

definition accepting_step :: "parsers \<Rightarrow> 'h sink \<Rightarrow> arrival \<Rightarrow> 'h conn \<Rightarrow> 'h conn \<Rightarrow> bool" where
  "accepting_step P sink a s s1 \<longleftrightarrow>
     (\<exists>c e t. arrival_message P a = Some (CommitMessage c e) \<and> cur_lsn (Cursor_of t) = e \<and>
        conn_accepted s1 = conn_accepted s @ [t] \<and> sink (conn_sink s) t = Inr (conn_sink s1) \<and>
        conn_safe s1 = e \<and> conn_sent s1 = conn_sent s @ [e])"

lemma on_reader_simps [simp]:
  "conn_decoder (on_reader f s) = conn_decoder s" "conn_safe (on_reader f s) = conn_safe s"
  "conn_sink (on_reader f s) = conn_sink s" "conn_sent (on_reader f s) = conn_sent s"
  "conn_accepted (on_reader f s) = conn_accepted s"
  by (simp_all add: on_reader_def)

lemma acknowledge_simps:
  assumes "acknowledge outcome s = (s1, err)"
  shows "conn_decoder s1 = conn_decoder s" "conn_safe s1 = conn_safe s" "conn_sink s1 = conn_sink s"
    "conn_sent s1 = conn_sent s @ [conn_safe s]" "conn_accepted s1 = conn_accepted s"
  using assms by (auto simp: acknowledge_def Let_def split: option.splits)

lemma deliver_commit_step:
  assumes "deliver_commit c sink outcome t e s = (s1, err)"
  shows "conn_decoder s1 = conn_decoder s \<and>
    (err \<noteq> None \<and> conn_accepted s1 = conn_accepted s \<and> conn_sink s1 = conn_sink s \<and>
       conn_sent s1 = conn_sent s \<and> conn_safe s1 = conn_safe s \<or>
     (\<exists>t1. cur_lsn (Cursor_of t1) = cur_lsn (Cursor_of t) \<and> conn_accepted s1 = conn_accepted s @ [t1] \<and>
        sink (conn_sink s) t1 = Inr (conn_sink s1) \<and> conn_safe s1 = e \<and> conn_sent s1 = conn_sent s @ [e]))"
proof -
  define s0 where "s0 = on_reader (flush_tallies \<circ> reportIncompatible (Incompatible t) \<circ> incrementTransactionsReceived) s"
  define t1 where "t1 = t\<lparr>Cursor_of := (Cursor_of t)\<lparr>cur_source := rd_SourceID c\<rparr>\<rparr>"
  show ?thesis
  proof (cases "sink (conn_sink s0) t1")
    case (Inl x)
    then have "s1 = s0" "err \<noteq> None"
      using assms by (auto simp: deliver_commit_def Let_def s0_def [symmetric] t1_def [symmetric])
    then show ?thesis by (simp add: s0_def)
  next
    case (Inr h)
    define s2 where "s2 = s0\<lparr>conn_sink := h, conn_accepted := conn_accepted s0 @ [t1], conn_safe := e\<rparr>"
    obtain s3 err3 where ack: "acknowledge outcome s2 = (s3, err3)" by (cases "acknowledge outcome s2")
    have "conn_decoder s1 = conn_decoder s3 \<and> conn_accepted s1 = conn_accepted s3 \<and> conn_sink s1 = conn_sink s3 \<and>
        conn_safe s1 = conn_safe s3 \<and> conn_sent s1 = conn_sent s3"
      using assms Inr ack
      by (auto simp: deliver_commit_def Let_def s0_def [symmetric] t1_def [symmetric] s2_def [symmetric] split: option.splits)
    moreover have "cur_lsn (Cursor_of t1) = cur_lsn (Cursor_of t)" by (simp add: t1_def)
    ultimately show ?thesis
      using Inr acknowledge_simps [OF ack] by (auto simp: s2_def s0_def)
  qed
qed

lemma consume_message_step:
  assumes "consume_message c sink regs outcome m s = (s1, err)" "arrival_message P a = Some m"
  shows "(quiet_step P a s s1 \<and> (err = None \<longrightarrow> (\<forall>c e. m \<noteq> CommitMessage c e)) \<or> accepting_step P sink a s s1) \<and>
    (err = None \<longrightarrow> InTransaction (conn_decoder s1) = open_after P a (InTransaction (conn_decoder s)))"
proof -
  obtain d r where consume: "Consume (Some regs) (conn_decoder s) m = (d, r)"
    by (cases "Consume (Some regs) (conn_decoder s) m")
  show ?thesis
  proof (cases r)
    case (Inl e)
    then show ?thesis
      using assms(1) consume by (auto simp: consume_message_def Let_def quiet_step_def)
  next
    case (Inr t)
    note tx = Consume_InTransaction [OF consume [unfolded Inr]]
    have opens: "InTransaction d = open_after P a (InTransaction (conn_decoder s))"
      using tx(1) assms(2) by (simp add: open_after_def split: message.splits)
    show ?thesis
    proof (cases t)
      case None
      then show ?thesis
        using assms(1) consume Inr tx(2) opens
        by (auto simp: consume_message_def Let_def quiet_step_def)
    next
      case (Some x)
      with tx(2) obtain c' where m: "m = CommitMessage c' (cur_lsn (Cursor_of x))" by auto
      show ?thesis
      proof (cases "cur_lsn (Cursor_of x) = 0")
        case True
        then show ?thesis
          using assms(1) consume Inr Some m by (auto simp: consume_message_def Let_def quiet_step_def)
      next
        case False
        define s0 where "s0 = on_reader (setInFlight (Pending d)) (s\<lparr>conn_decoder := d\<rparr>)"
        have "deliver_commit c sink outcome x (cur_lsn (Cursor_of x)) s0 = (s1, err)"
          using assms(1) consume Inr Some m False by (simp add: consume_message_def Let_def s0_def)
        from deliver_commit_step [OF this] show ?thesis
          using assms(2) m opens by (auto simp: s0_def quiet_step_def accepting_step_def)
      qed
    qed
  qed
qed

lemma consume_xlog_step:
  assumes "consume_xlog P c sink regs outcome payload s = (s1, err)"
    and "arrival_message P a = (case ParseXLogData P payload of
      None \<Rightarrow> None | Some (walStart, walEnd, walData) \<Rightarrow> ParsePgoutput P walData)"
  shows "(quiet_step P a s s1 \<and> (err = None \<longrightarrow> commit_end (arrival_message P a) = []) \<or> accepting_step P sink a s s1) \<and>
    (err = None \<longrightarrow> InTransaction (conn_decoder s1) = open_after P a (InTransaction (conn_decoder s)))"
proof (cases "\<exists>walStart walEnd walData m. ParseXLogData P payload = Some (walStart, walEnd, walData) \<and>
    walData \<noteq> [] \<and> int (length walData) \<le> MaxTransactionBytes c \<and> ParsePgoutput P walData = Some m")
  case True
  then obtain walStart walEnd walData m where x: "ParseXLogData P payload = Some (walStart, walEnd, walData)"
    "walData \<noteq> []" "int (length walData) \<le> MaxTransactionBytes c" "ParsePgoutput P walData = Some m" by blast
  define s0 where "s0 = on_reader (tally (length walData)) (on_reader (observeServerWALEnd walEnd \<circ> setLastReceivedLSN walStart) s)"
  have "consume_message c sink regs outcome m s0 = (s1, err)"
    using assms(1) x by (simp add: consume_xlog_def Let_def s0_def)
  moreover have m: "arrival_message P a = Some m" using assms(2) x by simp
  ultimately have step: "(quiet_step P a s0 s1 \<and> (err = None \<longrightarrow> (\<forall>c e. m \<noteq> CommitMessage c e)) \<or> accepting_step P sink a s0 s1) \<and>
      (err = None \<longrightarrow> InTransaction (conn_decoder s1) = open_after P a (InTransaction (conn_decoder s0)))"
    by (rule consume_message_step)
  have same: "quiet_step P a s0 s1 = quiet_step P a s s1" "accepting_step P sink a s0 s1 = accepting_step P sink a s s1"
    "conn_decoder s0 = conn_decoder s"
    by (simp_all add: s0_def quiet_step_def accepting_step_def)
  have "(\<forall>c e. m \<noteq> CommitMessage c e) \<Longrightarrow> commit_end (arrival_message P a) = []"
    using m by (cases m) auto
  with step same show ?thesis by auto
next
  case False
  then have "quiet_step P a s s1 \<and> err \<noteq> None"
    using assms(1) by (auto simp: consume_xlog_def Let_def quiet_step_def split: option.splits prod.splits if_splits)
  then show ?thesis by auto
qed

lemma consume_keepalive_step:
  assumes "consume_keepalive P outcome payload s = (s1, err)"
    and "arrival_message P a = None" "arrival_keepalive P a = map_option fst (ParseKeepalive P payload)"
  shows "(quiet_step P a s s1 \<and> (err = None \<longrightarrow> commit_end (arrival_message P a) = []) \<or> accepting_step P sink a s s1) \<and>
    (err = None \<longrightarrow> InTransaction (conn_decoder s1) = open_after P a (InTransaction (conn_decoder s)))"
proof (cases "ParseKeepalive P payload")
  case None
  then show ?thesis
    using assms by (auto simp: consume_keepalive_def quiet_step_def)
next
  case (Some w)
  obtain p reply where w: "w = (p, reply)" by (cases w)
  define s0 where "s0 = (if \<not> InTransaction (conn_decoder s) \<and> p > conn_safe s
     then (on_reader (observeServerWALEnd p) s)\<lparr>conn_safe := p\<rparr> else on_reader (observeServerWALEnd p) s)"
  have s0: "conn_decoder s0 = conn_decoder s" "conn_accepted s0 = conn_accepted s" "conn_sink s0 = conn_sink s"
    "conn_sent s0 = conn_sent s"
    "conn_safe s0 = (if \<not> InTransaction (conn_decoder s) \<and> p > conn_safe s then p else conn_safe s)"
    by (simp_all add: s0_def)
  obtain s' e' where ack: "acknowledge outcome s0 = (s', e')" by (cases "acknowledge outcome s0")
  have "s1 = (if reply then s' else s0)"
    using assms(1) Some w ack by (auto simp: consume_keepalive_def Let_def s0_def split: option.splits)
  with s0 acknowledge_simps [OF ack] assms(2,3) Some w show ?thesis
    by (auto simp: quiet_step_def open_after_def)
qed

lemma receive_one_step:
  assumes "receive_one P c sink a s = (s1, err)"
  shows "(quiet_step P a s s1 \<and> (err = None \<longrightarrow> commit_end (arrival_message P a) = []) \<or> accepting_step P sink a s s1) \<and>
    (err = None \<longrightarrow> InTransaction (conn_decoder s1) = open_after P a (InTransaction (conn_decoder s)))"
proof (cases a)
  case (TimedOut outcome)
  then have m: "arrival_message P a = None" "arrival_keepalive P a = None"
    by (simp_all add: arrival_message_def arrival_keepalive_def)
  obtain s' e' where ack: "acknowledge outcome s = (s', e')" by (cases "acknowledge outcome s")
  then have "s1 = s'" using assms TimedOut by (auto split: option.splits)
  with acknowledge_simps [OF ack] m show ?thesis by (simp add: quiet_step_def open_after_def)
next
  case (CopyData data regs outcome)
  show ?thesis
  proof (cases data)
    case Nil
    then show ?thesis using assms CopyData by (auto simp: consumeCopyData_def quiet_step_def)
  next
    case (Cons b payload)
    consider "b = CHR ''w''" | "b = CHR ''k''" | "b \<noteq> CHR ''w''" "b \<noteq> CHR ''k''" by blast
    then show ?thesis
    proof cases
      case 1
      then have "consume_xlog P c sink regs outcome payload s = (s1, err)"
        using assms CopyData Cons by (simp add: consumeCopyData_def)
      moreover have "arrival_message P a = (case ParseXLogData P payload of
          None \<Rightarrow> None | Some (walStart, walEnd, walData) \<Rightarrow> ParsePgoutput P walData)"
        using 1 CopyData Cons by (simp add: arrival_message_def)
      ultimately show ?thesis by (rule consume_xlog_step)
    next
      case 2
      then have "consume_keepalive P outcome payload s = (s1, err)"
        using assms CopyData Cons by (simp add: consumeCopyData_def)
      moreover have "arrival_message P a = None" "arrival_keepalive P a = map_option fst (ParseKeepalive P payload)"
        using 2 CopyData Cons by (simp_all add: arrival_message_def arrival_keepalive_def)
      ultimately show ?thesis by (rule consume_keepalive_step)
    next
      case 3
      then show ?thesis using assms CopyData Cons by (auto simp: consumeCopyData_def quiet_step_def)
    qed
  qed
qed (use assms in \<open>auto simp: quiet_step_def\<close>)

section \<open>Acknowledgements\<close>

text \<open>The bound \<open>fl\<close> on later commits covers the safe LSN, which covers every status sent.\<close>

definition acks_ok :: "lsn \<Rightarrow> 'h conn \<Rightarrow> bool" where
  "acks_ok fl s \<longleftrightarrow> conn_safe s \<le> fl \<and> sorted (conn_sent s) \<and> (\<forall>a \<in> set (conn_sent s). a \<le> conn_safe s)"

lemma quiet_step_acks:
  assumes "quiet_step P a s s1" "acks_ok fl s" "commit_end (arrival_message P a) = [] \<or> conn_safe s1 = conn_safe s"
  shows "conn_safe s1 = conn_safe s \<Longrightarrow> acks_ok fl s1"
    and "commit_end (arrival_message P a) = [] \<Longrightarrow> acks_ok (floor_after P a (InTransaction (conn_decoder s)) fl) s1"
proof -
  have grow: "conn_safe s \<le> conn_safe s1" and sent: "conn_sent s1 \<in> {conn_sent s, conn_sent s @ [conn_safe s1]}"
    using assms(1) by (auto simp: quiet_step_def)
  have all: "sorted (conn_sent s1) \<and> (\<forall>a \<in> set (conn_sent s1). a \<le> conn_safe s1)"
    using sent assms(2) grow by (fastforce simp: acks_ok_def sorted_append)
  then show "conn_safe s1 = conn_safe s \<Longrightarrow> acks_ok fl s1"
    using assms(2) by (simp add: acks_ok_def)
  assume none: "commit_end (arrival_message P a) = []"
  have "conn_safe s1 \<le> floor_after P a (InTransaction (conn_decoder s)) fl"
  proof (cases "conn_safe s1 = conn_safe s")
    case True
    with assms(2) have "conn_safe s1 \<le> fl" by (simp add: acks_ok_def)
    also have "\<dots> \<le> floor_after P a (InTransaction (conn_decoder s)) fl"
      using none by (intro floor_after_le) simp
    finally show ?thesis .
  next
    case False
    then show ?thesis using assms(1) by (auto simp: quiet_step_def floor_after_def)
  qed
  with all show "acks_ok (floor_after P a (InTransaction (conn_decoder s)) fl) s1"
    by (simp add: acks_ok_def)
qed

definition end_of :: "transaction \<Rightarrow> lsn" where
  "end_of t = cur_lsn (Cursor_of t)"

text \<open>The accepted transactions \<open>ts\<close> are the first of the commits \<open>ends\<close>, the sink went from \<open>h\<close> to \<open>h'\<close> by
  accepting them in order, and no status sent covers a commit that is not among them.\<close>

definition acked_only_accepted ::
    "'h sink \<Rightarrow> lsn list \<Rightarrow> 'h \<Rightarrow> transaction list \<Rightarrow> 'h \<Rightarrow> lsn list \<Rightarrow> bool" where
  "acked_only_accepted sink ends h ts h' sent \<longleftrightarrow>
     map end_of ts = take (length ts) ends \<and> rfold sink h ts = Inr h' \<and> sorted sent \<and>
     (\<forall>a \<in> set sent. \<forall>e \<in> set (drop (length ts) ends). a < e)"

lemma acks_below_commits:
  assumes "acks_ok fl s" "walsender P b fl as" "a \<in> set (conn_sent s)" "e \<in> set (commit_ends P as)"
  shows "a < e"
  using assms walsender_commits [OF assms(2,4)] by (force simp: acks_ok_def)

lemma acked_quiet:
  assumes "acks_ok fl s" "conn_sink s = h" "walsender P b fl as"
  shows "acked_only_accepted sink (commit_ends P as) h [] (conn_sink s) (conn_sent s)"
  using acks_below_commits [OF assms(1,3)] assms(1,2) by (simp add: acked_only_accepted_def acks_ok_def)

lemma acked_append:
  assumes "acked_only_accepted sink (commit_ends P rest) h1 ts' h' sent" "rfold sink h ts = Inr h1"
    and "commit_ends P as = map end_of ts @ commit_ends P rest"
  shows "acked_only_accepted sink (commit_ends P as) h (ts @ ts') h' sent"
  using assms by (simp add: acked_only_accepted_def rfold_append)

text \<open>One arrival: \<open>ts\<close> is what the sink accepted, \<open>rest\<close> what is still to be accepted.\<close>

definition step_acks ::
    "parsers \<Rightarrow> 'h sink \<Rightarrow> arrival list \<Rightarrow> 'h conn \<Rightarrow> 'h conn \<Rightarrow> transaction list \<Rightarrow> arrival list \<Rightarrow> bool \<Rightarrow> lsn \<Rightarrow> bool" where
  "step_acks P sink as s s1 ts rest b fl \<longleftrightarrow>
     conn_accepted s1 = conn_accepted s @ ts \<and> rfold sink (conn_sink s) ts = Inr (conn_sink s1) \<and>
     acks_ok fl s1 \<and> walsender P b fl rest \<and> commit_ends P as = map end_of ts @ commit_ends P rest"

lemma quiet_step_rest:
  assumes "quiet_step P a s s1" "acks_ok fl s" "walsender P (InTransaction (conn_decoder s)) fl (a # as)"
  shows "if commit_end (arrival_message P a) = []
    then step_acks P sink (a # as) s s1 [] as (open_after P a (InTransaction (conn_decoder s)))
      (floor_after P a (InTransaction (conn_decoder s)) fl)
    else step_acks P sink (a # as) s s1 [] (a # as) (InTransaction (conn_decoder s)) fl"
proof -
  have "commit_end (arrival_message P a) = [] \<or> conn_safe s1 = conn_safe s"
    using assms(1) by (auto simp: quiet_step_def)
  note acks = quiet_step_acks [OF assms(1,2) this]
  have "conn_accepted s1 = conn_accepted s" "conn_sink s1 = conn_sink s" using assms(1) by (simp_all add: quiet_step_def)
  moreover have "commit_end (arrival_message P a) \<noteq> [] \<Longrightarrow> conn_safe s1 = conn_safe s"
    using assms(1) by (auto simp: quiet_step_def)
  ultimately show ?thesis
    using acks assms(3) by (auto simp: step_acks_def walsender_Cons)
qed

lemma accepting_step_rest:
  assumes "accepting_step P sink a s s1" "acks_ok fl s" "walsender P b fl (a # as)"
  shows "\<exists>t. step_acks P sink (a # as) s s1 [t] as (open_after P a b) (floor_after P a b fl)"
proof -
  obtain c' e t where acc: "arrival_message P a = Some (CommitMessage c' e)" "end_of t = e"
    "conn_accepted s1 = conn_accepted s @ [t]" "sink (conn_sink s) t = Inr (conn_sink s1)"
    "conn_safe s1 = e" "conn_sent s1 = conn_sent s @ [e]"
    using assms(1) by (auto simp: accepting_step_def end_of_def)
  have "floor_after P a b fl = e" "fl < e" using acc(1) assms(3) by (simp_all add: floor_after_def walsender_Cons)
  moreover from this have "acks_ok e s1"
    using assms(2) acc(5,6) by (fastforce simp: acks_ok_def sorted_append)
  ultimately have "step_acks P sink (a # as) s s1 [t] as (open_after P a b) (floor_after P a b fl)"
    using acc assms(3) by (simp add: step_acks_def walsender_Cons)
  then show ?thesis ..
qed

lemma receive_one_acks:
  assumes "receive_one P c sink a s = (s1, err)" "acks_ok fl s" "walsender P (InTransaction (conn_decoder s)) fl (a # as)"
  shows "\<exists>ts rest b fl1. step_acks P sink (a # as) s s1 ts rest b fl1 \<and>
    (err = None \<longrightarrow> rest = as \<and> b = InTransaction (conn_decoder s1))"
proof -
  note step = receive_one_step [OF assms(1)]
  then consider (quiet) "quiet_step P a s s1" "err = None \<longrightarrow> commit_end (arrival_message P a) = []"
    | (accepting) "accepting_step P sink a s s1" by blast
  then show ?thesis
  proof cases
    case quiet
    with quiet_step_rest [OF quiet(1) assms(2,3), of sink] step show ?thesis
      by (auto split: if_splits)
  next
    case accepting
    with accepting_step_rest [OF accepting assms(2,3)] step show ?thesis by auto
  qed
qed

lemma receive_from_acks:
  assumes "walsender P (InTransaction (conn_decoder s)) fl as" "acks_ok fl s"
    and "receive_from P c sink as s = (s', err)"
  shows "\<exists>ts. conn_accepted s' = conn_accepted s @ ts \<and>
    acked_only_accepted sink (commit_ends P as) (conn_sink s) ts (conn_sink s') (conn_sent s')"
  using assms
proof (induction as arbitrary: s fl)
  case Nil
  then show ?case using acked_quiet [OF Nil.prems(2) refl Nil.prems(1)] by simp
next
  case (Cons a as)
  obtain s1 e1 where one: "receive_one P c sink a s = (s1, e1)" by (cases "receive_one P c sink a s")
  obtain ts rest b fl1 where st: "conn_accepted s1 = conn_accepted s @ ts"
      "rfold sink (conn_sink s) ts = Inr (conn_sink s1)" "acks_ok fl1 s1" "walsender P b fl1 rest"
      "commit_ends P (a # as) = map end_of ts @ commit_ends P rest"
    and none: "e1 = None \<longrightarrow> rest = as \<and> b = InTransaction (conn_decoder s1)"
    using receive_one_acks [OF one Cons.prems(2,1)] unfolding step_acks_def by blast
  have "\<exists>ts'. conn_accepted s' = conn_accepted s1 @ ts' \<and>
      acked_only_accepted sink (commit_ends P rest) (conn_sink s1) ts' (conn_sink s') (conn_sent s')"
  proof (cases e1)
    case None
    with none st Cons.IH [of s1 fl1] Cons.prems(3) one show ?thesis by simp
  next
    case (Some x)
    with Cons.prems(3) one have "s' = s1" by simp
    with acked_quiet [OF st(3) refl st(4), of sink] show ?thesis by simp
  qed
  with acked_append [OF _ st(2,5)] st(1) show ?case by (metis append.assoc)
qed

lemma receive_acks:
  assumes "walsender P False start arrivals" "receive P c sink start arrivals r h = (s, err)"
  shows "acked_only_accepted sink (commit_ends P arrivals) h (conn_accepted s) (conn_sink s) (conn_sent s)"
proof -
  have "InTransaction (conn_decoder (start_conn c start r h)) = False" "acks_ok start (start_conn c start r h)"
    by (simp_all add: start_conn_def InTransaction_def newDecoder_def NewDecoderWithLimits_def acks_ok_def)
  with receive_from_acks [of P "start_conn c start r h" start arrivals c sink s err] assms
  show ?thesis by (simp add: receive_def start_conn_def)
qed

text \<open>C5: No transaction is acknowledged before the sink accepted it. On any connection whose walsender keeps
  its documented order, whatever mixture of transactions, keepalives, timeouts, failed status updates,
  sink errors, malformed data and disconnects arrives: the transactions the sink accepted are exactly the
  first commits of the stream, in order and without a gap, the sink's state is what accepting them one
  after the other gives, the positions sent to PostgreSQL never go back, and every one of them lies before
  the end of every commit that was not accepted - so the slot still holds it.\<close>

theorem ack_safety:
  assumes "walsender P False start arrivals" "receive P c sink start arrivals r h = (s, err)"
  shows "map end_of (conn_accepted s) = take (length (conn_accepted s)) (commit_ends P arrivals) \<and>
    rfold sink h (conn_accepted s) = Inr (conn_sink s) \<and> sorted (conn_sent s) \<and>
    (\<forall>a \<in> set (conn_sent s). \<forall>e \<in> set (drop (length (conn_accepted s)) (commit_ends P arrivals)). a < e)"
  using receive_acks [OF assms] by (simp add: acked_only_accepted_def)

text \<open>A parameter instance: one letter per message. Two transactions, a keepalive between them and one
  inside the second, whose commit the sink rejects.\<close>

definition letter_parsers :: parsers where
  "letter_parsers =
     \<lparr>ParseXLogData = (\<lambda>s. Some (1, 50, s)),
      ParsePgoutput = (\<lambda>s. if s = ''B'' then Some (BeginMessage 9 4)
                           else if s = ''C'' then Some (CommitMessage 10 20)
                           else if s = ''D'' then Some (CommitMessage 25 30) else None),
      ParseKeepalive = (\<lambda>s. if s = ''a'' then Some (22, True) else Some (28, True))\<rparr>"

definition letter_arrivals :: "arrival list" where
  "letter_arrivals = map (\<lambda>s. CopyData s (quiet newShapes) None)
     [''wB'', ''wC'', ''ka'', ''wB'', ''kb'', ''wD'']"

definition one_only :: "nat sink" where
  "one_only h t = (if h = 0 then Inr 1 else Inl (Errorf []))"

definition letter_run :: "nat conn" where
  "letter_run = fst (receive letter_parsers basic_config one_only 5 letter_arrivals newReader 0)"

lemma letter_run_facts:
  "walsender letter_parsers False 5 letter_arrivals"
  "commit_ends letter_parsers letter_arrivals = [20, 30]"
  "map end_of (conn_accepted letter_run) = [20]" "conn_sent letter_run = [20, 22, 22]"
  by code_simp+

theorem ack_safety_witness:
  "conn_sent letter_run = [20, 22, 22] \<and>
   list_all (\<lambda>e. 22 < e) (drop (length (conn_accepted letter_run)) (commit_ends letter_parsers letter_arrivals))"
proof -
  have "receive letter_parsers basic_config one_only 5 letter_arrivals newReader 0 =
      (letter_run, snd (receive letter_parsers basic_config one_only 5 letter_arrivals newReader 0))"
    by (simp add: letter_run_def)
  from ack_safety [OF letter_run_facts(1) this] show ?thesis by (simp add: letter_run_facts(4) list_all_iff)
qed

end
