(* ===== verification/Stream_Runs.thy ===== *)
theory Stream_Runs
  imports Stream_Correct
begin

text \<open>
  Connections one after another: whatever ends each of them, resuming from a position the slot
  confirmed loses no transaction; \<open>Run\<close> makes a bounded number of connections and returns; and the wait
  between two of them is bounded.
\<close>

section \<open>No gap across reconnects\<close>

text \<open>A connection of the reader: the reader's state when it starts, the LSN it resumes from and what
  arrives on it.\<close>

type_synonym connection = "reader \<times> lsn \<times> arrival list"

text \<open>A sequence of connections: the sink's final state, everything it accepted, and every position sent.\<close>

fun reconnects ::
    "parsers \<Rightarrow> readerConfig \<Rightarrow> 'h sink \<Rightarrow> connection list \<Rightarrow> 'h \<Rightarrow> 'h \<times> transaction list \<times> lsn list" where
  "reconnects P c sink [] h = (h, [], [])"
| "reconnects P c sink ((r, start, arrivals) # conns) h =
     (case receive P c sink start arrivals r h of
        (s, err) \<Rightarrow>
          (case reconnects P c sink conns (conn_sink s) of
             (h', ts, sent) \<Rightarrow> (h', conn_accepted s @ ts, conn_sent s @ sent)))"

text \<open>What the slot promises: it resumes from a position it was told to confirm (\<open>confirmed\<close>: the
  position it was created with, and every status sent since), and streams every commit of the source's
  log \<open>wal\<close> that ends after it. The arrivals list what the walsender would go on to send, also past the
  point where the connection breaks.\<close>

fun slot_resumes ::
    "parsers \<Rightarrow> readerConfig \<Rightarrow> 'h sink \<Rightarrow> lsn list \<Rightarrow> lsn list \<Rightarrow> connection list \<Rightarrow> 'h \<Rightarrow> bool" where
  "slot_resumes P c sink wal confirmed [] h = True"
| "slot_resumes P c sink wal confirmed ((r, start, arrivals) # conns) h \<longleftrightarrow>
     start \<in> set confirmed \<and> walsender P False start arrivals \<and>
     commit_ends P arrivals = filter (\<lambda>e. start < e) wal \<and>
     (case receive P c sink start arrivals r h of
        (s, err) \<Rightarrow> slot_resumes P c sink wal (confirmed @ conn_sent s) conns (conn_sink s))"

lemma filter_above_drop:
  fixes wal :: "lsn list"
  assumes "sorted_wrt (<) wal"
  shows "\<exists>j \<le> length wal. filter (\<lambda>e. p < e) wal = drop j wal \<and> (\<forall>e \<in> set (take j wal). e \<le> p)"
  using assms
proof (induction wal)
  case (Cons x wal)
  show ?case
  proof (cases "p < x")
    case True
    with Cons.prems have "\<forall>e \<in> set (x # wal). p < e" by auto
    then have "filter (\<lambda>e. p < e) (x # wal) = drop 0 (x # wal)" by (simp add: filter_id_conv)
    then show ?thesis by (intro exI [of _ 0]) simp
  next
    case False
    from Cons obtain j where "j \<le> length wal" "filter (\<lambda>e. p < e) wal = drop j wal" "\<forall>e \<in> set (take j wal). e \<le> p"
      by auto
    with False show ?thesis by (intro exI [of _ "Suc j"]) auto
  qed
qed simp

lemma take_union:
  assumes "j \<le> m"
  shows "set (take m xs) \<union> set (take n (drop j xs)) = set (take (max m (j + n)) xs)"
proof -
  have sub: "i \<le> k \<Longrightarrow> set (take i xs) \<subseteq> set (take k xs)" for i k by (rule set_take_subset_set_take)
  have "set (take (j + n) xs) = set (take j xs) \<union> set (take n (drop j xs))"
    by (simp add: take_add)
  with sub [OF assms] sub [of m "max m (j + n)"] sub [of "j + n" "max m (j + n)"]
  show ?thesis by (auto simp: max_def split: if_splits)
qed

text \<open>The first \<open>m\<close> commits of the log were accepted, and no confirmed position covers a later one.\<close>

definition covered :: "lsn list \<Rightarrow> nat \<Rightarrow> lsn list \<Rightarrow> bool" where
  "covered wal m confirmed \<longleftrightarrow> (\<forall>p \<in> set confirmed. \<forall>e \<in> set (drop m wal). p < e)"

lemma connection_segment:
  assumes "sorted_wrt (<) wal" "covered wal m confirmed" "start \<in> set confirmed"
    and "walsender P False start arrivals" "commit_ends P arrivals = filter (\<lambda>e. start < e) wal"
    and "receive P c sink start arrivals r h = (s, err)"
  shows "\<exists>j \<le> m. map end_of (conn_accepted s) = take (length (conn_accepted s)) (drop j wal) \<and>
    covered wal (max m (j + length (conn_accepted s))) (confirmed @ conn_sent s) \<and>
    rfold sink h (conn_accepted s) = Inr (conn_sink s)"
proof -
  let ?n = "length (conn_accepted s)"
  obtain j where j: "j \<le> length wal" "filter (\<lambda>e. start < e) wal = drop j wal" "\<forall>e \<in> set (take j wal). e \<le> start"
    using filter_above_drop [OF assms(1)] by blast
  have "j \<le> m"
  proof (rule ccontr)
    assume "\<not> j \<le> m"
    with j(1) have "wal ! m \<in> set (take j wal)" "wal ! m \<in> set (drop m wal)"
      by (auto simp: in_set_conv_nth intro: exI [of _ 0] exI [of _ m])
    with j(3) assms(2,3) show False by (fastforce simp: covered_def)
  qed
  have acks: "map end_of (conn_accepted s) = take ?n (drop j wal)" "rfold sink h (conn_accepted s) = Inr (conn_sink s)"
    "\<forall>a \<in> set (conn_sent s). \<forall>e \<in> set (drop (j + ?n) wal). a < e"
    using receive_acks [OF assms(4,6)] by (simp_all add: assms(5) j(2) acked_only_accepted_def add.commute)
  moreover have "covered wal (max m (j + ?n)) (confirmed @ conn_sent s)"
    using assms(2) acks(3) set_drop_subset_set_drop [of m "max m (j + ?n)" wal]
      set_drop_subset_set_drop [of "j + ?n" "max m (j + ?n)" wal]
    by (fastforce simp: covered_def)
  ultimately show ?thesis using \<open>j \<le> m\<close> by blast
qed

lemma one_connection:
  assumes "sorted_wrt (<) wal" "covered wal m confirmed" "start \<in> set confirmed"
    and "walsender P False start arrivals" "commit_ends P arrivals = filter (\<lambda>e. start < e) wal"
    and "receive P c sink start arrivals r h = (s, err)"
  shows "\<exists>m'. set (take m wal) \<union> end_of ` set (conn_accepted s) = set (take m' wal) \<and>
    covered wal m' (confirmed @ conn_sent s) \<and> rfold sink h (conn_accepted s) = Inr (conn_sink s)"
proof -
  obtain j where j: "j \<le> m" "map end_of (conn_accepted s) = take (length (conn_accepted s)) (drop j wal)"
      "covered wal (max m (j + length (conn_accepted s))) (confirmed @ conn_sent s)"
      "rfold sink h (conn_accepted s) = Inr (conn_sink s)"
    using connection_segment [OF assms] by blast
  from take_union [OF j(1), of wal "length (conn_accepted s)"] j(2) have
    "set (take m wal) \<union> end_of ` set (conn_accepted s) = set (take (max m (j + length (conn_accepted s))) wal)"
    by (metis set_map)
  with j(3,4) show ?thesis by blast
qed

lemma reconnects_covered:
  assumes "sorted_wrt (<) wal" "covered wal m confirmed" "slot_resumes P c sink wal confirmed conns h"
    and "reconnects P c sink conns h = (h', ts, sent)"
  shows "\<exists>m'. set (take m wal) \<union> end_of ` set ts = set (take m' wal) \<and> covered wal m' (confirmed @ sent) \<and>
    rfold sink h ts = Inr h'"
  using assms(2-4)
proof (induction conns arbitrary: m confirmed h ts sent)
  case (Cons conn conns)
  obtain r start arrivals where conn: "conn = (r, start, arrivals)" by (cases conn)
  obtain s err where rc: "receive P c sink start arrivals r h = (s, err)"
    by (cases "receive P c sink start arrivals r h")
  have slot: "start \<in> set confirmed" "walsender P False start arrivals"
    "commit_ends P arrivals = filter (\<lambda>e. start < e) wal"
    "slot_resumes P c sink wal (confirmed @ conn_sent s) conns (conn_sink s)"
    using Cons.prems(2) by (simp_all add: conn rc)
  obtain m1 where m1: "set (take m wal) \<union> end_of ` set (conn_accepted s) = set (take m1 wal)"
    "covered wal m1 (confirmed @ conn_sent s)" "rfold sink h (conn_accepted s) = Inr (conn_sink s)"
    using one_connection [OF assms(1) Cons.prems(1) slot(1-3) rc] by blast
  obtain ts1 sent1 where rest: "reconnects P c sink conns (conn_sink s) = (h', ts1, sent1)"
    and ts: "ts = conn_accepted s @ ts1" "sent = conn_sent s @ sent1"
    using Cons.prems(3) by (auto simp: conn rc split: prod.splits)
  from Cons.IH [OF m1(2) slot(4) rest] obtain m2 where m2:
    "set (take m1 wal) \<union> end_of ` set ts1 = set (take m2 wal)" "covered wal m2 ((confirmed @ conn_sent s) @ sent1)"
    "rfold sink (conn_sink s) ts1 = Inr h'" by blast
  have "set (take m wal) \<union> end_of ` set ts = set (take m2 wal)"
    using m1(1) m2(1) ts(1) by (simp add: image_Un Un_assoc [symmetric])
  with m1(3) m2(2,3) ts show ?case by (auto simp: rfold_append)
qed auto

section \<open>The connections of \<open>Run\<close>\<close>

text \<open>The connection a turn of \<open>Run\<close> streams from, if \<open>read\<close> gets that far: the one a bootstrap handed
  over, or a new one.\<close>

definition turn_connection ::
    "(string \<Rightarrow> lsn option) \<Rightarrow> readerConfig \<Rightarrow> turn \<Rightarrow> reader \<Rightarrow> connection option" where
  "turn_connection ParseLSN c tn r =
     (let opened = (\<lambda>start. Some (setConnectionState stateStreaming (fst (takeBootstrapStream r)), start, tn_arrivals tn)) in
      case bootstrap_stream r of
        Some start \<Rightarrow> opened start
      | None \<Rightarrow>
          if connectReplication (tn_connect_ctx tn) (tn_connect tn) = None \<and> startReplication (tn_start tn) = None
          then (case requireSlot ParseLSN c (tn_slot tn) of Inl err \<Rightarrow> None | Inr start \<Rightarrow> opened start)
          else None)"

lemma read_streams:
  assumes "read ParseLSN P c sink tn r h = (r1, h1, err)"
  shows "case turn_connection ParseLSN c tn r of
      None \<Rightarrow> h1 = h
    | Some (r0, start, arrivals) \<Rightarrow> \<exists>s. receive P c sink start arrivals r0 h = (s, err) \<and> conn_sink s = h1"
  using assms
  by (auto simp: read_def read_stream_def turn_connection_def takeBootstrapStream_def Let_def
      split: option.splits sum.splits prod.splits)

text \<open>The connections of \<open>n\<close> turns, from turn \<open>k\<close> on.\<close>

fun run_connections ::
    "(string \<Rightarrow> lsn option) \<Rightarrow> parsers \<Rightarrow> readerConfig \<Rightarrow> 'h sink \<Rightarrow> (nat \<Rightarrow> turn) \<Rightarrow> nat \<Rightarrow> nat \<Rightarrow> reader \<Rightarrow> 'h
      \<Rightarrow> connection list" where
  "run_connections ParseLSN P c sink turns 0 k r h = []"
| "run_connections ParseLSN P c sink turns (Suc n) k r h =
     (let r0 = setConnectionState stateConnecting r in
      case read ParseLSN P c sink (turns k) r0 h of
        (r1, h1, err) \<Rightarrow>
          (case turn_connection ParseLSN c (turns k) r0 of None \<Rightarrow> [] | Some conn \<Rightarrow> [conn]) @
          run_connections ParseLSN P c sink turns n (Suc k) (setConnectionState stateBackingOff (incrementReconnects r1)) h1)"

lemma reconnects_turn:
  assumes "read ParseLSN P c sink tn r h = (r1, h1, err)"
  shows "fst (reconnects P c sink ((case turn_connection ParseLSN c tn r of None \<Rightarrow> [] | Some conn \<Rightarrow> [conn]) @ conns) h) =
    fst (reconnects P c sink conns h1)"
  using read_streams [OF assms] by (auto split: option.splits prod.splits)

lemma run_loop_count: "run_loop ParseLSN P c sink turns k attempts r h = (r', h', n, res) \<Longrightarrow> k < n"
proof (induction ParseLSN P c sink turns k attempts r h rule: run_loop.induct)
  case (1 ParseLSN P c sink turns k attempts r h)
  show ?case
    using "1.prems"
    by (subst (asm) run_loop.simps)
      (auto simp: budgetExceeded_def Let_def split: prod.splits if_splits option.splits dest!: "1.IH" [rotated -1])
qed

lemma run_loop_turn:
  assumes "run_loop ParseLSN P c sink turns k attempts r h = (r', h', n, res)"
    and "read ParseLSN P c sink (turns k) (setConnectionState stateConnecting r) h = (r1, h1, err)"
  shows "n = Suc k \<and> h' = h1 \<or>
    run_loop ParseLSN P c sink turns (Suc k) (attempts + 1) (setConnectionState stateBackingOff (incrementReconnects r1)) h1 =
      (r', h', n, res) \<and> attempts < MaxAttempts (RetryPolicy c)"
  using assms
  by (subst (asm) run_loop.simps) (auto simp: budgetExceeded_def Let_def split: if_splits option.splits)

lemma run_loop_reconnects:
  "run_loop ParseLSN P c sink turns k attempts r h = (r', h', n, res) \<Longrightarrow>
    fst (reconnects P c sink (run_connections ParseLSN P c sink turns (n - k) k r h) h) = h'"
proof (induction "nat (MaxAttempts (RetryPolicy c) - attempts)" arbitrary: k attempts r h rule: less_induct)
  case less
  obtain r1 h1 err where read: "read ParseLSN P c sink (turns k) (setConnectionState stateConnecting r) h = (r1, h1, err)"
    by (cases "read ParseLSN P c sink (turns k) (setConnectionState stateConnecting r) h")
  note conns = reconnects_turn [OF read]
  obtain i where i: "n - k = Suc i" "n - Suc k = i"
    using run_loop_count [OF less.prems] by (metis Suc_diff_Suc)
  from run_loop_turn [OF less.prems read] show ?case
  proof (elim disjE conjE)
    assume "n = Suc k" "h' = h1"
    then show ?thesis using i conns [of "[]"] by (simp add: read Let_def)
  next
    assume "run_loop ParseLSN P c sink turns (Suc k) (attempts + 1) (setConnectionState stateBackingOff (incrementReconnects r1)) h1 =
      (r', h', n, res)" "attempts < MaxAttempts (RetryPolicy c)"
    from less.hyps [OF _ this(1)] this(2) show ?thesis
      unfolding i by (simp add: read Let_def conns)
  qed
qed

lemma Run_reconnects:
  assumes "Run ParseLSN P c sink turns r h = (r', h', n, res)"
  shows "fst (reconnects P c sink (run_connections ParseLSN P c sink turns n 0 r h) h) = h'"
  using run_loop_reconnects [of ParseLSN P c sink turns 0] assms by (simp add: Run_def)

text \<open>C15: The stream survives reconnects without losing a transaction. However \<open>Run\<close> ends, over whatever
  connections it made - one handed over by a bootstrap or new ones, each broken at any point by anything,
  each resumed by the slot from a position it had been told to confirm: the commits the sink accepted
  are exactly an initial segment of the source's log, with no gap; the sink's state is what accepting
  the delivered transactions in turn gives; and every position ever confirmed lies before the end of
  every commit not yet accepted, so the next connection streams it.\<close>

theorem reconnects_no_gap:
  assumes "Run ParseLSN P c sink turns r h = (r', h', n, res)"
    and "run_connections ParseLSN P c sink turns n 0 r h = conns"
    and "sorted_wrt (<) wal" "\<forall>e \<in> set wal. start < e" "slot_resumes P c sink wal [start] conns h"
    and "reconnects P c sink conns h = (final, ts, sent)"
  shows "\<exists>m. end_of ` set ts = set (take m wal) \<and> rfold sink h ts = Inr h' \<and>
    (\<forall>p \<in> set (start # sent). \<forall>e \<in> set (drop m wal). p < e)"
proof -
  have "covered wal 0 [start]" using assms(4) by (simp add: covered_def)
  from reconnects_covered [OF assms(3) this assms(5,6)] Run_reconnects [OF assms(1)] assms(2,6)
  show ?thesis by (auto simp: covered_def)
qed

text \<open>A run of three turns. The connection that a bootstrap handed over ends inside the second transaction; the
  second turn is refused a connection; the third resumes from the keepalive's position, which was
  acknowledged between the two transactions, and still streams.\<close>

definition slot_catalog :: "string \<Rightarrow> catalog" where
  "slot_catalog resume =
     \<lparr>pg_publication = (\<lambda>_. Inr (Some (True, True, True, False))), pg_table = (\<lambda>_ _. Inr (True, True)),
      pg_primary_key = (\<lambda>_. Inr []), pg_publication_tables = (\<lambda>_ _ _. Inr True),
      pg_class_published = (\<lambda>_ _ _ _. Inr (7, ''d'', [])), pg_attributes = (\<lambda>_ _. Inr []),
      pg_replident_index = (\<lambda>_. Inr []),
      pg_replication_slots = (\<lambda>_. Inr (Some \<lparr>slotType = ''logical'', plugin = ''pgoutput'', slot_active = False,
        resumeLSN = resume, restartLSN = resume\<rparr>))\<rparr>"

definition plain_turn :: "goerror option \<Rightarrow> string \<Rightarrow> arrival list \<Rightarrow> turn" where
  "plain_turn connect resume arrivals =
     \<lparr>tn_connect_ctx = None, tn_connect = connect, tn_slot = Inr (slot_catalog resume),
      tn_start = None, tn_arrivals = arrivals, tn_ctx = False, tn_cause = None, tn_wait = None,
      tn_wait_ctx = False, tn_wait_cause = None, tn_drop = Inl (Errorf [])\<rparr>"

definition refused :: turn where
  "refused = plain_turn (Some (Errorf [Sentinel ErrSourceUnavailable])) [] [CopyDone]"

definition letters :: "string list \<Rightarrow> arrival list" where
  "letters = map (\<lambda>s. CopyData s (quiet newShapes) None)"

definition broken_turns :: "nat \<Rightarrow> turn" where
  "broken_turns k =
     (if k = 0 then plain_turn None [] (letters [''wB'', ''wC'', ''ka'', ''wB''] @ [CopyDone] @ letters [''wD''])
      else if k = 1 then refused
      else plain_turn None ''0/16'' (letters [''wB'', ''wD'']))"

definition hex_lsn :: "string \<Rightarrow> lsn option" where
  "hex_lsn s = (if s = ''0/16'' then Some 22 else if s = ''0/5'' then Some 5 else None)"

definition counting :: "nat sink" where
  "counting h t = Inr (Suc h)"

definition handed_over :: reader where
  "handed_over = newReader\<lparr>bootstrap_stream := Some 5\<rparr>"

lemma broken_run:
  "snd (Run hex_lsn letter_parsers basic_config counting broken_turns handed_over 0) = (2, 3, Streaming)"
  "map (fst \<circ> snd) (run_connections hex_lsn letter_parsers basic_config counting broken_turns 3 0 handed_over 0) = [5, 22]"
  "slot_resumes letter_parsers basic_config counting [20, 30] [5]
     (run_connections hex_lsn letter_parsers basic_config counting broken_turns 3 0 handed_over 0) 0"
  "map end_of (fst (snd (reconnects letter_parsers basic_config counting
     (run_connections hex_lsn letter_parsers basic_config counting broken_turns 3 0 handed_over 0) 0))) = [20, 30]"
  by code_simp+

theorem reconnects_no_gap_witness:
  "\<exists>conns m. run_connections hex_lsn letter_parsers basic_config counting broken_turns 3 0 handed_over 0 = conns \<and>
     map (fst \<circ> snd) conns = [5, 22] \<and>
     end_of ` set (fst (snd (reconnects letter_parsers basic_config counting conns 0))) = set (take m [20, 30]) \<and>
     map end_of (fst (snd (reconnects letter_parsers basic_config counting conns 0))) = [20, 30]"
proof -
  let ?run = "Run hex_lsn letter_parsers basic_config counting broken_turns handed_over 0"
  let ?conns = "run_connections hex_lsn letter_parsers basic_config counting broken_turns 3 0 handed_over 0"
  let ?all = "reconnects letter_parsers basic_config counting ?conns 0"
  have wal: "sorted_wrt (<) [20, 30 :: lsn]" "\<forall>e \<in> set [20, 30 :: lsn]. 5 < e" by simp_all
  have run: "?run = (fst ?run, 2, 3, Streaming)" using broken_run(1) by (metis prod.collapse)
  have all: "?all = (fst ?all, fst (snd ?all), snd (snd ?all))" by simp
  from reconnects_no_gap [OF run refl wal broken_run(3) all] obtain m where
    "end_of ` set (fst (snd ?all)) = set (take m [20, 30])" by (elim exE conjE)
  then show ?thesis by (intro exI [of _ ?conns] exI [of _ m] conjI refl broken_run(2,4))
qed

section \<open>\<open>Run\<close> ends\<close>

text \<open>The arrivals that end a connection: the context was cancelled, the connection broke, or PostgreSQL
  sent an error, the end of the copy or something unexpected.\<close>

fun ends_connection :: "arrival \<Rightarrow> bool" where
  "ends_connection (TimedOut outcome) = False"
| "ends_connection (CopyData data regs outcome) = False"
| "ends_connection _ = True"

lemma receive_from_returns:
  "\<exists>a \<in> set as. ends_connection a \<Longrightarrow> snd (receive_from P c sink as s) \<noteq> None"
proof (induction as arbitrary: s)
  case (Cons a as)
  show ?case
  proof (cases "ends_connection a")
    case True
    then show ?thesis by (cases a) auto
  next
    case False
    with Cons show ?thesis by (auto split: prod.splits option.splits)
  qed
qed simp

lemma read_returns:
  assumes "\<exists>a \<in> set (tn_arrivals tn). ends_connection a"
  shows "snd (snd (read ParseLSN P c sink tn r h)) \<noteq> None"
proof -
  have "snd (receive P c sink l (tn_arrivals tn) r h) \<noteq> None" for l r h
    using receive_from_returns [OF assms] by (simp add: receive_def)
  then show ?thesis
    by (auto simp: read_def read_stream_def Let_def takeBootstrapStream_def split: prod.splits option.splits sum.splits)
      (metis snd_conv)+
qed

text \<open>Why \<open>Run\<close> returned, after \<open>n\<close> connections.\<close>

definition run_ended :: "readerConfig \<Rightarrow> (nat \<Rightarrow> turn) \<Rightarrow> nat \<Rightarrow> run_result \<Rightarrow> bool" where
  "run_ended c turns n res \<longleftrightarrow> 0 < n \<and> int n \<le> MaxAttempts (RetryPolicy c) + 1 \<and>
     (let tn = turns (n - 1) in
      case res of
        Streaming \<Rightarrow> False
      | Returned None \<Rightarrow> tn_ctx tn \<or> tn_wait tn \<noteq> None \<and> tn_wait_ctx tn
      | Returned (Some err) \<Rightarrow> \<not> isRetryable err \<or> tn_wait tn = Some err \<or>
          err = Errorf [Sentinel ErrRetryExhausted] \<and> int n = MaxAttempts (RetryPolicy c) + 1
      | BudgetExceeded err dropped \<Rightarrow>
          (\<exists>cause. err = Errorf [cause] \<and> (tn_cause tn = Some cause \<or> tn_wait_cause tn = Some cause) \<and>
             dropped = (snd (dropSlotForBudget (tn_drop tn)) = None)))"

lemma run_loop_ends:
  assumes "\<And>k. \<exists>a \<in> set (tn_arrivals (turns k)). ends_connection a" "int k \<le> MaxAttempts (RetryPolicy c)"
    and "run_loop ParseLSN P c sink turns k (int k) r h = (r', h', n, res)"
  shows "run_ended c turns n res"
  using assms(2,3)
proof (induction "nat (MaxAttempts (RetryPolicy c) - int k)" arbitrary: k r h rule: less_induct)
  case less
  have "snd (snd (read ParseLSN P c sink (turns k) (setConnectionState stateConnecting r) h)) \<noteq> None"
    by (rule read_returns [OF assms(1)])
  then obtain r1 h1 err where read: "read ParseLSN P c sink (turns k) (setConnectionState stateConnecting r) h = (r1, h1, Some err)"
    by (cases "read ParseLSN P c sink (turns k) (setConnectionState stateConnecting r) h") auto
  show ?case
  proof (cases "n = Suc k")
    case True
    then show ?thesis
      using less.prems read
      by (subst (asm) run_loop.simps)
        (auto simp: run_ended_def budgetExceeded_def Let_def split: if_splits option.splits dest!: run_loop_count)
  next
    case False
    then have next_turn: "int (Suc k) \<le> MaxAttempts (RetryPolicy c)"
      "run_loop ParseLSN P c sink turns (Suc k) (int (Suc k)) (setConnectionState stateBackingOff (incrementReconnects r1)) h1 = (r', h', n, res)"
      using less.prems(2) read
      by (subst (asm) run_loop.simps; auto simp: budgetExceeded_def Let_def add.commute split: if_splits option.splits)+
    show ?thesis by (rule less.hyps [OF _ next_turn]) (use next_turn(1) in simp)
  qed
qed

text \<open>C16: \<open>Run\<close> terminates. When every connection it makes ends - for whatever reason - \<open>Run\<close> returns after at
  most \<open>MaxAttempts + 1\<close> connections, and says truthfully why: with nil only if its caller cancelled it;
  with the retention cause, wrapped, only if the monitor stopped the stream, and then it has tried to drop
  the slot; with \<open>ErrRetryExhausted\<close> only after exactly \<open>MaxAttempts + 1\<close> connections; and otherwise with an
  error that is not retryable, or the error of its wait.\<close>

theorem Run_terminates:
  assumes "0 \<le> MaxAttempts (RetryPolicy c)" "\<forall>k. \<exists>a \<in> set (tn_arrivals (turns k)). ends_connection a"
    and "Run ParseLSN P c sink turns r h = (r', h', n, res)"
  shows "run_ended c turns n res"
  using assms run_loop_ends [of turns 0 c ParseLSN P sink r h r' h' n res] by (simp add: Run_def)

lemma refused_run:
  "snd (snd (Run (\<lambda>_. None) letter_parsers basic_config counting (\<lambda>_. refused) newReader 0)) =
     (9, Returned (Some (Errorf [Sentinel ErrRetryExhausted])))"
  by code_simp

theorem Run_terminates_witness:
  "run_ended basic_config (\<lambda>_. refused) 9 (Returned (Some (Errorf [Sentinel ErrRetryExhausted])))"
proof (rule Run_terminates)
  show "0 \<le> MaxAttempts (RetryPolicy basic_config)" by (simp add: basic_config_wf)
  show "\<forall>k. \<exists>a \<in> set (tn_arrivals ((\<lambda>_. refused) k)). ends_connection a" by (simp add: refused_def plain_turn_def)
  let ?run = "Run (\<lambda>_. None) letter_parsers basic_config counting (\<lambda>_. refused) newReader 0"
  show "?run = (fst ?run, fst (snd ?run), 9, Returned (Some (Errorf [Sentinel ErrRetryExhausted])))"
    using refused_run by (metis prod.collapse)
qed

section \<open>The wait between two connections\<close>

lemma jitter_bounds:
  assumes "0 \<le> random" "random < 1" "0 \<le> j" "j \<le> 1"
  shows "0 \<le> float64 (1 + float64 (float64 (float64 (random * 2) - 1) * j))"
    and "float64 (1 + float64 (float64 (float64 (random * 2) - 1) * j)) \<le> 2"
proof -
  have two: "float64 2 = 2" using float64_int [of 2] by simp
  note a = float64_between [of 0 "random * 2" 2]
  have 1: "0 \<le> float64 (random * 2)" "float64 (random * 2) \<le> 2" using a assms two by simp_all
  note b = float64_between [of "- 1" "float64 (random * 2) - 1" 1]
  have 2: "- 1 \<le> float64 (float64 (random * 2) - 1)" "float64 (float64 (random * 2) - 1) \<le> 1"
    using b 1 by simp_all
  let ?x = "float64 (float64 (random * 2) - 1) * j"
  have "\<bar>?x\<bar> \<le> 1" using 2 assms(3,4) by (simp add: abs_mult mult_le_one abs_le_iff)
  then have "- 1 \<le> float64 ?x" "float64 ?x \<le> 1"
    using float64_between [of "- 1" ?x 1] by (simp_all add: abs_le_iff)
  then show "0 \<le> float64 (1 + float64 ?x)" "float64 (1 + float64 ?x) \<le> 2"
    using float64_between [of 0 "1 + float64 ?x" 2] two by simp_all
qed

text \<open>The wait is never negative and at most twice the configured maximum, whatever the attempt.\<close>

lemma retryDelay_bounded:
  assumes "wf_readerConfig c" "MaxBackoff (RetryPolicy c) < 2 ^ 52" "0 \<le> random" "random < 1"
  shows "0 \<le> retryDelay c random attempt \<and> retryDelay c random attempt \<le> 2 * MaxBackoff (RetryPolicy c)"
proof -
  define m where "m = MaxBackoff (RetryPolicy c)"
  define base where "base = min (float64 (float64 (of_int (InitialBackoff (RetryPolicy c))) * 2 ^ (attempt - 1))) (float64 (of_int m))"
  define jit where "jit = float64 (1 + float64 (float64 (float64 (random * 2) - 1) * Jitter (RetryPolicy c)))"
  have pos: "0 < InitialBackoff (RetryPolicy c)" "0 < m" "0 \<le> Jitter (RetryPolicy c)" "Jitter (RetryPolicy c) \<le> 1"
    using assms(1) by (auto simp: wf_readerConfig_def m_def)
  have m: "float64 (of_int m) = of_int m" "float64 (of_int (2 * m)) = of_int (2 * m)"
    using pos(2) assms(2) by (intro float64_int; simp add: m_def)+
  have base: "0 \<le> base" "base \<le> of_int m" using pos by (simp_all add: base_def m less_imp_le)
  have jit: "0 \<le> jit" "jit \<le> 2" unfolding jit_def using jitter_bounds [OF assms(3,4) pos(3,4)] by simp_all
  have "base * jit \<le> of_int m * 2" using base jit pos(2) by (intro mult_mono) simp_all
  then have "float64 (base * jit) \<le> of_int (2 * m)" "0 \<le> float64 (base * jit)"
    using float64_between [of 0 "base * jit" "of_int (2 * m)"] m(2) base(1) jit(1) by simp_all
  then have "0 \<le> \<lfloor>float64 (base * jit)\<rfloor>" "\<lfloor>float64 (base * jit)\<rfloor> \<le> 2 * m"
    by (simp, metis floor_mono floor_of_int)
  then show ?thesis by (simp add: retryDelay_def Let_def base_def jit_def m_def)
qed

section \<open>What is retried\<close>

text \<open>An update that changes a row's key, and a row of an unknown relation, fail the same way whenever
  PostgreSQL sends them again, and are retried nevertheless.\<close>

theorem hopeless_errors_retried:
  "isRetryable (Sentinel ErrPrimaryKeyChangeUnsupported) \<and> isRetryable (Errorf [Sentinel ErrUnknownRelation])"
  by code_simp

end
