(* ===== verification/Stream_Hub.thy ===== *)
theory Stream_Hub
  imports Stream_Runs Hub_Correct
begin

text \<open>
  The reader and the hub together: the hub's duplicate elimination turns the at-least-once stream of
  reconnecting connections into one delivery of every commit.
\<close>

section \<open>Every delivered transaction carries the reader's source\<close>

definition stamped :: "readerConfig \<Rightarrow> transaction \<Rightarrow> bool" where
  "stamped c t \<longleftrightarrow> cur_source (Cursor_of t) = rd_SourceID c"

definition keeps_stamped :: "readerConfig \<Rightarrow> 'h conn \<Rightarrow> 'h conn \<Rightarrow> bool" where
  "keeps_stamped c s s1 \<longleftrightarrow> (list_all (stamped c) (conn_accepted s) \<longrightarrow> list_all (stamped c) (conn_accepted s1))"

lemma acknowledge_accepted: "conn_accepted (fst (acknowledge outcome s)) = conn_accepted s"
  by (simp add: acknowledge_def Let_def split: option.splits)

lemma deliver_commit_stamped: "keeps_stamped c s (fst (deliver_commit c sink outcome t e s))"
proof -
  have "conn_accepted s1 = conn_accepted s2" if "acknowledge outcome s2 = (s1, err)" for s1 s2 :: "'a conn" and err
    using acknowledge_accepted [of outcome s2] that by simp
  then show ?thesis
    by (auto simp: keeps_stamped_def stamped_def deliver_commit_def Let_def split: sum.splits prod.splits option.splits)
qed

lemma consume_message_stamped: "keeps_stamped c s (fst (consume_message c sink regs outcome m s))"
proof -
  have "keeps_stamped c s (fst (deliver_commit c sink outcome t e s1))" if "conn_accepted s1 = conn_accepted s" for s1 t e
    using deliver_commit_stamped [of c s1 sink outcome t e] that by (simp add: keeps_stamped_def)
  then show ?thesis
    by (auto simp: consume_message_def Let_def split: prod.splits sum.splits option.splits message.splits)
      (simp_all add: keeps_stamped_def)
qed

lemma consumeCopyData_stamped: "keeps_stamped c s (fst (consumeCopyData P c sink regs outcome data s))"
proof -
  have m: "keeps_stamped c s (fst (consume_message c sink regs outcome m s1))" if "conn_accepted s1 = conn_accepted s" for s1 m
    using consume_message_stamped [of c s1 sink regs outcome m] that by (simp add: keeps_stamped_def)
  have x: "keeps_stamped c s (fst (consume_xlog P c sink regs outcome payload s))" for payload
    by (auto simp: consume_xlog_def Let_def intro!: m split: option.splits prod.splits) (simp_all add: keeps_stamped_def)
  have "conn_accepted (fst (consume_keepalive P outcome payload s)) = conn_accepted s" for payload
    by (auto simp: consume_keepalive_def Let_def split: option.splits prod.splits dest!: acknowledge_simps(5))
  then have k: "keeps_stamped c s (fst (consume_keepalive P outcome payload s))" for payload
    by (simp add: keeps_stamped_def)
  show ?thesis
    by (auto simp: consumeCopyData_def x k split: list.splits) (simp_all add: keeps_stamped_def)
qed

lemma receive_one_stamped: "keeps_stamped c s (fst (receive_one P c sink a s))"
proof (cases a)
  case (TimedOut outcome)
  have "conn_accepted (fst (receive_one P c sink a s)) = conn_accepted s"
    using acknowledge_accepted [of outcome s] TimedOut by (auto split: prod.splits option.splits)
  then show ?thesis by (simp add: keeps_stamped_def)
next
  case CopyData
  then show ?thesis by (simp add: consumeCopyData_stamped)
qed (simp_all add: keeps_stamped_def)

lemma receive_from_stamped: "keeps_stamped c s (fst (receive_from P c sink as s))"
proof (induction as arbitrary: s)
  case (Cons a as)
  obtain s1 err where one: "receive_one P c sink a s = (s1, err)" by (cases "receive_one P c sink a s")
  from receive_one_stamped [of c s P sink a] one Cons.IH [of s1] show ?case
    by (cases err) (simp_all add: keeps_stamped_def)
qed (simp add: keeps_stamped_def)

lemma receive_stamped: "receive P c sink start as r h = (s, err) \<Longrightarrow> list_all (stamped c) (conn_accepted s)"
  using receive_from_stamped [of c "start_conn c start r h" P sink as]
  by (simp add: receive_def keeps_stamped_def start_conn_def)

section \<open>Redelivery is absorbed\<close>

lemma stamped_cursor: "stamped c t \<Longrightarrow> stamped c u \<Longrightarrow> end_of t = end_of u \<Longrightarrow> Cursor_of t = Cursor_of u"
  by (simp add: stamped_def end_of_def)

lemma take_drop_take:
  assumes "j \<le> m"
  shows "take m xs @ drop (m - j) (take n (drop j xs)) = take (max m (j + n)) xs"
proof -
  have "drop (m - j) (take n (drop j xs)) = take (n - (m - j)) (drop m xs)"
    using assms by (simp add: drop_take)
  moreover have "max m (j + n) = m + (n - (m - j))" using assms by (simp add: max_def)
  ultimately show ?thesis by (simp add: take_add)
qed

lemma sorted_ends:
  assumes "map end_of us = take m wal" "sorted_wrt (<) wal" "list_all (stamped c) us"
  shows "sorted_wrt (\<lambda>a b. at_or_before (Cursor_of a) (Cursor_of b)) us"
proof -
  have "sorted_wrt (<) (map end_of us)" using assms(1,2) by (simp add: sorted_wrt_take)
  then have "sorted_wrt (\<lambda>a b. end_of a < end_of b) us" by (simp add: sorted_wrt_map)
  then show ?thesis
    by (rule sorted_wrt_mono_rel [rotated])
      (use assms(3) in \<open>auto simp: at_or_before_def end_of_def stamped_def list_all_iff\<close>)
qed

context transaction_sink
begin

lemma redelivery_absorbed:
  assumes "sink_ok h0" "sorted_wrt (<) wal"
    and us: "rfold accept h0 us = Inr h" "map end_of us = take m wal" "list_all (stamped c) us"
    and xs: "rfold accept h xs = Inr h'" "map end_of xs = take n (drop j wal)" "list_all (stamped c) xs" "j \<le> m"
  shows "\<exists>us'. rfold accept h0 us' = Inr h' \<and> map end_of us' = take (max m (j + n)) wal \<and>
    list_all (stamped c) us' \<and> set us' \<subseteq> set us \<union> set xs"
proof -
  let ?old = "take (m - j) xs" and ?new = "drop (m - j) xs"
  have old: "\<exists>u \<in> set us. Cursor_of t = Cursor_of u" if "t \<in> set ?old" for t
  proof -
    have "end_of t \<in> set (map end_of ?old)" using that by simp
    also have "map end_of ?old = take (min n (m - j)) (drop j wal)"
      using xs(2) by (simp add: take_map [symmetric] min.commute)
    also have "set \<dots> \<subseteq> set (take (m - j) (drop j wal))" by (rule set_take_subset_set_take) simp
    also have "\<dots> \<subseteq> set (take m wal)"
      using take_add [of j "m - j" wal] xs(4) by simp
    finally obtain u where u: "u \<in> set us" "end_of t = end_of u" using us(2) by (metis imageE set_map)
    have "stamped c t" using that xs(3) by (auto simp: list_all_iff dest: in_set_takeD)
    moreover have "stamped c u" using u(1) us(3) by (simp add: list_all_iff)
    ultimately show ?thesis using u stamped_cursor by blast
  qed
  have "rfold accept h ?old = Inr h"
  proof (cases "us = []")
    case True
    with old have "?old = []" by (cases ?old) auto
    then show ?thesis by (metis rfold.simps(1))
  next
    case False
    then obtain cur where cur: "last_accepted h = Some cur" "list_all (\<lambda>t. at_or_before (Cursor_of t) cur) us"
      using accepted_below [OF assms(1) us(1) sorted_ends [OF us(2) assms(2) us(3)]] by blast
    have "at_or_before (Cursor_of t) cur" if t: "t \<in> set ?old" for t
      using old [OF t] cur(2) by (auto simp: list_all_iff)
    then show ?thesis using cur(1) by (intro resend_ignored) (auto simp: list_all_iff)
  qed
  with xs(1) have "rfold accept h ?new = Inr h'"
    using rfold_append [of accept h ?old ?new] by simp
  with us(1) have "rfold accept h0 (us @ ?new) = Inr h'" by (simp add: rfold_append)
  moreover have "map end_of (us @ ?new) = take (max m (j + n)) wal"
    using take_drop_take [OF xs(4), of wal n] us(2) xs(2) by (simp add: drop_map [symmetric])
  moreover have "list_all (stamped c) (us @ ?new)" "set (us @ ?new) \<subseteq> set us \<union> set xs"
    using us(3) xs(3) by (auto simp: list_all_iff dest: in_set_dropD)
  ultimately show ?thesis by blast
qed

lemma reconnects_absorbed:
  assumes "sink_ok h0" "sorted_wrt (<) wal"
    and "rfold accept h0 us = Inr h" "map end_of us = take m wal" "list_all (stamped c) us"
    and "covered wal m confirmed" "slot_resumes P c accept wal confirmed conns h"
    and "reconnects P c accept conns h = (h', ts, sent)"
  shows "\<exists>us' m'. rfold accept h0 us' = Inr h' \<and> map end_of us' = take m' wal \<and> list_all (stamped c) us' \<and>
    set us' \<subseteq> set us \<union> set ts \<and> covered wal m' (confirmed @ sent)"
  using assms(3-8)
proof (induction conns arbitrary: us m confirmed h ts sent)
  case Nil
  then show ?case by auto
next
  case (Cons conn conns)
  obtain r start arrivals where conn: "conn = (r, start, arrivals)" by (cases conn)
  obtain s err where rc: "receive P c accept start arrivals r h = (s, err)"
    by (cases "receive P c accept start arrivals r h")
  have slot: "start \<in> set confirmed" "walsender P False start arrivals"
    "commit_ends P arrivals = filter (\<lambda>e. start < e) wal"
    "slot_resumes P c accept wal (confirmed @ conn_sent s) conns (conn_sink s)"
    using Cons.prems(5) by (simp_all add: conn rc)
  obtain j where j: "j \<le> m" "map end_of (conn_accepted s) = take (length (conn_accepted s)) (drop j wal)"
      "covered wal (max m (j + length (conn_accepted s))) (confirmed @ conn_sent s)"
      "rfold accept h (conn_accepted s) = Inr (conn_sink s)"
    using connection_segment [OF assms(2) Cons.prems(4) slot(1-3) rc] by blast
  obtain us1 where us1: "rfold accept h0 us1 = Inr (conn_sink s)"
    "map end_of us1 = take (max m (j + length (conn_accepted s))) wal" "list_all (stamped c) us1"
    "set us1 \<subseteq> set us \<union> set (conn_accepted s)"
    using redelivery_absorbed [OF assms(1,2) Cons.prems(1-3) j(4,2) receive_stamped [OF rc] j(1)] by blast
  obtain ts1 sent1 where rest: "reconnects P c accept conns (conn_sink s) = (h', ts1, sent1)"
    and ts: "ts = conn_accepted s @ ts1" "sent = conn_sent s @ sent1"
    using Cons.prems(6) by (auto simp: conn rc split: prod.splits)
  from Cons.IH [OF us1(1-3) j(3) slot(4) rest] us1(4) ts show ?case by fastforce
qed

end

section \<open>The hub behind a reconnecting reader\<close>

text \<open>C4: From the replication stream to the hub, exactly once. Let the hub be the reader's sink. However \<open>Run\<close>
  ends, over whatever connections it made - each broken at any point and each resumed by the slot from a
  position it was told to confirm, so that PostgreSQL sends transactions again - the hub ends in exactly
  the state that accepting each of the first \<open>m\<close> commits of the source's log once, in order, gives, all
  stamped with the reader's source; and every position confirmed to PostgreSQL lies before every later
  commit.\<close>

theorem stream_feeds_hub:
  assumes "Run ParseLSN P c Accept turns r h = (r', h', n, res)"
    and "run_connections ParseLSN P c Accept turns n 0 r h = conns"
    and "hub_ok h" "sorted_wrt (<) wal" "\<forall>e \<in> set wal. start < e" "slot_resumes P c Accept wal [start] conns h"
    and "reconnects P c Accept conns h = (final, ts, sent)"
  shows "\<exists>us m. map end_of us = take m wal \<and> rfold Accept h us = Inr h' \<and> set us \<subseteq> set ts \<and>
    list_all (stamped c) us \<and> (\<forall>p \<in> set (start # sent). \<forall>e \<in> set (drop m wal). p < e)"
proof -
  have "covered wal 0 [start]" using assms(5) by (simp add: covered_def)
  from hub_sink.reconnects_absorbed [OF assms(3,4), of "[]" h 0 c, OF _ _ _ this assms(6,7)]
    Run_reconnects [OF assms(1)] assms(2,7)
  show ?thesis by (auto simp: covered_def)
qed

text \<open>The connection a bootstrap handed over ends inside the second transaction; a connection is refused; and
  the slot, as if the first commit's confirmation had been lost, resumes before both transactions.\<close>

definition resent_turns :: "nat \<Rightarrow> turn" where
  "resent_turns k =
     (if k = 0 then plain_turn None [] (letters [''wB'', ''wC'', ''wB''] @ [CopyDone] @ letters [''wD''])
      else if k = 1 then refused
      else plain_turn None ''0/5'' (letters [''wB'', ''wC'', ''wB'', ''wD'']))"

lemma resent_run:
  "snd (snd (Run hex_lsn letter_parsers basic_config Accept resent_turns handed_over (sample_hub 2 1))) = (3, Streaming)"
  "slot_resumes letter_parsers basic_config Accept [20, 30] [5]
     (run_connections hex_lsn letter_parsers basic_config Accept resent_turns 3 0 handed_over (sample_hub 2 1)) (sample_hub 2 1)"
  "map end_of (fst (snd (reconnects letter_parsers basic_config Accept
     (run_connections hex_lsn letter_parsers basic_config Accept resent_turns 3 0 handed_over (sample_hub 2 1))
     (sample_hub 2 1)))) = [20, 20, 30]"
  by code_simp+

theorem stream_feeds_hub_witness:
  "map end_of (fst (snd (reconnects letter_parsers basic_config Accept
     (run_connections hex_lsn letter_parsers basic_config Accept resent_turns 3 0 handed_over (sample_hub 2 1))
     (sample_hub 2 1)))) = [20, 20, 30] \<and>
   (\<exists>us m. map end_of us = take m [20, 30] \<and>
     rfold Accept (sample_hub 2 1) us =
       Inr (fst (snd (Run hex_lsn letter_parsers basic_config Accept resent_turns handed_over (sample_hub 2 1)))))"
proof -
  let ?run = "Run hex_lsn letter_parsers basic_config Accept resent_turns handed_over (sample_hub 2 1)"
  let ?all = "reconnects letter_parsers basic_config Accept
    (run_connections hex_lsn letter_parsers basic_config Accept resent_turns 3 0 handed_over (sample_hub 2 1)) (sample_hub 2 1)"
  have wal: "sorted_wrt (<) [20, 30 :: lsn]" "\<forall>e \<in> set [20, 30 :: lsn]. 5 < e" by simp_all
  have run: "?run = (fst ?run, fst (snd ?run), 3, Streaming)" using resent_run(1) by (metis prod.collapse)
  have all: "?all = (fst ?all, fst (snd ?all), snd (snd ?all))" by simp
  from stream_feeds_hub [OF run refl sample_hub_ok wal resent_run(2) all] obtain us m where
    "map end_of us = take m [20, 30]" "rfold Accept (sample_hub 2 1) us = Inr (fst (snd ?run))" by (elim exE conjE)
  then show ?thesis by (intro conjI resent_run(3) exI [of _ us] exI [of _ m])
qed

end
