(* ===== verification/Snapshots.thy ===== *)
theory Snapshots
  imports Stream
begin

text \<open>
  Snapshots (\<open>internal/cdc/snapshot.go\<close>) and the bootstrap that creates the slot
  (\<open>internal/cdc/bootstrap.go\<close>).

  PostgreSQL answers the queries of the snapshot transaction (\<open>snapshot_tx\<close>); the paged query is kept
  in parts, because its text is assembled by the driver's quoting. The row sink is a parameter with a
  state of its own; when a call fails the rows delivered must be discarded, so the state is only
  returned with success. The page loop ends only if PostgreSQL's pages do, so it is a partial
  function. The test hooks of the reader are nil outside tests, and the observer only records metrics.
\<close>

section \<open>Reading a scope in pages\<close>

type_synonym scan_row = "(string, string option) gomap"

text \<open>\<open>SELECT * FROM table WHERE scopeColumn = scope AND (pk) > (after) ORDER BY pk LIMIT n\<close>.\<close>

record scan_query =
  sq_table :: table_id
  sq_scopeColumn :: string
  sq_scope :: string
  sq_key :: "string list"
  sq_after :: "string list option"
  sq_limit :: int

text \<open>The answer: the field names, and one raw value per field for every row, \<open>None\<close> for SQL NULL.\<close>

type_synonym scan_answer = "goerror + string list \<times> string option list list"

definition scan_row_of :: "string list \<Rightarrow> string option list \<Rightarrow> scan_row" where
  "scan_row_of names vals = foldl (\<lambda>row (name, v). AList.update name v row) [] (zip names vals)"

definition fetchBatch ::
    "(scan_query \<Rightarrow> scan_answer) \<Rightarrow> projectionSpec \<Rightarrow> string \<Rightarrow> int \<Rightarrow> string list option \<Rightarrow> goerror + scan_row list" where
  "fetchBatch pg_select spec scope batchRows lastKey =
     rbind (classified (pg_select
       \<lparr>sq_table = [Schema spec, TableName spec], sq_scopeColumn = ScopeColumn spec, sq_scope = scope,
        sq_key = PrimaryKey spec, sq_after = lastKey, sq_limit = batchRows\<rparr>)) (\<lambda>(names, raw).
     Inr (map (scan_row_of names) raw))"

fun nextKey :: "string list \<Rightarrow> scan_row \<Rightarrow> goerror + string list" where
  "nextKey [] lastRow = Inr []"
| "nextKey (column # columns) lastRow =
     (case map_of lastRow column of
        Some (Some v) \<Rightarrow> rbind (nextKey columns lastRow) (\<lambda>key. Inr (v # key))
      | _ \<Rightarrow> Inl (Errorf [Sentinel ErrPostgresServer]))"

type_synonym 's row_sink = "'s \<Rightarrow> scan_row list \<Rightarrow> goerror + 's"

text \<open>The page loop; \<open>None\<close> is a loop that never ends.\<close>

partial_function (option) scan_pages ::
    "(string list option \<Rightarrow> goerror + scan_row list) \<Rightarrow> string list \<Rightarrow> int \<Rightarrow> 's row_sink \<Rightarrow> string list option \<Rightarrow> 's
      \<Rightarrow> (goerror + 's) option" where
  "scan_pages fetch key batchRows sink lastKey s =
     (case fetch lastKey of
        Inl err \<Rightarrow> Some (Inl err)
      | Inr batch \<Rightarrow>
          if batch = [] then Some (Inr s)
          else case sink s batch of
            Inl err \<Rightarrow> Some (Inl err)
          | Inr s1 \<Rightarrow>
              (case nextKey key (last batch) of
                 Inl err \<Rightarrow> Some (Inl err)
               | Inr k \<Rightarrow>
                   if int (length batch) < batchRows then Some (Inr s1)
                   else scan_pages fetch key batchRows sink (Some k) s1))"

declare scan_pages.simps [code]

definition scanScopedRows ::
    "(scan_query \<Rightarrow> scan_answer) \<Rightarrow> projectionSpec \<Rightarrow> string \<Rightarrow> int \<Rightarrow> 's row_sink \<Rightarrow> 's \<Rightarrow> (goerror + 's) option" where
  "scanScopedRows pg_select spec scope batchRows sink s =
     scan_pages (fetchBatch pg_select spec scope batchRows) (PrimaryKey spec) batchRows sink None s"

section \<open>The snapshot transaction\<close>

text \<open>\<open>exportedSnapshotName\<close>, the pattern \<open>^[0-9A-F]+(-[0-9A-F]+)+$\<close>.\<close>

definition upper_hex :: "char \<Rightarrow> bool" where
  "upper_hex ch \<longleftrightarrow> is_digit ch \<or> (let n = of_char ch :: nat in 65 \<le> n \<and> n \<le> 70)"

definition exportedSnapshotName :: "string \<Rightarrow> bool" where
  "exportedSnapshotName name \<longleftrightarrow>
     (let parts = split_on (CHR ''-'') name in
      2 \<le> length parts \<and> list_all (\<lambda>p. p \<noteq> [] \<and> list_all upper_hex p) parts)"

record snapshot_tx =
  tx_begin :: "goerror option"
  tx_set_snapshot :: "goerror option"
  tx_current_snapshot :: "goerror + string"
  tx_select :: "scan_query \<Rightarrow> scan_answer"
  tx_commit :: "goerror option"

definition check_error :: "goerror option \<Rightarrow> goerror + unit" where
  "check_error err = (case err of None \<Rightarrow> Inr () | Some e \<Rightarrow> Inl (classifyPostgresError e))"

text \<open>The steps of \<open>readSnapshot\<close> before the rows: the transaction's MVCC snapshot.\<close>

definition snapshot_visibility :: "snapshot_tx \<Rightarrow> string \<Rightarrow> goerror + visibility" where
  "snapshot_visibility tx importSnapshot =
     rbind (check_error (tx_begin tx)) (\<lambda>_.
     rbind (if importSnapshot \<noteq> [] then
              (if \<not> exportedSnapshotName importSnapshot then Inl (Errorf [Sentinel ErrPostgresServer])
               else check_error (tx_set_snapshot tx))
            else Inr ()) (\<lambda>_.
     rbind (classified (tx_current_snapshot tx)) parseVisibility))"

definition readSnapshot ::
    "readerConfig \<Rightarrow> snapshot_tx \<Rightarrow> string \<Rightarrow> projectionSpec \<Rightarrow> string \<Rightarrow> 's row_sink \<Rightarrow> 's
      \<Rightarrow> (goerror + 's \<times> visibility) option" where
  "readSnapshot c tx importSnapshot spec scope sink s =
     (case snapshot_visibility tx importSnapshot of
        Inl err \<Rightarrow> Some (Inl err)
      | Inr v \<Rightarrow>
          map_option (\<lambda>scanned. rbind scanned (\<lambda>s1. rbind (check_error (tx_commit tx)) (\<lambda>_. Inr (s1, v))))
            (scanScopedRows (tx_select tx) spec scope (SnapshotBatchRows c) sink s))"

definition newSnapshot :: "string \<Rightarrow> lsn \<Rightarrow> visibility \<Rightarrow> snapshot" where
  "newSnapshot source l v =
     \<lparr>snap_sourceID = source, snap_cursor = \<lparr>cur_source = source, cur_lsn = l\<rparr>, snap_visibility = Some v\<rparr>"

section \<open>Snapshots against the existing slot\<close>

definition checkReplayWindow ::
    "(string \<Rightarrow> lsn option) \<Rightarrow> readerConfig \<Rightarrow> catalog \<Rightarrow> lsn \<Rightarrow> goerror + unit" where
  "checkReplayWindow ParseLSN c management l =
     rbind (lookupSlot management (SlotName c)) (\<lambda>found.
       case found of
         None \<Rightarrow> Inl (Sentinel ErrSlotNotFound)
       | Some slot \<Rightarrow>
           rbind (parseLSN ParseLSN (restartLSN slot)) (\<lambda>restart.
             if l < restart then Inl (Sentinel ErrSnapshotWindowClosed) else Inr ()))"

text \<open>What one call meets: the management connection, \<open>pg_current_wal_insert_lsn()\<close>, the snapshot
  transaction, and the catalog as the second lookup of the slot sees it.\<close>

record snapshot_env =
  se_management :: "goerror + catalog"
  se_insert_lsn :: "goerror + string"
  se_tx :: snapshot_tx
  se_catalog_after :: catalog

definition snapshot_cursor ::
    "(string \<Rightarrow> lsn option) \<Rightarrow> readerConfig \<Rightarrow> catalog \<Rightarrow> goerror + string \<Rightarrow> goerror + lsn" where
  "snapshot_cursor ParseLSN c management insert_lsn =
     rbind (lookupSlot management (SlotName c)) (\<lambda>found.
       case found of
         None \<Rightarrow> Inl (Sentinel ErrSlotNotFound)
       | Some slot \<Rightarrow>
           if \<not> usable_slot slot then Inl (Sentinel ErrSlotInvalidated)
           else rbind (classified insert_lsn) (\<lambda>cursorText.
             case ParseLSN cursorText of
               None \<Rightarrow> Inl (Errorf [Sentinel ErrPostgresServer])
             | Some l \<Rightarrow> Inr l))"

definition ReaderSnapshot ::
    "(string \<Rightarrow> lsn option) \<Rightarrow> readerConfig \<Rightarrow> snapshot_env \<Rightarrow> projectionSpec \<Rightarrow> string \<Rightarrow> 's row_sink option \<Rightarrow> shapes \<Rightarrow> 's
      \<Rightarrow> shapes \<times> (goerror + 's \<times> snapshot) option" where
  "ReaderSnapshot ParseLSN c env spec scope sink_opt registry s =
     (case sink_opt of
        None \<Rightarrow> (registry, Some (Inl (Sentinel ErrSnapshotSinkRequired)))
      | Some sink \<Rightarrow>
          (case rbind (validateSourceProjectionSpec c spec) (\<lambda>_. rbind (se_management env) (\<lambda>management.
                rbind (validatePublication c management) (\<lambda>_. Inr management))) of
             Inl err \<Rightarrow> (registry, Some (Inl err))
           | Inr management \<Rightarrow>
               (case validateProjectionSpec c management spec registry of
                  (registry', Inl err) \<Rightarrow> (registry', Some (Inl err))
                | (registry', Inr _) \<Rightarrow>
                    (registry',
                     case snapshot_cursor ParseLSN c management (se_insert_lsn env) of
                       Inl err \<Rightarrow> Some (Inl err)
                     | Inr l \<Rightarrow>
                         map_option (\<lambda>snap. rbind snap (\<lambda>(s1, v).
                             rbind (checkReplayWindow ParseLSN c (se_catalog_after env) l) (\<lambda>_.
                               Inr (s1, newSnapshot (SourceID spec) l v))))
                           (readSnapshot c (se_tx env) [] spec scope sink s)))))"

section \<open>Bootstrap\<close>

text \<open>\<open>be_create\<close> answers \<open>CREATE_REPLICATION_SLOT\<close> with the consistent point and the snapshot's name;
  \<open>be_cleanup\<close> is the error of the connection the cleanup opens, \<open>be_drop\<close> of dropping the slot.\<close>

record bootstrap_env =
  be_connect_ctx :: "goerror option"
  be_connect :: "goerror option"
  be_management :: "goerror + catalog"
  be_create :: "goerror + string \<times> string"
  be_tx :: snapshot_tx
  be_start :: "goerror option"
  be_cleanup :: "goerror option"
  be_drop :: "goerror option"

definition createBootstrapSlot ::
    "readerConfig \<Rightarrow> catalog \<Rightarrow> goerror + string \<times> string \<Rightarrow> goerror + string \<times> string" where
  "createBootstrapSlot c management create =
     rbind (lookupSlot management (SlotName c)) (\<lambda>found.
       case found of
         Some _ \<Rightarrow> Inl (Sentinel ErrBootstrapSlotExists)
       | None \<Rightarrow>
           (case create of
              Inl err \<Rightarrow> if isDuplicateObject err then Inl (Sentinel ErrBootstrapSlotExists)
                         else Inl (classifyPostgresError err)
            | Inr slot \<Rightarrow> Inr slot))"

definition dropSlot :: "goerror option \<Rightarrow> goerror option \<Rightarrow> goerror option" where
  "dropSlot cleanup drop_err =
     (case cleanup of
        Some err \<Rightarrow> Some (classifyConnectionError err)
      | None \<Rightarrow>
          (case drop_err of
             None \<Rightarrow> None
           | Some err \<Rightarrow>
               if (case as_pg_error err of Some (sqlState, _) \<Rightarrow> sqlState = ''42704'' | None \<Rightarrow> False) then None
               else Some (classifyPostgresError err)))"

text \<open>The steps after the slot exists, up to the stream the caller will own.\<close>

definition bootstrap_read ::
    "(string \<Rightarrow> lsn option) \<Rightarrow> readerConfig \<Rightarrow> bootstrap_env \<Rightarrow> projectionSpec \<Rightarrow> string \<Rightarrow> 's row_sink \<Rightarrow> string \<times> string \<Rightarrow> 's
      \<Rightarrow> (goerror + 's \<times> lsn \<times> visibility) option" where
  "bootstrap_read ParseLSN c env spec scope sink slot s =
     (case ParseLSN (fst slot) of
        None \<Rightarrow> Some (Inl (Errorf [Sentinel ErrPostgresServer]))
      | Some l \<Rightarrow>
          map_option (\<lambda>snap. rbind snap (\<lambda>(s1, v).
              case startReplication (be_start env) of
                Some err \<Rightarrow> Inl err
              | None \<Rightarrow> Inr (s1, l, v)))
            (readSnapshot c (be_tx env) (snd slot) spec scope sink s))"

text \<open>\<open>Bootstrap\<close>. Beside the reader, the registry and the result it tells whether the slot this call knows it
  created was left on the server. A slot the server created although its reply was lost is not one of those: the
  call returns the error and does not drop it. \<open>checkRetentionBudget\<close> only logs here.\<close>

definition Bootstrap ::
    "(string \<Rightarrow> lsn option) \<Rightarrow> readerConfig \<Rightarrow> bootstrap_env \<Rightarrow> projectionSpec \<Rightarrow> string \<Rightarrow> 's row_sink option
      \<Rightarrow> reader \<Rightarrow> shapes \<Rightarrow> 's \<Rightarrow> reader \<times> shapes \<times> bool \<times> (goerror + 's \<times> snapshot) option" where
  "Bootstrap ParseLSN c env spec scope sink_opt r registry s =
     (case sink_opt of
        None \<Rightarrow> (r, registry, False, Some (Inl (Sentinel ErrSnapshotSinkRequired)))
      | Some sink \<Rightarrow>
          (case rbind (validateSourceProjectionSpec c spec) (\<lambda>_.
                case connectReplication (be_connect_ctx env) (be_connect env) of
                  Some err \<Rightarrow> Inl err
                | None \<Rightarrow> rbind (be_management env) (\<lambda>management.
                    rbind (validatePublication c management) (\<lambda>_. Inr management))) of
             Inl err \<Rightarrow> (r, registry, False, Some (Inl err))
           | Inr management \<Rightarrow>
               (case validateProjectionSpec c management spec registry of
                  (registry', Inl err) \<Rightarrow> (r, registry', False, Some (Inl err))
                | (registry', Inr _) \<Rightarrow>
                    (case createBootstrapSlot c management (be_create env) of
                       Inl err \<Rightarrow> (r, registry', False, Some (Inl err))
                     | Inr slot \<Rightarrow>
                         (case bootstrap_read ParseLSN c env spec scope sink slot s of
                            None \<Rightarrow> (r, registry', True, None)
                          | Some (Inl err) \<Rightarrow>
                              (case dropSlot (be_cleanup env) (be_drop env) of
                                 None \<Rightarrow> (r, registry', False, Some (Inl err))
                               | Some cleanupErr \<Rightarrow> (r, registry', True, Some (Inl (Errorf [err]))))
                          | Some (Inr (s1, l, v)) \<Rightarrow>
                              (setConnectionState stateStreaming (r\<lparr>bootstrap_stream := Some l\<rparr>), registry', True,
                               Some (Inr (s1, newSnapshot (SourceID spec) l v))))))))"

end
