(* ===== verification/Snapshots_Correct.thy ===== *)
theory Snapshots_Correct
  imports Snapshots
begin

text \<open>
  Paged reads are complete: the page loop ends and hands the sink every row of the scope exactly once,
  in key order, in pages of bounded size. A snapshot that succeeds carries the reader's source, a
  visibility and a cursor the slot still covers; a bootstrap either hands its stream over at its cursor, or
  leaves no slot behind.
\<close>

section \<open>What PostgreSQL promises of the paged query\<close>

definition key_of :: "string list \<Rightarrow> scan_row \<Rightarrow> string list" where
  "key_of pk row = (case nextKey pk row of Inr k \<Rightarrow> k | Inl _ \<Rightarrow> [])"

definition after_key :: "(string list \<Rightarrow> string list \<Rightarrow> bool) \<Rightarrow> string list \<Rightarrow> string list option \<Rightarrow> scan_row \<Rightarrow> bool" where
  "after_key lt pk after row = (case after of None \<Rightarrow> True | Some k \<Rightarrow> lt k (key_of pk row))"

text \<open>\<open>rows\<close> are the rows of the scope in the snapshot, in the order \<open>lt\<close> of their keys, each with its key
  columns; for a positive limit, and no key or the key of one of the rows, the query returns the first of them after
  the key, as many as the limit allows.\<close>

definition page_start :: "string list \<Rightarrow> scan_row list \<Rightarrow> string list option \<Rightarrow> bool" where
  "page_start pk rows after \<longleftrightarrow> (case after of None \<Rightarrow> True | Some k \<Rightarrow> k \<in> key_of pk ` set rows)"

definition serves_scope ::
    "(scan_query \<Rightarrow> scan_answer) \<Rightarrow> (string list \<Rightarrow> string list \<Rightarrow> bool) \<Rightarrow> projectionSpec \<Rightarrow> string \<Rightarrow> scan_row list \<Rightarrow> bool" where
  "serves_scope pg_select lt spec scope rows \<longleftrightarrow>
     transp lt \<and> irreflp lt \<and> sorted_wrt (\<lambda>a b. lt (key_of (PrimaryKey spec) a) (key_of (PrimaryKey spec) b)) rows \<and>
     (\<forall>row \<in> set rows. is_ok (nextKey (PrimaryKey spec) row)) \<and>
     (\<forall>after n. 0 < n \<and> page_start (PrimaryKey spec) rows after \<longrightarrow> (\<exists>names raw.
        pg_select \<lparr>sq_table = [Schema spec, TableName spec], sq_scopeColumn = ScopeColumn spec, sq_scope = scope,
          sq_key = PrimaryKey spec, sq_after = after, sq_limit = n\<rparr> = Inr (names, raw) \<and>
        map (scan_row_of names) raw = take (nat n) (filter (after_key lt (PrimaryKey spec) after) rows)))"

lemma serves_scope_fetch:
  assumes "serves_scope pg_select lt spec scope rows" "0 < n" "page_start (PrimaryKey spec) rows after"
  shows "fetchBatch pg_select spec scope n after = Inr (take (nat n) (filter (after_key lt (PrimaryKey spec) after) rows))"
proof -
  obtain names raw where "pg_select \<lparr>sq_table = [Schema spec, TableName spec], sq_scopeColumn = ScopeColumn spec,
      sq_scope = scope, sq_key = PrimaryKey spec, sq_after = after, sq_limit = n\<rparr> = Inr (names, raw)"
    "map (scan_row_of names) raw = take (nat n) (filter (after_key lt (PrimaryKey spec) after) rows)"
    using assms unfolding serves_scope_def by blast
  then show ?thesis by (simp add: fetchBatch_def classified_def)
qed

section \<open>Pages\<close>

fun chunks :: "nat \<Rightarrow> 'a list \<Rightarrow> 'a list list" where
  "chunks n xs = (if n = 0 \<or> xs = [] then [] else take n xs # chunks n (drop n xs))"

declare chunks.simps [simp del]

lemma chunks_Nil [simp]: "chunks n [] = []"
  by (simp add: chunks.simps)

lemma chunks_facts:
  "0 < n \<Longrightarrow> concat (chunks n xs) = xs \<and> (\<forall>b \<in> set (chunks n xs). b \<noteq> [] \<and> length b \<le> n)"
proof (induction n xs rule: chunks.induct)
  case (1 n xs)
  then show ?case by (subst (1 2) chunks.simps) auto
qed

lemma filter_after_last:
  assumes "transp lt" "irreflp lt" "sorted_wrt (\<lambda>a b. lt (key_of pk a) (key_of pk b)) (xs @ [x] @ ys)"
  shows "filter (after_key lt pk (Some (key_of pk x))) (xs @ [x] @ ys) = ys"
proof -
  have below: "\<not> lt (key_of pk x) (key_of pk a)" if "a \<in> set (xs @ [x])" for a
  proof
    assume lt: "lt (key_of pk x) (key_of pk a)"
    moreover have "a = x \<or> lt (key_of pk a) (key_of pk x)" using that assms(3) by (auto simp: sorted_wrt_append)
    ultimately have "lt (key_of pk x) (key_of pk x)" using transpD [OF assms(1)] by blast
    then show False using irreflpD [OF assms(2)] by blast
  qed
  have "filter (after_key lt pk (Some (key_of pk x))) (xs @ [x]) = []"
    using below by (intro filter_False) (auto simp: after_key_def)
  moreover have "filter (after_key lt pk (Some (key_of pk x))) ys = ys"
    using assms(3) by (intro filter_True) (auto simp: after_key_def sorted_wrt_append)
  ultimately show ?thesis by (simp only: append.assoc [symmetric] filter_append append_Nil)
qed

lemma scan_pages_chunks:
  assumes fetch: "\<And>after. page_start pk rows after \<Longrightarrow> fetch after = Inr (take n (filter (after_key lt pk after) rows))"
    and order: "transp lt" "irreflp lt" "sorted_wrt (\<lambda>a b. lt (key_of pk a) (key_of pk b)) rows"
    and keys: "\<forall>row \<in> set rows. is_ok (nextKey pk row)" and n: "0 < n"
  shows "rows = pre @ post \<Longrightarrow> filter (after_key lt pk after) rows = post \<Longrightarrow> page_start pk rows after \<Longrightarrow>
    scan_pages fetch pk (int n) sink after s = Some (rfold sink s (chunks n post))"
proof (induction "length post" arbitrary: pre post after s rule: less_induct)
  case less
  have fetched: "fetch after = Inr (take n post)" using fetch [of after] less.prems(2,3) by simp
  show ?case
  proof (cases "post = []")
    case True
    then show ?thesis by (subst scan_pages.simps) (simp add: fetched chunks.simps)
  next
    case False
    let ?b = "take n post"
    have b: "?b \<noteq> []" using False n by simp
    have last: "last ?b \<in> set rows" using b less.prems(1) by (metis Un_iff in_set_takeD last_in_set set_append)
    then have key: "nextKey pk (last ?b) = Inr (key_of pk (last ?b))"
      using keys by (auto simp: key_of_def is_ok_iff)
    have chunks: "chunks n post = ?b # chunks n (drop n post)" using False n by (subst chunks.simps) simp
    have split: "rows = (pre @ butlast ?b) @ [last ?b] @ drop n post"
      using b less.prems(1) by (metis append.assoc append_butlast_last_id append_take_drop_id)
    have next_page: "filter (after_key lt pk (Some (key_of pk (last ?b)))) rows = drop n post"
      unfolding split by (rule filter_after_last [OF order(1,2)]) (use order(3) split in simp)
    have short: "int (length ?b) < int n \<Longrightarrow> drop n post = []" by simp
    have rest: "scan_pages fetch pk (int n) sink (Some (key_of pk (last ?b))) s1 = Some (rfold sink s1 (chunks n (drop n post)))" for s1
      by (rule less.hyps [OF _ _ next_page, of "pre @ ?b"]) (use False n less.prems(1) last in \<open>simp_all add: page_start_def\<close>)
    show ?thesis
      using b key rest short
      by (subst scan_pages.simps) (auto simp: fetched chunks split: sum.splits)
  qed
qed

lemma scan_chunks:
  assumes "serves_scope pg_select lt spec scope rows" "0 < batchRows"
  shows "scanScopedRows pg_select spec scope batchRows sink s = Some (rfold sink s (chunks (nat batchRows) rows))"
proof -
  have "scan_pages (fetchBatch pg_select spec scope batchRows) (PrimaryKey spec) (int (nat batchRows)) sink None s =
      Some (rfold sink s (chunks (nat batchRows) rows))"
    by (rule scan_pages_chunks [where lt = lt and rows = rows and pre = "[]"])
      (use assms in \<open>simp_all add: serves_scope_fetch [OF assms] serves_scope_def after_key_def page_start_def\<close>)
  with assms(2) show ?thesis by (simp add: scanScopedRows_def)
qed

lemma scan_pages_complete:
  assumes "serves_scope pg_select lt spec scope rows" "0 < batchRows"
  shows "\<exists>pages. scanScopedRows pg_select spec scope batchRows sink s = Some (rfold sink s pages) \<and>
    concat pages = rows \<and> (\<forall>page \<in> set pages. page \<noteq> [] \<and> int (length page) \<le> batchRows)"
  using scan_chunks [OF assms] chunks_facts [of "nat batchRows" rows] assms(2)
  by (intro exI [of _ "chunks (nat batchRows) rows"]) (auto simp: le_nat_iff)

text \<open>C17: A snapshot read ends and is complete. For any scope PostgreSQL serves in key order, the page loop
  terminates, and the row sink is given the scope's rows, each exactly once and in order, in non-empty
  pages of at most \<open>batchRows\<close>; it stops early only with the sink's own error.\<close>

theorem scan_complete:
  assumes "serves_scope pg_select lt spec scope rows" "0 < batchRows"
  shows "\<exists>pages. scanScopedRows pg_select spec scope batchRows sink s = Some (rfold sink s pages) \<and>
    concat pages = rows \<and> (\<forall>page \<in> set pages. page \<noteq> [] \<and> int (length page) \<le> batchRows)"
  using scan_pages_complete [OF assms] .

section \<open>Snapshots\<close>

lemma readSnapshot_complete:
  assumes "serves_scope (tx_select tx) lt spec scope rows" "0 < SnapshotBatchRows c"
  shows "\<exists>res. readSnapshot c tx imported spec scope sink s = Some res \<and>
    (\<forall>s1 v. res = Inr (s1, v) \<longrightarrow> wf_visibility v \<and>
      (\<exists>pages. rfold sink s pages = Inr s1 \<and> concat pages = rows \<and>
        (\<forall>page \<in> set pages. page \<noteq> [] \<and> int (length page) \<le> SnapshotBatchRows c)))"
proof (cases "snapshot_visibility tx imported")
  case (Inl err)
  then show ?thesis by (simp add: readSnapshot_def)
next
  case (Inr v)
  then have "wf_visibility v"
    by (auto simp: snapshot_visibility_def rbind_Inr_iff intro: parseVisibility_wf)
  moreover obtain pages where "scanScopedRows (tx_select tx) spec scope (SnapshotBatchRows c) sink s = Some (rfold sink s pages)"
    "concat pages = rows" "\<forall>page \<in> set pages. page \<noteq> [] \<and> int (length page) \<le> SnapshotBatchRows c"
    using scan_pages_complete [OF assms, of sink s] by (elim exE conjE)
  ultimately show ?thesis using Inr by (auto simp: readSnapshot_def rbind_Inr_iff)
qed

lemma checkReplayWindow_Inr:
  assumes "checkReplayWindow ParseLSN c management l = Inr u"
  shows "\<exists>slot restart. pg_replication_slots management (SlotName c) = Inr (Some slot) \<and>
    ParseLSN (restartLSN slot) = Some restart \<and> restart \<le> l"
proof -
  obtain found where found: "pg_replication_slots management (SlotName c) = Inr found"
    using assms by (auto simp: checkReplayWindow_def lookupSlot_def rbind_Inr_iff)
  with assms obtain slot where slot: "found = Some slot"
    by (cases found) (auto simp: checkReplayWindow_def lookupSlot_def classified_def)
  with assms found show ?thesis
    by (cases "ParseLSN (restartLSN slot)")
      (auto simp: checkReplayWindow_def lookupSlot_def classified_def parseLSN_def split: if_splits)
qed

lemma validateSource_Inr: "validateSourceProjectionSpec c spec = Inr u \<Longrightarrow> SourceID spec = rd_SourceID c"
  by (auto simp: validateSourceProjectionSpec_def rbind_Inr_iff split: if_splits)

lemma validateProjectionSpec_recorded:
  assumes "validateProjectionSpec c management spec registry = (registry', Inr u)"
  shows "\<exists>b. baselineByTable registry' (Schema spec @ ''.'' @ TableName spec) = Some b"
proof -
  obtain shape where shape: "projection_shape_checked c management spec = Inr shape" "registry' = recordShape registry shape"
    using assms by (rule validateProjectionSpec_Inr)
  have "rs_table shape = Schema spec @ ''.'' @ TableName spec"
    by (rule projectionShape_Inr(1) [OF projection_shape_checked_Inr(1) [OF shape(1)]])
  with shapes_registry.recorded [of registry shape] shape(2) show ?thesis by auto
qed

lemma ReaderSnapshot_returns:
  assumes "ReaderSnapshot ParseLSN c env spec scope (Some sink) registry s = (registry', result)"
    and "readSnapshot c (se_tx env) [] spec scope sink s = Some res"
  shows "\<exists>res'. result = Some res'"
  using assms by (auto simp: ReaderSnapshot_def split: sum.splits prod.splits)

lemma ReaderSnapshot_Inr:
  assumes "ReaderSnapshot ParseLSN c env spec scope (Some sink) registry s = (registry', Some (Inr (s1, snap)))"
  shows "\<exists>management l v. validateSourceProjectionSpec c spec = Inr () \<and>
    validateProjectionSpec c management spec registry = (registry', Inr ()) \<and>
    readSnapshot c (se_tx env) [] spec scope sink s = Some (Inr (s1, v)) \<and>
    checkReplayWindow ParseLSN c (se_catalog_after env) l = Inr () \<and> snap = newSnapshot (SourceID spec) l v"
  using assms by (auto simp: ReaderSnapshot_def rbind_Inr_iff split: sum.splits prod.splits)

text \<open>C18: A snapshot against the slot is sound, and the call returns. If it succeeds, the spec was validated
  and its table's shape is recorded; the sink was given every row of the scope once and in order; the
  snapshot carries the reader's source, a well-formed visibility, and a cursor of that source at or
  after the oldest position the slot still retained once the rows were read, so that a stream resumed at
  the cursor misses nothing.\<close>

theorem snapshot_sound:
  assumes "wf_readerConfig c" "serves_scope (tx_select (se_tx env)) lt spec scope rows"
    and "ReaderSnapshot ParseLSN c env spec scope (Some sink) registry s = (registry', result)"
  shows "\<exists>res. result = Some res \<and>
    (\<forall>s1 snap. res = Inr (s1, snap) \<longrightarrow>
      (\<exists>pages. rfold sink s pages = Inr s1 \<and> concat pages = rows \<and>
         (\<forall>page \<in> set pages. page \<noteq> [] \<and> int (length page) \<le> SnapshotBatchRows c)) \<and>
      baselineByTable registry' (Schema spec @ ''.'' @ TableName spec) \<noteq> None \<and>
      snap_sourceID snap = rd_SourceID c \<and> cur_source (snap_cursor snap) = rd_SourceID c \<and>
      (\<exists>v. snap_visibility snap = Some v \<and> wf_visibility v) \<and>
      (\<exists>slot restart. pg_replication_slots (se_catalog_after env) (SlotName c) = Inr (Some slot) \<and>
         ParseLSN (restartLSN slot) = Some restart \<and> restart \<le> cur_lsn (snap_cursor snap)))"
proof -
  have rows: "0 < SnapshotBatchRows c" using assms(1) by (simp add: wf_readerConfig_def)
  obtain res where res: "readSnapshot c (se_tx env) [] spec scope sink s = Some res"
    "\<forall>s1 v. res = Inr (s1, v) \<longrightarrow> wf_visibility v \<and>
      (\<exists>pages. rfold sink s pages = Inr s1 \<and> concat pages = rows \<and>
        (\<forall>page \<in> set pages. page \<noteq> [] \<and> int (length page) \<le> SnapshotBatchRows c))"
    using readSnapshot_complete [OF assms(2) rows, of "[]" sink s] by (elim exE conjE)
  obtain res' where result: "result = Some res'"
    using ReaderSnapshot_returns [OF assms(3) res(1)] by blast
  show ?thesis
  proof (intro exI [of _ res'] conjI allI impI result)
    fix s1 snap assume "res' = Inr (s1, snap)"
    then obtain management l v where ok: "validateSourceProjectionSpec c spec = Inr ()"
      "validateProjectionSpec c management spec registry = (registry', Inr ())" "res = Inr (s1, v)"
      "checkReplayWindow ParseLSN c (se_catalog_after env) l = Inr ()" "snap = newSnapshot (SourceID spec) l v"
      using ReaderSnapshot_Inr [of ParseLSN c env spec scope sink registry s registry' s1 snap] assms(3) result res(1) by auto
    then show "snap_sourceID snap = rd_SourceID c" "cur_source (snap_cursor snap) = rd_SourceID c"
      using validateSource_Inr [OF ok(1)] by (simp_all add: newSnapshot_def)
    show "\<exists>pages. rfold sink s pages = Inr s1 \<and> concat pages = rows \<and>
         (\<forall>page \<in> set pages. page \<noteq> [] \<and> int (length page) \<le> SnapshotBatchRows c)"
      "\<exists>v. snap_visibility snap = Some v \<and> wf_visibility v"
      using res(2) ok(3,5) by (simp_all add: newSnapshot_def)
    show "baselineByTable registry' (Schema spec @ ''.'' @ TableName spec) \<noteq> None"
      using validateProjectionSpec_recorded [OF ok(2)] by auto
    show "\<exists>slot restart. pg_replication_slots (se_catalog_after env) (SlotName c) = Inr (Some slot) \<and>
         ParseLSN (restartLSN slot) = Some restart \<and> restart \<le> cur_lsn (snap_cursor snap)"
      using checkReplayWindow_Inr [OF ok(4)] ok(5) by (simp add: newSnapshot_def)
  qed
qed

section \<open>Bootstrap\<close>

text \<open>The stream a bootstrap left is the one the next \<open>read\<close> takes, once.\<close>

lemma read_takes_bootstrap:
  assumes "bootstrap_stream r = Some l"
  shows "\<exists>r1. bootstrap_stream r1 = None \<and>
    read ParseLSN P c sink tn r h =
      (case receive P c sink l (tn_arrivals tn) r1 h of (st, err) \<Rightarrow> (conn_reader st, conn_sink st, err))"
proof -
  let ?r1 = "setConnectionState stateStreaming (r\<lparr>bootstrap_stream := None\<rparr>)"
  have "bootstrap_stream ?r1 = None" by (simp add: setConnectionState_def)
  moreover have "read ParseLSN P c sink tn r h =
      (case receive P c sink l (tn_arrivals tn) ?r1 h of (st, err) \<Rightarrow> (conn_reader st, conn_sink st, err))"
    using assms by (simp add: read_def read_stream_def takeBootstrapStream_def Let_def)
  ultimately show ?thesis by blast
qed

lemma Bootstrap_Inr:
  assumes "Bootstrap ParseLSN c env spec scope (Some sink) r registry s = (r', registry', left_behind, Some (Inr (s1, snap)))"
  shows "\<exists>management l v. validateSourceProjectionSpec c spec = Inr () \<and> be_management env = Inr management \<and>
    validateProjectionSpec c management spec registry = (registry', Inr ()) \<and>
    (\<exists>slot. createBootstrapSlot c management (be_create env) = Inr slot) \<and> left_behind \<and>
    r' = setConnectionState stateStreaming (r\<lparr>bootstrap_stream := Some l\<rparr>) \<and> snap = newSnapshot (SourceID spec) l v"
  using assms
  by (auto simp: Bootstrap_def rbind_Inr_iff split: sum.splits prod.splits option.splits)

lemma Bootstrap_Inl:
  assumes "Bootstrap ParseLSN c env spec scope (Some sink) r registry s = (r', registry', left_behind, Some (Inl err))"
  shows "r' = r \<and> (left_behind \<longrightarrow> dropSlot (be_cleanup env) (be_drop env) \<noteq> None)"
  using assms
  by (auto simp: Bootstrap_def split: sum.splits prod.splits option.splits)

lemma createBootstrapSlot_Inr:
  assumes "createBootstrapSlot c management create = Inr slot"
  shows "pg_replication_slots management (SlotName c) = Inr None"
proof -
  obtain found where "pg_replication_slots management (SlotName c) = Inr found"
    using assms by (auto simp: createBootstrapSlot_def lookupSlot_def rbind_Inr_iff)
  with assms show ?thesis
    by (cases found) (auto simp: createBootstrapSlot_def lookupSlot_def classified_def)
qed

text \<open>C19: Bootstrap is all or nothing. When it succeeds, the slot did not exist before and is kept, the
  snapshot's cursor is of the reader's source, the table's shape is recorded, and the very next \<open>read\<close> streams the
  connection it left, from exactly that cursor. When it fails, the reader is unchanged, so no stream is
  handed over, and the slot it created, as far as PostgreSQL's reply told it, is gone again unless dropping it failed
  too.\<close>

theorem bootstrap_all_or_nothing:
  assumes "Bootstrap ParseLSN c env spec scope (Some sink) r registry s = (r', registry', left_behind, Some res)"
  shows "case res of
      Inl err \<Rightarrow> r' = r \<and> (left_behind \<longrightarrow> dropSlot (be_cleanup env) (be_drop env) \<noteq> None)
    | Inr (s1, snap) \<Rightarrow>
        left_behind \<and> cur_source (snap_cursor snap) = rd_SourceID c \<and>
        (\<exists>management. be_management env = Inr management \<and> pg_replication_slots management (SlotName c) = Inr None) \<and>
        baselineByTable registry' (Schema spec @ ''.'' @ TableName spec) \<noteq> None \<and>
        (\<forall>P txsink tn h. \<exists>r1. bootstrap_stream r1 = None \<and>
           read ParseLSN P c txsink tn r' h =
             (case receive P c txsink (cur_lsn (snap_cursor snap)) (tn_arrivals tn) r1 h of
                (st, err) \<Rightarrow> (conn_reader st, conn_sink st, err)))"
proof (cases res)
  case (Inl err)
  then show ?thesis using assms by (simp add: Bootstrap_Inl)
next
  case (Inr x)
  obtain s1 snap where x: "x = (s1, snap)" by (cases x)
  obtain management l v slot where ok: "validateSourceProjectionSpec c spec = Inr ()" "be_management env = Inr management"
    "validateProjectionSpec c management spec registry = (registry', Inr ())"
    "createBootstrapSlot c management (be_create env) = Inr slot" "left_behind"
    "r' = setConnectionState stateStreaming (r\<lparr>bootstrap_stream := Some l\<rparr>)" "snap = newSnapshot (SourceID spec) l v"
    using Bootstrap_Inr [OF assms [unfolded Inr x]] by (elim exE conjE)
  have "bootstrap_stream r' = Some l" by (simp add: ok(6) setConnectionState_def)
  note read = read_takes_bootstrap [OF this]
  from ok(1,2,5,7) validateSource_Inr [OF ok(1)] validateProjectionSpec_recorded [OF ok(3)]
    createBootstrapSlot_Inr [OF ok(4)]
  show ?thesis by (auto simp: Inr x newSnapshot_def intro: read)
qed

section \<open>A source with three rows\<close>

text \<open>PostgreSQL's side of the paged query for a list of rows, with text keys in byte order.\<close>

definition table_select :: "string list \<Rightarrow> string option list list \<Rightarrow> scan_query \<Rightarrow> scan_answer" where
  "table_select names raw q =
     Inr (names, take (nat (sq_limit q)) (filter (\<lambda>vals. after_key (<) (sq_key q) (sq_after q) (scan_row_of names vals)) raw))"

lemma table_select_serves:
  assumes "sorted_wrt (\<lambda>a b. key_of (PrimaryKey spec) a < key_of (PrimaryKey spec) b) (map (scan_row_of names) raw)"
    and "\<forall>vals \<in> set raw. is_ok (nextKey (PrimaryKey spec) (scan_row_of names vals))"
  shows "serves_scope (table_select names raw) (<) spec scope (map (scan_row_of names) raw)"
  using assms by (auto simp: serves_scope_def table_select_def filter_map comp_def take_map)

definition notes_spec :: projectionSpec where
  "notes_spec = \<lparr>SourceID = ''src'', Schema = ''public'', TableName = ''notes'', ScopeColumn = ''tenant'',
     PrimaryKey = [''tenant'', ''id'']\<rparr>"

definition notes_raw :: "string option list list" where
  "notes_raw = [[Some ''acme'', Some ''1'', None], [Some ''acme'', Some ''2'', Some ''b''], [Some ''acme'', Some ''3'', None]]"

definition notes_select :: "scan_query \<Rightarrow> scan_answer" where
  "notes_select = table_select [''tenant'', ''id'', ''body''] notes_raw"

definition notes_rows :: "scan_row list" where
  "notes_rows = map (scan_row_of [''tenant'', ''id'', ''body'']) notes_raw"

lemma notes_source: "SourceID notes_spec = ''src''"
  by (simp add: notes_spec_def)

lemma notes_serves: "serves_scope notes_select (<) notes_spec ''acme'' notes_rows"
  unfolding notes_select_def notes_rows_def by (rule table_select_serves) code_simp+

definition collect :: "scan_row list list row_sink" where
  "collect pages page = Inr (pages @ [page])"

theorem scan_complete_witness:
  "\<exists>pages. scanScopedRows notes_select notes_spec ''acme'' 2 collect [] = Some (rfold collect [] pages) \<and>
     concat pages = notes_rows"
  using scan_complete [OF notes_serves, of 2 collect "[]"] by auto

definition notes_config :: readerConfig where
  "notes_config = basic_config\<lparr>SnapshotBatchRows := 2\<rparr>"

lemma notes_config_wf: "wf_readerConfig notes_config"
  using basic_config_wf(1) by (simp add: notes_config_def wf_readerConfig_def)

definition notes_lsn :: "string \<Rightarrow> lsn option" where
  "notes_lsn txt0 = (if txt0 = ''0/A'' then Some 10 else if txt0 = ''0/5'' then Some 5 else None)"

definition notes_catalog :: "slotState option \<Rightarrow> catalog" where
  "notes_catalog slot =
     \<lparr>pg_publication = (\<lambda>_. Inr (Some (True, True, True, False))),
      pg_table = (\<lambda>_ _. Inr (True, True)),
      pg_primary_key = (\<lambda>_. Inr [''tenant'', ''id'']),
      pg_publication_tables = (\<lambda>_ _ _. Inr True),
      pg_class_published = (\<lambda>_ _ _ _. Inr (7, ''d'', [''tenant'', ''id'', ''body''])),
      pg_attributes = (\<lambda>_ _. Inr [(''tenant'', 25), (''id'', 25), (''body'', 25)]),
      pg_replident_index = (\<lambda>_. Inr []),
      pg_replication_slots = (\<lambda>_. Inr slot)\<rparr>"

definition notes_slot :: slotState where
  "notes_slot = \<lparr>slotType = ''logical'', plugin = ''pgoutput'', slot_active = True, resumeLSN = ''0/5'', restartLSN = ''0/5''\<rparr>"

definition notes_tx :: snapshot_tx where
  "notes_tx = \<lparr>tx_begin = None, tx_set_snapshot = None, tx_current_snapshot = Inr ''7:9:8'',
     tx_select = notes_select, tx_commit = None\<rparr>"

definition notes_env :: snapshot_env where
  "notes_env = \<lparr>se_management = Inr (notes_catalog (Some notes_slot)), se_insert_lsn = Inr ''0/A'', se_tx = notes_tx,
     se_catalog_after = notes_catalog (Some notes_slot)\<rparr>"

definition notes_snapshot :: snapshot where
  "notes_snapshot = newSnapshot ''src'' 10 \<lparr>xmin = 7, xmax = 9, inProgress = [8]\<rparr>"

lemma notes_visibility:
  "snapshot_visibility notes_tx [] = Inr \<lparr>xmin = 7, xmax = 9, inProgress = [8]\<rparr>"
  "snapshot_visibility notes_tx ''00000003-0000001B-1'' = Inr \<lparr>xmin = 7, xmax = 9, inProgress = [8]\<rparr>"
proof -
  have 1: "parseVisibility ''7:9:8'' = Inr \<lparr>xmin = 7, xmax = 9, inProgress = [8]\<rparr>"
    by (simp add: parseVisibility_def ParseUint_def is_digit_def digits_value_def)
  have 2: "exportedSnapshotName ''00000003-0000001B-1''" by code_simp
  show "snapshot_visibility notes_tx [] = Inr \<lparr>xmin = 7, xmax = 9, inProgress = [8]\<rparr>"
    "snapshot_visibility notes_tx ''00000003-0000001B-1'' = Inr \<lparr>xmin = 7, xmax = 9, inProgress = [8]\<rparr>"
    by (simp_all add: snapshot_visibility_def notes_tx_def check_error_def classified_def 1 2)
qed

lemma notes_scan:
  "scanScopedRows notes_select notes_spec ''acme'' 2 collect [] = Some (Inr [take 2 notes_rows, drop 2 notes_rows])"
proof -
  have "rfold collect [] (chunks (nat 2) notes_rows) = Inr [take 2 notes_rows, drop 2 notes_rows]" by code_simp
  with scan_chunks [OF notes_serves, of 2 collect "[]"] show ?thesis by simp
qed

lemma notes_checks:
  "validateSourceProjectionSpec notes_config notes_spec = Inr ()"
  "validatePublication notes_config (notes_catalog slot) = Inr ()"
  "snd (validateProjectionSpec notes_config (notes_catalog slot) notes_spec newShapes) = Inr ()"
  "snapshot_cursor notes_lsn notes_config (notes_catalog (Some notes_slot)) (Inr ''0/A'') = Inr 10"
  "checkReplayWindow notes_lsn notes_config (notes_catalog (Some notes_slot)) 10 = Inr ()"
  "createBootstrapSlot notes_config (notes_catalog None) (Inr a) = Inr a"
  by code_simp+

lemma notes_read:
  "readSnapshot notes_config notes_tx [] notes_spec ''acme'' collect [] =
     Some (Inr ([take 2 notes_rows, drop 2 notes_rows], \<lparr>xmin = 7, xmax = 9, inProgress = [8]\<rparr>))"
  "readSnapshot notes_config notes_tx ''00000003-0000001B-1'' notes_spec ''acme'' collect [] =
     Some (Inr ([take 2 notes_rows, drop 2 notes_rows], \<lparr>xmin = 7, xmax = 9, inProgress = [8]\<rparr>))"
proof -
  have "SnapshotBatchRows notes_config = 2" "tx_select notes_tx = notes_select" "tx_commit notes_tx = None"
    by (simp_all add: notes_config_def notes_tx_def)
  then show "readSnapshot notes_config notes_tx [] notes_spec ''acme'' collect [] =
     Some (Inr ([take 2 notes_rows, drop 2 notes_rows], \<lparr>xmin = 7, xmax = 9, inProgress = [8]\<rparr>))"
  "readSnapshot notes_config notes_tx ''00000003-0000001B-1'' notes_spec ''acme'' collect [] =
     Some (Inr ([take 2 notes_rows, drop 2 notes_rows], \<lparr>xmin = 7, xmax = 9, inProgress = [8]\<rparr>))"
    by (simp_all add: readSnapshot_def notes_visibility notes_scan check_error_def)
qed

theorem snapshot_sound_witness:
  "snd (ReaderSnapshot notes_lsn notes_config notes_env notes_spec ''acme'' (Some collect) newShapes []) =
     Some (Inr ([take 2 notes_rows, drop 2 notes_rows], notes_snapshot)) \<and> 5 \<le> cur_lsn (snap_cursor notes_snapshot)"
proof -
  let ?run = "ReaderSnapshot notes_lsn notes_config notes_env notes_spec ''acme'' (Some collect) newShapes []"
  have run: "snd ?run = Some (Inr ([take 2 notes_rows, drop 2 notes_rows], notes_snapshot))"
  proof (cases "validateProjectionSpec notes_config (notes_catalog (Some notes_slot)) notes_spec newShapes")
    case (Pair registry' res)
    with notes_checks(3) [of "Some notes_slot"] have "res = Inr ()" by simp
    with Pair show ?thesis
      by (simp add: ReaderSnapshot_def notes_checks notes_env_def notes_read(1) notes_snapshot_def notes_source)
  qed
  have served: "serves_scope (tx_select (se_tx notes_env)) (<) notes_spec ''acme'' notes_rows"
    using notes_serves by (simp add: notes_env_def notes_tx_def)
  have "?run = (fst ?run, snd ?run)" by simp
  from snapshot_sound [OF notes_config_wf served this] run have
    "\<exists>slot restart. pg_replication_slots (se_catalog_after notes_env) (SlotName notes_config) = Inr (Some slot) \<and>
       notes_lsn (restartLSN slot) = Some restart \<and> restart \<le> cur_lsn (snap_cursor notes_snapshot)" by simp
  then have "5 \<le> cur_lsn (snap_cursor notes_snapshot)"
    by (auto simp: notes_env_def notes_catalog_def notes_slot_def notes_lsn_def)
  with run show ?thesis by simp
qed

definition notes_bootstrap :: "goerror option \<Rightarrow> bootstrap_env" where
  "notes_bootstrap start_err =
     \<lparr>be_connect_ctx = None, be_connect = None, be_management = Inr (notes_catalog None), be_create = Inr (''0/A'', ''00000003-0000001B-1''),
      be_tx = notes_tx, be_start = start_err, be_cleanup = None, be_drop = None\<rparr>"

lemma notes_bootstrap_result:
  "snd (snd (snd (Bootstrap notes_lsn notes_config (notes_bootstrap e) notes_spec ''acme'' (Some collect) newReader newShapes []))) =
     Some (case e of None \<Rightarrow> Inr ([take 2 notes_rows, drop 2 notes_rows], notes_snapshot) | Some x \<Rightarrow> Inl (classifyPostgresError x))"
proof (cases "validateProjectionSpec notes_config (notes_catalog None) notes_spec newShapes")
  case (Pair registry' res)
  with notes_checks(3) [of None] have res: "res = Inr ()" by simp
  have "notes_lsn ''0/A'' = Some 10" by (simp add: notes_lsn_def)
  with Pair res show ?thesis
    by (cases e) (simp_all add: Bootstrap_def notes_checks notes_bootstrap_def bootstrap_read_def notes_read(2)
        startReplication_def connectReplication_def dropSlot_def notes_snapshot_def notes_source newSnapshot_def)
qed

theorem bootstrap_all_or_nothing_witness:
  "fst (snd (snd (Bootstrap notes_lsn notes_config (notes_bootstrap None) notes_spec ''acme'' (Some collect) newReader newShapes []))) \<and>
   fst (Bootstrap notes_lsn notes_config (notes_bootstrap (Some (Errorf []))) notes_spec ''acme'' (Some collect) newReader newShapes []) = newReader"
proof -
  let ?b = "\<lambda>e. Bootstrap notes_lsn notes_config (notes_bootstrap e) notes_spec ''acme'' (Some collect) newReader newShapes []"
  have run: "?b e = (fst (?b e), fst (snd (?b e)), fst (snd (snd (?b e))), snd (snd (snd (?b e))))" for e by simp
  have "fst (snd (snd (?b None)))"
    using bootstrap_all_or_nothing [OF run [of None, unfolded notes_bootstrap_result]]
    unfolding option.case sum.case prod.case by (rule conjunct1)
  moreover have "fst (?b (Some (Errorf []))) = newReader"
    using bootstrap_all_or_nothing [OF run [of "Some (Errorf [])", unfolded notes_bootstrap_result]]
    unfolding option.case sum.case by (rule conjunct1)
  ultimately show ?thesis by simp
qed

end
