(* ===== verification/Source.thy ===== *)
theory Source
  imports Errors
begin

text \<open>
  The source's lifecycle (\<open>internal/cdc/source.go\<close>): \<open>Start\<close>, \<open>Snapshot\<close>, the single \<open>Run\<close> goroutine and
  the goroutine that waits for the source's context.

  The reader's primitives are function fields of \<open>Source\<close>; here they act on a world \<open>'w\<close> of their own.
  Every operation holds the mutex while it decides, so each is one step of the state machine; the
  read of a later \<open>Snapshot\<close> runs after the mutex is released and does not touch the lifecycle. The
  fields \<open>src_runs\<close>, \<open>src_run_live\<close>, \<open>src_run_result\<close>, \<open>src_watching\<close>, \<open>src_ctx\<close> and \<open>src_bootstraps\<close> keep what the
  goroutines are doing and what happened; the code has no such fields.
\<close>

section \<open>State and operations\<close>

record 'w source =
  src_world :: 'w
  src_started :: bool
  src_streaming :: bool
  src_stopped :: bool
  src_closed :: nat
  src_err :: "goerror option"
  src_runs :: nat
  src_run_live :: bool
  src_run_result :: "goerror option option"
  src_watching :: bool
  src_ctx :: bool
  src_bootstraps :: nat

definition NewSource_state :: "'w \<Rightarrow> 'w source" where
  "NewSource_state w =
     \<lparr>src_world = w, src_started = False, src_streaming = False, src_stopped = False, src_closed = 0,
      src_err = None, src_runs = 0, src_run_live = False, src_run_result = None, src_watching = False, src_ctx = False,
      src_bootstraps = 0\<rparr>"

text \<open>\<open>stopOnce.Do\<close>: the stop happens once.\<close>

definition stopLocked :: "goerror option \<Rightarrow> 'w source \<Rightarrow> 'w source" where
  "stopLocked err s =
     (if src_stopped s then s
      else s\<lparr>src_stopped := True, src_err := err, src_closed := src_closed s + 1\<rparr>)"

definition startRunLocked :: "'w source \<Rightarrow> 'w source" where
  "startRunLocked s =
     (if src_streaming s then s
      else s\<lparr>src_streaming := True, src_runs := src_runs s + 1, src_run_live := True\<rparr>)"

definition readyLocked :: "'w source \<Rightarrow> goerror option" where
  "readyLocked s =
     (if \<not> src_started s then Some (Sentinel ErrSourceNotStarted)
      else if src_stopped s then Some (Sentinel ErrSourceStopped)
      else None)"

text \<open>\<open>exists\<close> is what \<open>slotExists\<close> answered.\<close>

definition Start :: "goerror + bool \<Rightarrow> 'w source \<Rightarrow> 'w source \<times> goerror option" where
  "Start exists s =
     (if src_started s then (s, Some (Sentinel ErrSourceAlreadyStarted))
      else case exists of
        Inl err \<Rightarrow> (s, Some err)
      | Inr found \<Rightarrow>
          (let s1 = s\<lparr>src_started := True, src_watching := True\<rparr>
           in (if found then startRunLocked s1 else s1, None)))"

type_synonym ('w, 'r) primitive = "'w \<Rightarrow> 'w \<times> (goerror + 'r)"

definition run_snapshot :: "('w, 'r) primitive \<Rightarrow> 'w source \<Rightarrow> 'w source \<times> (goerror + 'r)" where
  "run_snapshot snapshot s = (case snapshot (src_world s) of (w, res) \<Rightarrow> (s\<lparr>src_world := w\<rparr>, res))"

definition SourceSnapshot ::
    "('w, 'r) primitive \<Rightarrow> ('w, 'r) primitive \<Rightarrow> 'w source \<Rightarrow> 'w source \<times> (goerror + 'r)" where
  "SourceSnapshot bootstrap snapshot s =
     (case readyLocked s of
        Some err \<Rightarrow> (s, Inl err)
      | None \<Rightarrow>
          if \<not> src_streaming s then
            (case bootstrap (src_world s) of
               (w, Inr r) \<Rightarrow>
                 (startRunLocked (s\<lparr>src_world := w, src_bootstraps := src_bootstraps s + 1\<rparr>), Inr r)
             | (w, Inl err) \<Rightarrow>
                 if \<not> errors_is err ErrBootstrapSlotExists then (s\<lparr>src_world := w\<rparr>, Inl err)
                 else run_snapshot snapshot (startRunLocked (s\<lparr>src_world := w\<rparr>)))
          else run_snapshot snapshot s)"

text \<open>\<open>Err\<close> once \<open>Done\<close> is closed.\<close>

definition Err :: "'w source \<Rightarrow> goerror option" where
  "Err s = (if 0 < src_closed s then src_err s else None)"

section \<open>Goroutines\<close>

text \<open>The \<open>Run\<close> goroutine when \<open>run\<close> has returned, and later, when it has the mutex and stops the source: in between it
  still lives, and other calls may run; the waiting goroutine of \<open>Start\<close> after its context is done; and the cancellation itself.\<close>

definition run_returned :: "goerror option \<Rightarrow> 'w source \<Rightarrow> 'w source" where
  "run_returned err s = s\<lparr>src_run_result := Some err\<rparr>"

definition run_stopped :: "goerror option \<Rightarrow> 'w source \<Rightarrow> 'w source" where
  "run_stopped err s = stopLocked err (s\<lparr>src_run_live := False, src_run_result := None\<rparr>)"

definition ctx_watched :: "'w source \<Rightarrow> 'w source" where
  "ctx_watched s =
     (let s1 = s\<lparr>src_watching := False\<rparr>
      in if \<not> src_streaming s1 then stopLocked None s1 else s1)"

datatype ('w, 'r) source_action =
    CallStart "goerror + bool"
  | CallSnapshot "('w, 'r) primitive" "('w, 'r) primitive"
  | RunReturns "goerror option"
  | RunStops
  | CtxWatcher
  | CtxCancelled

inductive source_step :: "'w source \<Rightarrow> ('w, 'r) source_action \<Rightarrow> 'w source \<Rightarrow> bool" where
  start: "source_step s (CallStart exists) (fst (Start exists s))"
| snapshot: "source_step s (CallSnapshot b q) (fst (SourceSnapshot b q s))"
| returns: "src_run_live s \<Longrightarrow> src_run_result s = None \<Longrightarrow> source_step s (RunReturns err) (run_returned err s)"
| stops: "src_run_result s = Some err \<Longrightarrow> source_step s RunStops (run_stopped err s)"
| watcher: "src_watching s \<Longrightarrow> src_ctx s \<Longrightarrow> source_step s CtxWatcher (ctx_watched s)"
| cancelled: "src_started s \<Longrightarrow> source_step s CtxCancelled (s\<lparr>src_ctx := True\<rparr>)"

inductive_cases source_stepE [elim]: "source_step s a s'"

inductive source_reachable :: "'w \<Rightarrow> ('w, 'r) source_action list \<Rightarrow> 'w source \<Rightarrow> bool" for w where
  init: "source_reachable w [] (NewSource_state w)"
| step: "source_reachable w as s \<Longrightarrow> source_step s a s' \<Longrightarrow> source_reachable w (as @ [a]) s'"

section \<open>The invariant\<close>

definition source_ok :: "'w source \<Rightarrow> bool" where
  "source_ok s \<longleftrightarrow>
     src_runs s = (if src_streaming s then 1 else 0) \<and>
     src_closed s = (if src_stopped s then 1 else 0) \<and>
     (src_run_live s \<longleftrightarrow> src_streaming s \<and> \<not> src_stopped s) \<and> (src_run_result s \<noteq> None \<longrightarrow> src_run_live s) \<and>
     (src_streaming s \<or> src_stopped s \<or> src_ctx s \<or> src_watching s \<longrightarrow> src_started s) \<and>
     (src_started s \<and> \<not> src_streaming s \<and> \<not> src_stopped s \<longrightarrow> src_watching s) \<and>
     (src_stopped s \<and> \<not> src_streaming s \<longrightarrow> src_ctx s \<and> src_err s = None) \<and>
     src_bootstraps s \<le> (if src_streaming s then 1 else 0)"

lemmas source_defs = stopLocked_def startRunLocked_def readyLocked_def run_snapshot_def

lemma Start_ok: "source_ok s \<Longrightarrow> source_ok (fst (Start exists s))"
  by (auto simp: source_ok_def Start_def source_defs Let_def split: sum.splits)

lemma SourceSnapshot_ok: "source_ok s \<Longrightarrow> source_ok (fst (SourceSnapshot b q s))"
  by (auto simp: source_ok_def SourceSnapshot_def source_defs split: sum.splits prod.splits option.splits if_splits)

lemma run_returned_ok: "source_ok s \<Longrightarrow> src_run_live s \<Longrightarrow> source_ok (run_returned err s)"
  by (auto simp: source_ok_def run_returned_def)

lemma run_stopped_ok: "source_ok s \<Longrightarrow> src_run_result s = Some err \<Longrightarrow> source_ok (run_stopped err s)"
  by (auto simp: source_ok_def run_stopped_def source_defs)

lemma ctx_watched_ok: "source_ok s \<Longrightarrow> src_ctx s \<Longrightarrow> source_ok (ctx_watched s)"
  by (auto simp: source_ok_def ctx_watched_def source_defs Let_def)

lemma source_step_ok: "source_step s a s' \<Longrightarrow> source_ok s \<Longrightarrow> source_ok s'"
  by (erule source_stepE)
    (auto simp: Start_ok SourceSnapshot_ok run_returned_ok run_stopped_ok ctx_watched_ok, auto simp: source_ok_def)

lemma source_reachable_ok: "source_reachable w as s \<Longrightarrow> source_ok s"
proof (induction rule: source_reachable.induct)
  case init
  show ?case by (simp add: source_ok_def NewSource_state_def)
next
  case step
  then show ?case by (blast intro: source_step_ok)
qed

text \<open>Once stopped, a source stays stopped with the same error.\<close>

lemma source_step_stopped:
  "source_step s a s' \<Longrightarrow> src_stopped s \<Longrightarrow> src_stopped s' \<and> src_err s' = src_err s"
  by (erule source_stepE)
    (auto simp: Start_def SourceSnapshot_def run_returned_def run_stopped_def ctx_watched_def source_defs Let_def
      split: sum.splits prod.splits option.splits if_splits)

lemma source_step_err:
  assumes "source_step s a s'" "source_ok s" "\<not> src_stopped s" "src_stopped s'" "src_streaming s'"
  shows "src_run_result s = Some (src_err s')"
  using assms
  by (elim source_stepE)
    (auto simp: source_ok_def Start_def SourceSnapshot_def run_returned_def run_stopped_def ctx_watched_def source_defs Let_def
      split: sum.splits prod.splits option.splits if_splits)

lemma source_step_streaming: "source_step s a s' \<Longrightarrow> src_streaming s \<Longrightarrow> src_streaming s'"
  by (erule source_stepE)
    (auto simp: Start_def SourceSnapshot_def run_returned_def run_stopped_def ctx_watched_def source_defs Let_def
      split: sum.splits prod.splits option.splits if_splits)

lemma source_step_stopped_streaming:
  assumes "source_step s a s'" "source_ok s" "src_stopped s"
  shows "src_streaming s' = src_streaming s"
  using assms
  by (elim source_stepE)
    (auto simp: source_ok_def Start_def SourceSnapshot_def run_returned_def run_stopped_def ctx_watched_def source_defs Let_def
      split: sum.splits prod.splits option.splits if_splits)

lemma source_step_result:
  "source_step s a s' \<Longrightarrow> src_run_result s' = Some err \<Longrightarrow> src_run_result s = Some err \<or> a = RunReturns err"
  by (erule source_stepE)
    (auto simp: Start_def SourceSnapshot_def run_returned_def run_stopped_def ctx_watched_def source_defs Let_def
      split: sum.splits prod.splits option.splits if_splits)

lemma source_reachable_result: "source_reachable w as s \<Longrightarrow> src_run_result s = Some err \<Longrightarrow> RunReturns err \<in> set as"
proof (induction rule: source_reachable.induct)
  case (step as s a s')
  then show ?case using source_step_result [OF step(2)] by auto
qed (simp add: NewSource_state_def)

lemma source_reachable_err:
  "source_reachable w as s \<Longrightarrow> src_stopped s \<Longrightarrow> src_streaming s \<Longrightarrow> RunReturns (src_err s) \<in> set as"
proof (induction rule: source_reachable.induct)
  case (step as s a s')
  have ok: "source_ok s" using step(1) by (rule source_reachable_ok)
  show ?case
  proof (cases "src_stopped s")
    case True
    with step source_step_stopped [OF step(2) True] source_step_stopped_streaming [OF step(2) ok True]
    show ?thesis by simp
  next
    case False
    then show ?thesis using source_reachable_result [OF step(1) source_step_err [OF step(2) ok False step(4,5)]] by simp
  qed
qed (simp add: NewSource_state_def)

section \<open>Properties\<close>

text \<open>C20: The lifecycle of a source, under any interleaving of calls, goroutines and cancellation. There is at
  most one \<open>Run\<close> loop and at most one bootstrap in its life; \<open>Done\<close> is closed at most once (closing it
  twice would panic) and stays closed; while the source is ready and streaming its \<open>Run\<close> goroutine is alive, so a
  snapshot is only granted beside a stream that runs or whose end is about to stop the source; a stopped source reports the error of its \<open>Run\<close>, or none
  if it never streamed; and when its context is cancelled and no goroutine is left to run, it has
  stopped.\<close>

theorem source_lifecycle:
  assumes "source_reachable w as s"
  shows "src_runs s \<le> 1 \<and> src_bootstraps s \<le> 1 \<and> src_closed s \<le> 1 \<and>
    (readyLocked s = None \<and> src_streaming s \<longrightarrow> src_run_live s) \<and>
    (src_stopped s \<longrightarrow> src_closed s = 1 \<and>
       (if src_streaming s then RunReturns (Err s) \<in> set as else Err s = None)) \<and>
    (src_ctx s \<and> \<not> src_run_live s \<and> \<not> src_watching s \<longrightarrow> src_stopped s)"
  using source_reachable_ok [OF assms] source_reachable_err [OF assms]
  by (auto simp: source_ok_def Err_def readyLocked_def split: if_splits)

text \<open>What a granted snapshot leaves behind.\<close>

lemma SourceSnapshot_granted:
  assumes "SourceSnapshot bootstrap snapshot s = (s', Inr r)"
  shows "src_started s \<and> \<not> src_stopped s \<and> src_streaming s' \<and>
    (if src_streaming s then snd (snapshot (src_world s)) = Inr r \<and> src_runs s' = src_runs s
     else src_runs s' = src_runs s + 1)"
  using assms
  by (auto simp: SourceSnapshot_def source_defs split: sum.splits prod.splits option.splits if_splits)

text \<open>The first scope bootstraps, then \<open>Run\<close> fails.\<close>

definition sample_life :: "(unit, nat) source_action list" where
  "sample_life = [CallStart (Inr False), CallSnapshot (\<lambda>w. (w, Inr 1)) (\<lambda>w. (w, Inr 2)),
     RunReturns (Some (Sentinel ErrSlotInvalidated)), RunStops]"

definition sample_streaming :: "unit source" where
  "sample_streaming = fst (SourceSnapshot (\<lambda>w. (w, Inr (1 :: nat))) (\<lambda>w. (w, Inr 2)) (fst (Start (Inr False) (NewSource_state ()))))"

definition sample_source :: "unit source" where
  "sample_source = run_stopped (Some (Sentinel ErrSlotInvalidated)) (run_returned (Some (Sentinel ErrSlotInvalidated)) sample_streaming)"

lemma sample_source_reachable: "source_reachable () sample_life sample_source"
proof -
  let ?err = "Some (Sentinel ErrSlotInvalidated)"
  have 1: "source_reachable () ([] @ [CallStart (Inr False)]) (fst (Start (Inr False) (NewSource_state ())))"
    by (rule source_reachable.step [OF source_reachable.init source_step.start])
  have 2: "source_reachable () (([] @ [CallStart (Inr False)]) @ [CallSnapshot (\<lambda>w. (w, Inr (1 :: nat))) (\<lambda>w. (w, Inr 2))]) sample_streaming"
    unfolding sample_streaming_def by (rule source_reachable.step [OF 1 source_step.snapshot])
  have live: "src_run_live sample_streaming" "src_run_result sample_streaming = None" by code_simp+
  note 3 = source_reachable.step [OF 2 source_step.returns [OF live, of ?err]]
  have "src_run_result (run_returned ?err sample_streaming) = Some ?err" by (simp add: run_returned_def)
  from source_reachable.step [OF 3 source_step.stops [OF this]] show ?thesis
    by (simp add: sample_life_def sample_source_def)
qed

theorem source_lifecycle_witness:
  "src_runs sample_source = 1 \<and> RunReturns (Err sample_source) \<in> set sample_life"
proof -
  have "src_stopped sample_source" "src_streaming sample_source" "src_runs sample_source = 1" by code_simp+
  with source_lifecycle [OF sample_source_reachable] show ?thesis by simp
qed

end
