(* ===== verification/Daemon.thy ===== *)
theory Daemon
  imports Stream Source Server
begin

text \<open>
  The process (\<open>internal/daemon/config.go\<close>, \<open>internal/daemon/daemon.go\<close>, \<open>cmd/watchd/main.go\<close>): its
  configuration and how it is validated, the order in which \<open>Serve\<close> starts and stops the parts, and the
  exit code.

  Reading files and the environment, and the JSON and YAML decoders, are parameters: \<open>strict\<close> tells
  whether \<open>yaml.YAMLToJSONStrict\<close> accepts a text and what it converts it to, \<open>decode\<close> is the JSON
  decoder with unknown fields disallowed and tells whether more data follows.
\<close>

section \<open>Configuration\<close>

record projectionConfig =
  pc_schema :: string
  pc_table :: string
  pc_scope_column :: string
  pc_primary_key :: "string list"

record opsConfig =
  ops_listen_address :: string
  ops_pprof :: bool
  ops_mutex_profile_fraction :: int
  ops_block_profile_rate :: int

record retentionConfig =
  rc_max_retained_wal_bytes :: int
  rc_warn_fraction :: rat
  rc_degrade_fraction :: rat
  rc_sample_interval :: int

record daemonConfig =
  dc_source_id :: string
  dc_slot_name :: string
  dc_publication_name :: string
  dc_listen_address :: string
  dc_projections :: "(string, projectionConfig) gomap"
  dc_shutdown_timeout :: int
  dc_ops :: opsConfig
  dc_retention :: retentionConfig
  dc_database_url :: string

definition dc_defaultShutdownTimeout :: int where "dc_defaultShutdownTimeout = 10 * second"

definition invalidConfig :: goerror where
  "invalidConfig = Errorf [Sentinel ErrInvalidConfig]"

definition ops_validate :: "opsConfig \<Rightarrow> goerror + unit" where
  "ops_validate o' =
     (if ops_mutex_profile_fraction o' < 0 \<or> ops_block_profile_rate o' < 0 then Inl invalidConfig
      else if (ops_mutex_profile_fraction o' > 0 \<or> ops_block_profile_rate o' > 0) \<and> \<not> ops_pprof o'
      then Inl invalidConfig
      else if ops_pprof o' \<and> ops_listen_address o' = [] then Inl invalidConfig
      else Inr ())"

definition readerConfig_of :: "daemonConfig \<Rightarrow> readerConfig" where
  "readerConfig_of c =
     \<lparr>rd_DatabaseURL = dc_database_url c, rd_SourceID = dc_source_id c, SlotName = dc_slot_name c,
      PublicationName = dc_publication_name c,
      MaxTransactionBytes = 0, MaxTransactionChanges = 0, MaxValueBytes = 0, SnapshotBatchRows = 0,
      ConnectionTimeout = 0, StatusInterval = 0, rd_ShutdownTimeout = 0,
      RetryPolicy = \<lparr>InitialBackoff = 0, MaxBackoff = 0, MaxAttempts = 0, Jitter = 0\<rparr>,
      MaxRetainedWALBytes = rc_max_retained_wal_bytes (dc_retention c), RetentionCheckInterval = 0,
      RetentionSampleInterval = rc_sample_interval (dc_retention c),
      RetentionWarnFraction = rc_warn_fraction (dc_retention c),
      RetentionDegradeFraction = rc_degrade_fraction (dc_retention c)\<rparr>"

definition projectionSpec_of :: "string \<Rightarrow> projectionConfig \<Rightarrow> projectionSpec" where
  "projectionSpec_of source p =
     \<lparr>SourceID = source, Schema = pc_schema p, TableName = pc_table p, ScopeColumn = pc_scope_column p,
      PrimaryKey = pc_primary_key p\<rparr>"

definition projectionSpecs :: "daemonConfig \<Rightarrow> (string, projectionSpec) gomap" where
  "projectionSpecs c = map (\<lambda>(name, p). (name, projectionSpec_of (dc_source_id c) p)) (dc_projections c)"

definition hubConfig :: "daemonConfig \<Rightarrow> config" where
  "hubConfig c = \<lparr>cfg_sourceID = dc_source_id c, cfg_projections = projectionSpecs c, cfg_maxReplay = 0,
     cfg_watcherQueue = 0\<rparr>"

text \<open>Errors of the parts are formatted with \<open>%v\<close>, so only \<open>ErrInvalidConfig\<close> is wrapped.\<close>

definition as_invalid :: "goerror + 'a \<Rightarrow> goerror + 'a" where
  "as_invalid r = (case r of Inl err \<Rightarrow> Inl invalidConfig | Inr x \<Rightarrow> Inr x)"

fun validate_specs :: "(string, projectionSpec) gomap \<Rightarrow> goerror + unit" where
  "validate_specs [] = Inr ()"
| "validate_specs ((name, spec) # rest) =
     rbind (as_invalid (ValidateProjectionSpec spec)) (\<lambda>_. validate_specs rest)"

definition validate :: "daemonConfig \<Rightarrow> goerror + unit" where
  "validate c =
     (if dc_database_url c = [] then Inl invalidConfig
      else if dc_listen_address c = [] then Inl invalidConfig
      else if dc_projections c = [] then Inl invalidConfig
      else if dc_shutdown_timeout c < 0 then Inl invalidConfig
      else rbind (ops_validate (dc_ops c)) (\<lambda>_.
           rbind (as_invalid (NewReader None (readerConfig_of c) True)) (\<lambda>_.
           rbind (validate_specs (projectionSpecs c)) (\<lambda>_.
           rbind (as_invalid (NewServer (dc_source_id c) 0 True)) (\<lambda>_. Inr ())))))"

text \<open>\<open>data\<close> is what \<open>io.ReadAll\<close> read.\<close>

definition ParseJSONConfig ::
    "(string \<Rightarrow> string option) \<Rightarrow> (string \<Rightarrow> (daemonConfig \<times> bool) option) \<Rightarrow> goerror + string \<Rightarrow> string
      \<Rightarrow> goerror + daemonConfig" where
  "ParseJSONConfig strict decode data databaseURL =
     rbind (as_invalid data) (\<lambda>txt0.
       if strict txt0 = None then Inl invalidConfig
       else case decode txt0 of
         None \<Rightarrow> Inl invalidConfig
       | Some (cfg, trailing) \<Rightarrow>
           if trailing then Inl invalidConfig
           else let c = cfg\<lparr>dc_database_url := databaseURL,
                            dc_shutdown_timeout := or_default (dc_shutdown_timeout cfg) dc_defaultShutdownTimeout\<rparr>
             in rbind (validate c) (\<lambda>_. Inr c))"

definition ParseYAMLConfig ::
    "(string \<Rightarrow> string option) \<Rightarrow> (string \<Rightarrow> (daemonConfig \<times> bool) option) \<Rightarrow> goerror + string \<Rightarrow> string
      \<Rightarrow> goerror + daemonConfig" where
  "ParseYAMLConfig strict decode data databaseURL =
     rbind (as_invalid data) (\<lambda>txt0.
       case strict txt0 of
         None \<Rightarrow> Inl invalidConfig
       | Some converted \<Rightarrow> ParseJSONConfig strict decode (Inr converted) databaseURL)"

text \<open>\<open>filepath.Ext\<close>: the suffix from the last dot of the last path element.\<close>

fun ext_loop :: "string \<Rightarrow> string \<Rightarrow> string" where
  "ext_loop [] acc = []"
| "ext_loop (c # cs) acc =
     (if c = CHR ''/'' then [] else if c = CHR ''.'' then c # acc else ext_loop cs (c # acc))"

definition path_ext :: "string \<Rightarrow> string" where
  "path_ext path = ext_loop (rev path) []"

text \<open>\<open>opened\<close> is the error of opening the file; \<open>databaseURL\<close> comes from the environment.\<close>

definition LoadConfig ::
    "(string \<Rightarrow> string option) \<Rightarrow> (string \<Rightarrow> (daemonConfig \<times> bool) option) \<Rightarrow> goerror option \<Rightarrow> goerror + string
      \<Rightarrow> string \<Rightarrow> string \<Rightarrow> goerror + daemonConfig" where
  "LoadConfig strict decode opened data databaseURL path =
     (case opened of
        Some err \<Rightarrow> Inl invalidConfig
      | None \<Rightarrow>
          (let ext = to_lower (path_ext path) in
           if ext = ''.json'' then ParseJSONConfig strict decode data databaseURL
           else if ext = ''.yaml'' \<or> ext = ''.yml'' then ParseYAMLConfig strict decode data databaseURL
           else Inl invalidConfig))"

section \<open>Serve\<close>

text \<open>What \<open>Serve\<close> does to the outside, in order.\<close>

datatype serve_effect =
    TelemetryUp | TelemetryDown | CloseAPI | CloseOps | OpsUp | OpsDown
  | SourceStarted | ServeAPI | SetServing bool | HubStop | ServerStopped bool | StopSource

datatype ending = Cancelled | SourceDone "goerror option" | ServeFailed goerror

text \<open>What a run meets: the error of the telemetry setup, of the instruments of the reader and of the
  serving gauge; the error of \<open>source.Start\<close>; what ended the wait; whether the server drained in
  time. \<open>has_ops\<close> tells whether there is an ops listener.\<close>

record serve_env =
  sv_telemetry :: "goerror option"
  sv_instruments :: "goerror option"
  sv_gauge :: "goerror option"
  sv_start :: "goerror option"
  sv_ending :: ending
  sv_drained :: bool

definition closeListeners :: "bool \<Rightarrow> serve_effect list" where
  "closeListeners has_ops = CloseAPI # (if has_ops then [CloseOps] else [])"

text \<open>The body after the parts are built; the deferred calls run in reverse order at the end.\<close>

definition serve_body :: "bool \<Rightarrow> serve_env \<Rightarrow> serve_effect list \<times> goerror option" where
  "serve_body has_ops env =
     (let ops_up = (if has_ops then [OpsUp] else []); ops_down = (if has_ops then [OpsDown] else [])
      in case sv_start env of
           Some err \<Rightarrow>
             (ops_up @ [CloseAPI, StopSource] @ ops_down, Some (Errorf [Sentinel ErrSource, err]))
         | None \<Rightarrow>
             (ops_up @ [SourceStarted, ServeAPI, SetServing True, SetServing False, HubStop,
                ServerStopped (sv_drained env), StopSource, StopSource] @ ops_down,
              case sv_ending env of
                Cancelled \<Rightarrow> None
              | SourceDone err \<Rightarrow>
                  Some (Errorf (Sentinel ErrSource # (case err of None \<Rightarrow> [] | Some e \<Rightarrow> [e])))
              | ServeFailed err \<Rightarrow> Some (Errorf [err])))"

definition Serve :: "daemonConfig \<Rightarrow> bool \<Rightarrow> serve_env \<Rightarrow> serve_effect list \<times> goerror option" where
  "Serve cfg has_ops env =
     (case sv_telemetry env of
        Some err \<Rightarrow>
          (closeListeners has_ops,
           if errors_is err ErrInvalidEnvironment then Some invalidConfig else Some (Errorf [err]))
      | None \<Rightarrow>
          (case rbind (as_invalid (NewReader (sv_instruments env) (readerConfig_of cfg) True)) (\<lambda>_.
                rbind (as_invalid (New (hubConfig cfg) True)) (\<lambda>_.
                as_invalid (NewServer (dc_source_id cfg) 0 True))) of
             Inl err \<Rightarrow> (TelemetryUp # closeListeners has_ops @ [TelemetryDown], Some err)
           | Inr _ \<Rightarrow>
               (case sv_gauge env of
                  Some err \<Rightarrow> (TelemetryUp # closeListeners has_ops @ [TelemetryDown], Some (Errorf [err]))
                | None \<Rightarrow>
                    (case serve_body has_ops env of
                       (effs, result) \<Rightarrow> (TelemetryUp # effs @ [TelemetryDown], result)))))"

text \<open>\<open>Run\<close>: the errors of the two listeners.\<close>

definition DaemonRun ::
    "daemonConfig \<Rightarrow> goerror option \<Rightarrow> goerror option \<Rightarrow> serve_env \<Rightarrow> serve_effect list \<times> goerror option" where
  "DaemonRun cfg listen listen_ops env =
     (case listen of
        Some err \<Rightarrow> ([], Some (Errorf [err]))
      | None \<Rightarrow>
          if ops_listen_address (dc_ops cfg) \<noteq> [] then
            (case listen_ops of
               Some err \<Rightarrow> ([CloseAPI], Some (Errorf [err]))
             | None \<Rightarrow> Serve cfg True env)
          else Serve cfg False env)"

section \<open>Exit codes\<close>

definition exitOK :: int where "exitOK = 0"
definition exitInternal :: int where "exitInternal = 1"
definition exitConfig :: int where "exitConfig = 2"
definition exitSource :: int where "exitSource = 3"

definition main_run :: "goerror + daemonConfig \<Rightarrow> (daemonConfig \<Rightarrow> goerror option) \<Rightarrow> int" where
  "main_run loaded run =
     (case loaded of
        Inl err \<Rightarrow> exitConfig
      | Inr cfg \<Rightarrow>
          (case run cfg of
             None \<Rightarrow> exitOK
           | Some err \<Rightarrow>
               if errors_is err ErrInvalidConfig then exitConfig
               else if errors_is err ErrSource then exitSource
               else exitInternal))"

section \<open>A configuration that loads can be served\<close>

lemma as_invalid_Inr_iff [simp]: "as_invalid r = Inr x \<longleftrightarrow> r = Inr x"
  by (auto simp: as_invalid_def split: sum.splits)

lemma validate_specs_iff: "validate_specs specs = Inr u \<longleftrightarrow> (\<forall>(name, spec) \<in> set specs. ValidateProjectionSpec spec = Inr ())"
  by (induction specs rule: validate_specs.induct) (auto simp: rbind_Inr_iff)

lemma new_projections_ok:
  "(\<forall>(name, spec) \<in> set specs. name \<noteq> [] \<and> SourceID spec = src) \<Longrightarrow> \<exists>ps'. new_projections src specs ps = Inr ps'"
  by (induction src specs ps rule: new_projections.induct) auto

lemma projectionSpecs_source: "(name, spec) \<in> set (projectionSpecs c) \<Longrightarrow> SourceID spec = dc_source_id c"
  by (auto simp: projectionSpecs_def projectionSpec_of_def)

lemma projectionSpecs_names: "fst ` set (projectionSpecs c) = fst ` set (dc_projections c)"
  by (force simp: projectionSpecs_def)

lemma hub_constructs:
  assumes "dc_source_id c \<noteq> []" "dc_projections c \<noteq> []" "[] \<notin> fst ` set (dc_projections c)"
  shows "\<exists>h. New (hubConfig c) True = Inr h"
proof -
  have "\<forall>(name, spec) \<in> set (projectionSpecs c). name \<noteq> [] \<and> SourceID spec = dc_source_id c"
    using assms(3) projectionSpecs_source [of _ _ c] projectionSpecs_names [of c] by force
  then obtain ps where "new_projections (dc_source_id c) (projectionSpecs c) [] = Inr ps"
    using new_projections_ok by blast
  with assms(1,2) show ?thesis
    by (simp add: New_def hubConfig_def Let_def defaultMaxReplayTransactions_def defaultWatcherQueue_def projectionSpecs_def)
qed

lemma validate_Inr:
  assumes "validate c = Inr u"
  shows "\<exists>rc r. NewReader None (readerConfig_of c) True = Inr (rc, r) \<and> wf_readerConfig rc \<and> rd_SourceID rc = dc_source_id c"
    and "\<exists>srv. NewServer (dc_source_id c) 0 True = Inr srv \<and> srv_sourceID srv = dc_source_id c"
    and "dc_source_id c \<noteq> []" "dc_projections c \<noteq> []"
    and "\<forall>(name, spec) \<in> set (projectionSpecs c). ValidateProjectionSpec spec = Inr ()"
proof -
  have "\<exists>x. NewReader None (readerConfig_of c) True = Inr x" "validate_specs (projectionSpecs c) = Inr ()"
    "\<exists>srv. NewServer (dc_source_id c) 0 True = Inr srv" and ps: "dc_projections c \<noteq> []"
    using assms by (auto simp: validate_def rbind_Inr_iff split: if_splits)
  then show "\<exists>rc r. NewReader None (readerConfig_of c) True = Inr (rc, r) \<and> wf_readerConfig rc \<and> rd_SourceID rc = dc_source_id c"
    "\<exists>srv. NewServer (dc_source_id c) 0 True = Inr srv \<and> srv_sourceID srv = dc_source_id c" "dc_source_id c \<noteq> []"
    by (auto simp: NewReader_def Let_def rbind_Inr_iff validateReaderConfig_iff NewServer_def
        normalizeReaderConfig_def readerConfig_of_def split: if_splits)
  show "dc_projections c \<noteq> []" by (rule ps)
  show "\<forall>(name, spec) \<in> set (projectionSpecs c). ValidateProjectionSpec spec = Inr ()"
    using \<open>validate_specs (projectionSpecs c) = Inr ()\<close> by (simp only: validate_specs_iff)
qed

lemma ParseJSONConfig_valid:
  assumes "ParseJSONConfig strict decode data databaseURL = Inr c"
  shows "validate c = Inr ()"
proof -
  have v: "rbind (validate x) (\<lambda>_. Inr x) = Inr c \<Longrightarrow> validate c = Inr ()" for x
    by (cases "validate x") auto
  obtain txt0 where "data = Inr txt0" using assms by (auto simp: ParseJSONConfig_def rbind_Inr_iff)
  moreover obtain y where "strict txt0 = Some y"
    using assms calculation by (cases "strict txt0") (simp_all add: ParseJSONConfig_def as_invalid_def)
  moreover obtain cfg trailing where "decode txt0 = Some (cfg, trailing)"
    using assms calculation by (cases "decode txt0") (auto simp: ParseJSONConfig_def as_invalid_def)
  ultimately show ?thesis
    using assms by (cases trailing) (simp_all add: ParseJSONConfig_def as_invalid_def Let_def v)
qed

text \<open>C24: A configuration that loads can be served. If \<open>ParseJSONConfig\<close> accepts a configuration and no
  projection has the empty name, then the reader, the hub and the server are all constructed from it, for
  one source id; the reader's configuration is well-formed; and every projection passes the checks the
  reader makes of it, its source included, before it connects.\<close>

theorem config_serves:
  assumes "ParseJSONConfig strict decode data databaseURL = Inr c" "[] \<notin> fst ` set (dc_projections c)"
  shows "\<exists>rc r h srv. NewReader None (readerConfig_of c) True = Inr (rc, r) \<and> wf_readerConfig rc \<and>
    New (hubConfig c) True = Inr h \<and> NewServer (dc_source_id c) 0 True = Inr srv \<and>
    rd_SourceID rc = srv_sourceID srv \<and> 0 \<le> dc_shutdown_timeout c \<and>
    (\<forall>(name, spec) \<in> set (projectionSpecs c). validateSourceProjectionSpec rc spec = Inr ())"
proof -
  have valid: "validate c = Inr ()" using assms(1) by (rule ParseJSONConfig_valid)
  note v = validate_Inr [OF valid]
  have "0 \<le> dc_shutdown_timeout c" using valid by (auto simp: validate_def split: if_splits)
  moreover obtain rc r where rc: "NewReader None (readerConfig_of c) True = Inr (rc, r)" "wf_readerConfig rc"
    "rd_SourceID rc = dc_source_id c" using v(1) by blast
  moreover have "\<forall>(name, spec) \<in> set (projectionSpecs c). validateSourceProjectionSpec rc spec = Inr ()"
    using v(5) projectionSpecs_source [of _ _ c] rc(3)
    by (auto simp: validateSourceProjectionSpec_def ValidateProjectionSpec_def)
  ultimately show ?thesis using v(2) hub_constructs [OF v(3,4) assms(2)] by auto
qed

definition sample_daemon :: "string \<Rightarrow> daemonConfig" where
  "sample_daemon name =
     \<lparr>dc_source_id = ''src'', dc_slot_name = ''slot'', dc_publication_name = ''pub'', dc_listen_address = '':7070'',
      dc_projections = [(name, \<lparr>pc_schema = ''public'', pc_table = ''items'', pc_scope_column = ''tenant'',
        pc_primary_key = [''tenant'', ''id'']\<rparr>)],
      dc_shutdown_timeout = 0,
      dc_ops = \<lparr>ops_listen_address = [], ops_pprof = False, ops_mutex_profile_fraction = 0, ops_block_profile_rate = 0\<rparr>,
      dc_retention = \<lparr>rc_max_retained_wal_bytes = 0, rc_warn_fraction = 0, rc_degrade_fraction = 0, rc_sample_interval = 0\<rparr>,
      dc_database_url = []\<rparr>"

definition sample_loaded :: "string \<Rightarrow> daemonConfig" where
  "sample_loaded name = (sample_daemon name)\<lparr>dc_database_url := ''postgres:'', dc_shutdown_timeout := 10000000000\<rparr>"

lemma sample_parses:
  "ParseJSONConfig Some (\<lambda>_. Some (sample_daemon name, False)) (Inr []) ''postgres:'' = Inr (sample_loaded name)"
proof -
  have "validateReaderConfig (normalizeReaderConfig (readerConfig_of (sample_loaded name))) True = Inr ()"
    by (simp add: validateReaderConfig_iff wf_readerConfig_def normalizeReaderConfig_def normalizeRetryPolicy_def
        or_default_def reader_defaults readerConfig_of_def sample_loaded_def sample_daemon_def
        identifier_start_def identifier_char_def)
  moreover have "validateProjectionSpecConfig \<lparr>SourceID = ''src'', Schema = ''public'', TableName = ''items'',
      ScopeColumn = ''tenant'', PrimaryKey = [''tenant'', ''id'']\<rparr> = Inr ()" by code_simp
  ultimately have "validate (sample_loaded name) = Inr ()"
    by (simp add: validate_def NewReader_def Let_def NewServer_def cursorSeparator_def ops_validate_def projectionSpecs_def
        projectionSpec_of_def ValidateProjectionSpec_def identifier_start_def
        identifier_char_def sample_loaded_def sample_daemon_def as_invalid_def)
  then show ?thesis
    by (simp add: ParseJSONConfig_def as_invalid_def Let_def or_default_def dc_defaultShutdownTimeout_def second_def
        sample_loaded_def sample_daemon_def)
qed

theorem config_serves_witness:
  "\<exists>h. New (hubConfig (sample_loaded ''items'')) True = Inr h"
  using config_serves [OF sample_parses [of "''items''"]] by (auto simp: sample_loaded_def sample_daemon_def)

text \<open>The validation misses the hub's own check: a projection with the empty name loads, and the process
  then fails to construct the hub.\<close>

theorem empty_projection_name_loads:
  "ParseJSONConfig Some (\<lambda>_. Some (sample_daemon [], False)) (Inr []) ''postgres:'' = Inr (sample_loaded []) \<and>
   New (hubConfig (sample_loaded [])) True = Inl (Errorf [Sentinel ErrInvalidHubConfig])"
proof
  show "New (hubConfig (sample_loaded [])) True = Inl (Errorf [Sentinel ErrInvalidHubConfig])"
    by (simp add: New_def hubConfig_def projectionSpecs_def sample_loaded_def sample_daemon_def
        defaultMaxReplayTransactions_def defaultWatcherQueue_def)
qed (rule sample_parses)

section \<open>Orderly start and stop\<close>

text \<open>The stage an effect belongs to.\<close>

fun serve_stage :: "serve_effect \<Rightarrow> nat" where
  "serve_stage TelemetryUp = 0"
| "serve_stage OpsUp = 1"
| "serve_stage SourceStarted = 2"
| "serve_stage ServeAPI = 3"
| "serve_stage (SetServing up) = (if up then 4 else 5)"
| "serve_stage HubStop = 6"
| "serve_stage (ServerStopped drained) = 7"
| "serve_stage CloseAPI = 7"
| "serve_stage StopSource = 8"
| "serve_stage CloseOps = 9"
| "serve_stage OpsDown = 9"
| "serve_stage TelemetryDown = 10"

lemma Serve_cases:
  assumes "Serve cfg has_ops env = (effs, result)"
  shows "effs = closeListeners has_ops \<and> result \<noteq> None \<or>
    effs = TelemetryUp # closeListeners has_ops @ [TelemetryDown] \<and> result \<noteq> None \<or>
    effs = TelemetryUp # fst (serve_body has_ops env) @ [TelemetryDown] \<and> result = snd (serve_body has_ops env)"
  using assms by (auto simp: Serve_def split: option.splits sum.splits prod.splits if_splits)

text \<open>C25: The process starts and stops in order, on every path. Its effects come in stages: the ops endpoint,
  the source, the API, then readiness; and at the end not ready, every watch ended, the server stopped, the
  source stopped, the ops endpoint and last the telemetry. Whatever fails, the listeners are closed or
  their servers stopped, readiness is only reported while the API is served and is withdrawn before
  anything stops, telemetry that was set up is shut down, and the result is nil only after a
  cancellation.\<close>

theorem serve_orderly:
  assumes "Serve cfg has_ops env = (effs, result)"
  shows "sorted (map serve_stage effs) \<and>
    (SetServing True \<in> set effs \<longrightarrow> SourceStarted \<in> set effs \<and> ServeAPI \<in> set effs \<and> SetServing False \<in> set effs) \<and>
    (ServeAPI \<in> set effs \<longrightarrow> HubStop \<in> set effs \<and> ServerStopped (sv_drained env) \<in> set effs \<and> StopSource \<in> set effs) \<and>
    (ServeAPI \<in> set effs \<or> CloseAPI \<in> set effs) \<and> (has_ops \<longrightarrow> CloseOps \<in> set effs \<or> OpsDown \<in> set effs) \<and>
    (TelemetryUp \<in> set effs \<longleftrightarrow> TelemetryDown \<in> set effs) \<and>
    (result = None \<longrightarrow> sv_ending env = Cancelled \<and> SourceStarted \<in> set effs)"
proof -
  have body: "fst (serve_body has_ops env) =
      (if sv_start env = None
       then (if has_ops then [OpsUp] else []) @ [SourceStarted, ServeAPI, SetServing True, SetServing False, HubStop,
         ServerStopped (sv_drained env), StopSource, StopSource] @ (if has_ops then [OpsDown] else [])
       else (if has_ops then [OpsUp] else []) @ [CloseAPI, StopSource] @ (if has_ops then [OpsDown] else []))"
    and res: "snd (serve_body has_ops env) = None \<longrightarrow> sv_start env = None \<and> sv_ending env = Cancelled"
    by (auto simp: serve_body_def Let_def split: option.splits ending.splits)
  from Serve_cases [OF assms] show ?thesis
    by (elim disjE conjE) (use res in \<open>auto simp: closeListeners_def body\<close>)
qed

definition sample_serve :: serve_env where
  "sample_serve = \<lparr>sv_telemetry = None, sv_instruments = None, sv_gauge = None, sv_start = None,
     sv_ending = Cancelled, sv_drained = True\<rparr>"

theorem serve_orderly_witness:
  "sorted (map serve_stage (fst (Serve (sample_loaded ''items'') True sample_serve)))"
  using serve_orderly [of "sample_loaded ''items''" True sample_serve
      "fst (Serve (sample_loaded ''items'') True sample_serve)" "snd (Serve (sample_loaded ''items'') True sample_serve)"]
  by simp

end
