(* ===== verification/Shared_Batches.thy ===== *)
theory Shared_Batches
  imports Watch_Runs Server
begin

text \<open>
  Batches shared by several watchers. \<open>Accept\<close> gives the watchers of one scope one \<open>Memo\<close>
  (\<open>internal/watch/event.go\<close>), and whichever watch is sent the batch first fills it with the encoded message that
  \<open>batchMessage\<close> of \<open>internal/server/server.go\<close> then sends to all. The invariant is that batches with the same
  memo have the same contents, in the queues, in the goroutines' hands and in what was sent.
\<close>

section \<open>What does not touch a queue\<close>

lemma routeLocked_frame: "heap (fst (routeLocked h p)) = heap h" "memos (fst (routeLocked h p)) = memos h"
  by (simp_all add: routeLocked_def Let_def split: option.splits)

lemma removeLocked_frame: "heap (fst (removeLocked h w)) = heap h" "memos (fst (removeLocked h w)) = memos h"
proof -
  have "heap (fst (removeLocked h w)) = heap h \<and> memos (fst (removeLocked h w)) = memos h"
    using routeLocked_frame [of "h\<lparr>watchers := removeAll w (watchers h)\<rparr>" "w_projection (heap h w)"]
    by (auto simp: removeLocked_def set_scopes_def Let_def split: prod.splits)
  then show "heap (fst (removeLocked h w)) = heap h" "memos (fst (removeLocked h w)) = memos h" by simp_all
qed

lemma registerLocked_frame [simp]: "heap (registerLocked h w) = heap h" "memos (registerLocked h w) = memos h"
proof -
  have "heap (registerLocked h w) = heap h \<and> memos (registerLocked h w) = memos h"
    using routeLocked_frame [of "h\<lparr>watchers := List.insert w (watchers h)\<rparr>" "w_projection (heap h w)"]
    by (auto simp: registerLocked_def set_scopes_def Let_def split: prod.splits)
  then show "heap (registerLocked h w) = heap h" "memos (registerLocked h w) = memos h" by simp_all
qed

lemma endLocked_queue [simp]:
  "w_queue (heap (endLocked h w reason) x) = w_queue (heap h x)" "memos (endLocked h w reason) = memos h"
proof -
  have "w_queue (heap (endLocked h w reason) x) = w_queue (heap h x) \<and> memos (endLocked h w reason) = memos h"
    using removeLocked_frame [of h w] by (auto simp: endLocked_def split: prod.splits bool.splits)
  then show "w_queue (heap (endLocked h w reason) x) = w_queue (heap h x)" "memos (endLocked h w reason) = memos h"
    by simp_all
qed

lemma invalidateLocked_queue [simp]:
  "w_queue (heap (invalidateLocked h table c) x) = w_queue (heap h x)" "memos (invalidateLocked h table c) = memos h"
proof -
  have "w_queue (heap (foldl (\<lambda>h' w. if pr_table (w_projection (heap h' w)) = table then endLocked h' w r else h') h0 ws) x) =
      w_queue (heap h0 x) \<and>
      memos (foldl (\<lambda>h' w. if pr_table (w_projection (heap h' w)) = table then endLocked h' w r else h') h0 ws) = memos h0"
    for h0 ws r by (induction ws arbitrary: h0) simp_all
  then show "w_queue (heap (invalidateLocked h table c) x) = w_queue (heap h x)"
    "memos (invalidateLocked h table c) = memos h" by (simp_all add: invalidateLocked_def Let_def)
qed

lemma evict_loop_queue [simp]: "heap (evict_loop h) = heap h" "memos (evict_loop h) = memos h"
proof -
  have "heap (evict_loop h) = heap h \<and> memos (evict_loop h) = memos h"
  proof (induction h rule: evict_loop.induct)
    case (1 h)
    then show ?case by (subst (1 2) evict_loop.simps) (auto simp: evictLocked_def Let_def)
  qed
  then show "heap (evict_loop h) = heap h" "memos (evict_loop h) = memos h" by simp_all
qed

lemma advance_queue [simp]: "heap (advance h t) = heap h" "memos (advance h t) = memos h"
  by (simp_all add: advance_def Let_def del: evict_loop.simps)

section \<open>Contents of a memo\<close>

text \<open>\<open>shares content n b\<close>: if the batch has a memo, it is one of the first \<open>n\<close> and the batch is what
  \<open>content\<close> says of it.\<close>

definition shares :: "(nat \<Rightarrow> batch) \<Rightarrow> nat \<Rightarrow> batch \<Rightarrow> bool" where
  "shares content n b \<longleftrightarrow> (case bt_memo b of None \<Rightarrow> True | Some i \<Rightarrow> i < n \<and> content i = unshared b)"

definition extends :: "nat \<Rightarrow> (nat \<Rightarrow> batch) \<Rightarrow> (nat \<Rightarrow> batch) \<Rightarrow> bool" where
  "extends n content content' \<longleftrightarrow> (\<forall>i < n. content' i = content i)"

lemma extends_refl [simp]: "extends n c c"
  by (simp add: extends_def)

lemma extends_trans: "extends n a b \<Longrightarrow> extends m b c \<Longrightarrow> n \<le> m \<Longrightarrow> extends n a c"
  by (simp add: extends_def)

lemma shares_extends: "shares content n b \<Longrightarrow> extends n content content' \<Longrightarrow> n \<le> m \<Longrightarrow> shares content' m b"
  by (auto simp: shares_def extends_def split: option.splits)

definition queues_share :: "(nat \<Rightarrow> batch) \<Rightarrow> hub \<Rightarrow> bool" where
  "queues_share content h \<longleftrightarrow> (\<forall>w. list_all (\<lambda>item. shares content (memos h) (batch_of_queued item)) (w_queue (heap h w)))"

lemma queues_share_cong:
  assumes "queues_share content h" "\<And>x. set (w_queue (heap h' x)) \<subseteq> set (w_queue (heap h x))" "memos h' = memos h"
  shows "queues_share content h'"
  unfolding queues_share_def list_all_iff
proof (intro allI ballI)
  fix w item
  assume "item \<in> set (w_queue (heap h' w))"
  then have "item \<in> set (w_queue (heap h w))" using assms(2) by blast
  then show "shares content (memos h') (batch_of_queued item)"
    using assms(1,3) by (simp add: queues_share_def list_all_iff)
qed

lemma send_queued_queue:
  "set (w_queue (heap (send_queued item h w) x)) \<subseteq> insert item (set (w_queue (heap h x)))"
  "memos (send_queued item h w) = memos h"
  by (auto simp: send_queued_def dropLocked_def)

lemma send_all_queue:
  "set (w_queue (heap (foldl (send_queued item) h ws) x)) \<subseteq> insert item (set (w_queue (heap h x))) \<and>
   memos (foldl (send_queued item) h ws) = memos h"
proof (induction ws arbitrary: h)
  case (Cons w ws)
  show ?case using Cons.IH [of "send_queued item h w"] send_queued_queue [of item h w] by fastforce
qed auto

lemma deliver_shares:
  assumes "queues_share content h"
  shows "\<exists>content'. extends (memos h) content content' \<and> queues_share content' (deliver t h d) \<and>
    memos h \<le> memos (deliver t h d)"
proof -
  define memo where "memo = (if length (d_watchers d) > 1 then Some (memos h) else None)"
  define h1 where "h1 = (if length (d_watchers d) > 1 then h\<lparr>memos := memos h + 1\<rparr> else h)"
  let ?item = "\<lparr>q_transaction = t, q_changes = d_changes d, q_memo = memo\<rparr>"
  let ?content = "content(memos h := unshared (batch_of_queued ?item))"
  have d: "deliver t h d = foldl (send_queued ?item) h1 (d_watchers d)"
    by (simp add: deliver_def memo_def h1_def Let_def)
  have h1: "memos h \<le> memos h1" "heap h1 = heap h" by (simp_all add: h1_def)
  have m: "memos (deliver t h d) = memos h1" using send_all_queue [of ?item h1 "d_watchers d"] d by simp
  have ext: "extends (memos h) content ?content" by (simp add: extends_def)
  have new: "shares ?content (memos h1) (batch_of_queued ?item)"
    by (simp add: shares_def memo_def h1_def batch_of_queued_def)
  have "shares ?content (memos h1) (batch_of_queued i)" if "i \<in> set (w_queue (heap (deliver t h d) x))" for i x
  proof (cases "i = ?item")
    case False
    with that have "i \<in> set (w_queue (heap h x))" using send_all_queue [of ?item h1 "d_watchers d" x] d h1(2) by auto
    then have "shares content (memos h) (batch_of_queued i)" using assms by (simp add: queues_share_def list_all_iff)
    then show ?thesis using shares_extends [OF _ ext h1(1)] by blast
  qed (use new in simp)
  then have "queues_share ?content (deliver t h d)" unfolding queues_share_def list_all_iff m by blast
  with ext m h1(1) show ?thesis by auto
qed

lemma deliver_all_shares:
  "queues_share content h \<Longrightarrow> \<exists>content'. extends (memos h) content content' \<and>
     queues_share content' (foldl (deliver t) h ds) \<and> memos h \<le> memos (foldl (deliver t) h ds)"
proof (induction ds arbitrary: content h)
  case Nil
  then show ?case by (intro exI [of _ content]) simp
next
  case (Cons d ds)
  obtain c1 where c1: "extends (memos h) content c1" "queues_share c1 (deliver t h d)" "memos h \<le> memos (deliver t h d)"
    using deliver_shares [OF Cons.prems] by blast
  obtain c2 where c2: "extends (memos (deliver t h d)) c1 c2" "queues_share c2 (foldl (deliver t) (deliver t h d) ds)"
      "memos (deliver t h d) \<le> memos (foldl (deliver t) (deliver t h d) ds)"
    using Cons.IH [OF c1(2)] by blast
  then show ?case using extends_trans [OF c1(1) c2(1) c1(3)] c1(3) by (intro exI [of _ c2]) simp
qed

lemma Accept_shares:
  assumes "queues_share content h" "Accept h t = Inr h'"
  shows "\<exists>content'. extends (memos h) content content' \<and> queues_share content' h' \<and> memos h \<le> memos h'"
proof (cases "h' = h")
  case True
  then show ?thesis using assms(1) by (intro exI [of _ content]) simp
next
  case False
  then have new: "h' = accept_new h t"
    using assms(2) by (auto simp: Accept_def rbind_Inr_iff split: if_splits)
  let ?inv = "\<lambda>h incs. foldl (\<lambda>h' inc. invalidateLocked h' (inc_table inc) (Cursor_of t)) h incs"
  have inv: "(\<forall>x. w_queue (heap (?inv h0 incs) x) = w_queue (heap h0 x)) \<and> memos (?inv h0 incs) = memos h0" for h0 incs
    by (induction incs arbitrary: h0) simp_all
  let ?h = "?inv (advance h t) (Incompatible t)"
  have "queues_share content ?h" "memos ?h = memos h"
    using queues_share_cong [OF assms(1)] inv [of "advance h t" "Incompatible t"] by simp_all
  then show ?thesis
    using deliver_all_shares [of content ?h t "deliveries (collect_deliveries ?h (Changes t))"]
    by (simp add: new accept_new_def Let_def)
qed

section \<open>In every interleaving\<close>

fun sent_batches :: "event list \<Rightarrow> batch list" where
  "sent_batches [] = []"
| "sent_batches (Batch b # es) = b # sent_batches es"
| "sent_batches (_ # es) = sent_batches es"

fun held_batches :: "pc \<Rightarrow> batch list" where
  "held_batches (SnapRecord bs s) = bs"
| "held_batches (SnapEnd bs s) = bs"
| "held_batches (Backlog bs m) = bs"
| "held_batches (LiveSend item m first progressed pos rcv tk) = [batch_of_queued item]"
| "held_batches (Refusing e) = sent_batches [e]"
| "held_batches (Ending e) = sent_batches [e]"
| "held_batches _ = []"

lemma sent_batches_append [simp]: "sent_batches (es @ es') = sent_batches es @ sent_batches es'"
  by (induction es rule: sent_batches.induct) simp_all

lemma batches_sent: "batches es = map unshared (sent_batches es)"
  by (induction es rule: sent_batches.induct) simp_all

definition thread_batches :: "thread \<Rightarrow> batch list" where
  "thread_batches th = held_batches (th_pc th) @ sent_batches (th_sent th)"

definition sys_shares :: "(nat \<Rightarrow> batch) \<Rightarrow> sys \<Rightarrow> bool" where
  "sys_shares content s \<longleftrightarrow> queues_share content (s_hub s) \<and>
     (\<forall>w. list_all (shares content (memos (s_hub s))) (thread_batches (s_threads s w)))"

lemma expected_shares: "list_all (shares content n) (expected w m ts)"
  by (auto simp: list_all_iff shares_def expected_def batch_for_def)

lemma unregister_frame: "heap (unregister h w) = heap h" "memos (unregister h w) = memos h"
  by (simp_all add: unregister_def removeLocked_frame)

lemma thread_step_shares:
  assumes "queues_share content h" "list_all (shares content (memos h)) (thread_batches th)"
    "thread_step parse_lsn ch h w th = Some (h', th')"
  shows "queues_share content h'" "list_all (shares content (memos h')) (thread_batches th')" "memos h' = memos h"
proof -
  have q: "list_all (\<lambda>item. shares content (memos h) (batch_of_queued item)) (w_queue (heap h x))" for x
    using assms(1) by (simp add: queues_share_def)
  have b: "resume_backlog v c ts [] = Inr bs \<Longrightarrow> list_all (shares content n) bs"
    "snapshot_streamed v s ts [] = Inr bs \<Longrightarrow> list_all (shares content n) bs" for v c s ts bs n
    using resume_backlog_eq [of v c ts "[]" bs] snapshot_streamed_eq [of v s ts "[]" bs] by (auto simp: expected_shares)
  have m: "memos h' = memos h \<and> (\<forall>x. set (w_queue (heap h' x)) \<subseteq> set (w_queue (heap h x)))"
    using assms(3)
    by (cases "th_pc th")
      (auto simp: step_defs unregister_frame recordSnapshotLocked_def new_watcher_def split: step_cases)
  then show mm: "memos h' = memos h" by simp
  show "queues_share content h'" by (rule queues_share_cong [OF assms(1)]) (use m in auto)
  show "list_all (shares content (memos h')) (thread_batches th')"
    unfolding mm thread_batches_def
  proof (cases "th_pc th")
    case (Backlog bs m)
    then show "list_all (shares content (memos h)) (held_batches (th_pc th') @ sent_batches (th_sent th'))"
      using assms(2,3) by (cases bs) (auto simp: thread_batches_def send_def at_def split: if_splits choice.splits)
  next
    case (Resuming c)
    then show "list_all (shares content (memos h)) (held_batches (th_pc th') @ sent_batches (th_sent th'))"
      using assms(2,3) by (auto simp: thread_batches_def resume_locked_def at_def dest: b(1) split: if_splits sum.splits)
  next
    case (SnapStale ts s)
    then show "list_all (shares content (memos h)) (held_batches (th_pc th') @ sent_batches (th_sent th'))"
      using assms(2,3) by (auto simp: thread_batches_def at_def Let_def dest: b(2) split: if_splits sum.splits)
  next
    case (LiveDrain m first progressed pos rcv tk)
    then show "list_all (shares content (memos h)) (held_batches (th_pc th') @ sent_batches (th_sent th'))"
      using assms(2,3) q [of w]
      by (auto simp: thread_batches_def live_drain_def at_def Let_def split: if_splits list.splits sum.splits bool.splits)
  qed (use assms(2,3) in \<open>auto simp: thread_batches_def step_defs split: step_cases\<close>)
qed

lemma reachable_shares:
  assumes "New cfg b = Inr h" "reachable parse_lsn h s"
  shows "\<exists>content. sys_shares content s"
  using assms(2)
proof (induction rule: reachable.induct)
  case reach_init
  have "queues_share (\<lambda>_. undefined) h"
    using assms(1) by (auto simp: queues_share_def New_def zeroWatcher_def rbind_Inr_iff Let_def split: if_splits)
  then show ?case
    by (intro exI [of _ "\<lambda>_. undefined"]) (simp add: sys_shares_def start_sys_def thread_batches_def idle_thread_def)
next
  case (reach_step s a s')
  then obtain content where c: "queues_share content (s_hub s)"
    "\<And>w. list_all (shares content (memos (s_hub s))) (thread_batches (s_threads s w))"
    by (auto simp: sys_shares_def)
  show ?case
  proof (cases a)
    case (Deliver t)
    show ?thesis
    proof (cases "Accept (s_hub s) t")
      case (Inr h1)
      then obtain c1 where c1: "extends (memos (s_hub s)) content c1" "queues_share c1 h1" "memos (s_hub s) \<le> memos h1"
        using Accept_shares [OF c(1)] by blast
      have "list_all (shares c1 (memos h1)) (thread_batches (s_threads s w))" for w
        using c(2) [of w] shares_extends [OF _ c1(1,3)] by (auto simp: list_all_iff)
      then have "sys_shares c1 s'" using reach_step.hyps(3) Deliver Inr c1(2) by (auto simp: sys_shares_def)
      then show ?thesis by blast
    qed (use reach_step Deliver in auto)
  next
    case (Call w req)
    then have "sys_shares content s'"
      using reach_step.hyps(3) c by (auto simp: sys_shares_def thread_batches_def split: if_splits)
    then show ?thesis by blast
  next
    case (Step w ch)
    then obtain h1 th where st: "thread_step parse_lsn ch (s_hub s) w (s_threads s w) = Some (h1, th)"
      and s': "s_hub s' = h1" "s_threads s' = (s_threads s)(w := th)"
      using reach_step.hyps(3) by (auto split: option.splits)
    from thread_step_shares [OF c(1) c(2) st] c(2) have "sys_shares content s'" by (simp add: sys_shares_def s')
    then show ?thesis by blast
  next
    case StopHub
    then have "sys_shares content s'" using reach_step.hyps(3) c by (auto simp: sys_shares_def Stop_def queues_share_def)
    then show ?thesis by blast
  qed
qed

section \<open>Whoever fills a memo\<close>

text \<open>The message of a batch, made from the batch alone.\<close>

definition own_message ::
    "(lsn \<Rightarrow> string) \<Rightarrow> (wire_event \<Rightarrow> bool) \<Rightarrow> server \<Rightarrow> batch \<Rightarrow> goerror + wire_event" where
  "own_message lsn_string marshal_ok srv b =
     (if bt_memo b = None then convertBatch lsn_string srv b
      else rbind (convertBatch lsn_string srv b) (encodedMessage marshal_ok))"

text \<open>The watches ask for the messages of their batches one after another, in any order.\<close>

fun load_all ::
    "(lsn \<Rightarrow> string) \<Rightarrow> (wire_event \<Rightarrow> bool) \<Rightarrow> server \<Rightarrow> memo_table \<Rightarrow> batch list
      \<Rightarrow> memo_table \<times> (goerror + wire_event) list" where
  "load_all lsn_string marshal_ok srv table [] = (table, [])"
| "load_all lsn_string marshal_ok srv table (b # bs) =
     (case batchMessage lsn_string marshal_ok srv table b of
        (table1, m) \<Rightarrow>
          (case load_all lsn_string marshal_ok srv table1 bs of (table2, ms) \<Rightarrow> (table2, m # ms)))"

definition table_ok ::
    "(lsn \<Rightarrow> string) \<Rightarrow> (wire_event \<Rightarrow> bool) \<Rightarrow> server \<Rightarrow> (nat \<Rightarrow> batch) \<Rightarrow> memo_table \<Rightarrow> bool" where
  "table_ok lsn_string marshal_ok srv content table \<longleftrightarrow>
     (\<forall>i r. table i = Some r \<longrightarrow> r = rbind (convertBatch lsn_string srv (content i)) (encodedMessage marshal_ok))"

lemma convertBatch_unshared: "convertBatch lsn_string srv (unshared b) = convertBatch lsn_string srv b"
  by (simp add: convertBatch_def unshared_def)

lemma batchMessage_own:
  assumes "table_ok lsn_string marshal_ok srv content table" "shares content n b"
    and "batchMessage lsn_string marshal_ok srv table b = (table', m)"
  shows "m = own_message lsn_string marshal_ok srv b" "table_ok lsn_string marshal_ok srv content table'"
proof -
  have "m = own_message lsn_string marshal_ok srv b \<and> table_ok lsn_string marshal_ok srv content table'"
  proof (cases "bt_memo b")
    case (Some i)
    then have i: "convertBatch lsn_string srv (content i) = convertBatch lsn_string srv b"
      using assms(2) by (simp add: shares_def convertBatch_unshared)
    show ?thesis
    proof (cases "table i")
      case None
      then show ?thesis
        using assms(1,3) Some i by (auto simp: batchMessage_def Load_def own_message_def table_ok_def split: if_splits)
    next
      case r: (Some r)
      then have "r = rbind (convertBatch lsn_string srv b) (encodedMessage marshal_ok)"
        using assms(1) i unfolding table_ok_def by metis
      then show ?thesis using assms(1,3) Some r by (auto simp: batchMessage_def Load_def own_message_def)
    qed
  qed (use assms in \<open>auto simp: batchMessage_def own_message_def\<close>)
  then show "m = own_message lsn_string marshal_ok srv b" "table_ok lsn_string marshal_ok srv content table'" by blast+
qed

lemma load_all_own:
  "table_ok lsn_string marshal_ok srv content table \<Longrightarrow> list_all (shares content n) bs \<Longrightarrow>
     snd (load_all lsn_string marshal_ok srv table bs) = map (own_message lsn_string marshal_ok srv) bs \<and>
     table_ok lsn_string marshal_ok srv content (fst (load_all lsn_string marshal_ok srv table bs))"
proof (induction bs arbitrary: table)
  case (Cons b bs)
  obtain table1 m where b: "batchMessage lsn_string marshal_ok srv table b = (table1, m)"
    by (cases "batchMessage lsn_string marshal_ok srv table b")
  have s: "shares content n b" "list_all (shares content n) bs" using Cons.prems(2) by simp_all
  note own = batchMessage_own [OF Cons.prems(1) s(1) b]
  show ?case
    using Cons.IH [OF own(2) s(2)] own(1) by (cases "load_all lsn_string marshal_ok srv table1 bs") (simp add: b)
qed simp

lemma table_ok_empty [simp]: "table_ok lsn_string marshal_ok srv content (\<lambda>_. None)"
  by (simp add: table_ok_def)

text \<open>C27: Sharing an encoded batch between watches is not observable. In every reachable state of the hub and its
  watches, the server may be asked for the messages of any batches that any of the watches were sent, in any
  order: each of them gets the message that converting its own batch gives, whichever watch filled the
  memo they share.\<close>

theorem shared_encoding_sound:
  assumes "New cfg b = Inr h" "reachable parse_lsn h s"
    and "\<forall>b \<in> set loads. \<exists>w. Batch b \<in> set (th_sent (s_threads s w))"
  shows "snd (load_all lsn_string marshal_ok srv (\<lambda>_. None) loads) = map (own_message lsn_string marshal_ok srv) loads"
proof -
  obtain content where c: "sys_shares content s" using reachable_shares [OF assms(1,2)] by blast
  have sent: "b \<in> set (sent_batches es)" if "Batch b \<in> set es" for b es
    using that by (induction es rule: sent_batches.induct) auto
  have "list_all (shares content (memos (s_hub s))) loads"
    unfolding list_all_iff
  proof
    fix b
    assume "b \<in> set loads"
    then obtain w where "Batch b \<in> set (th_sent (s_threads s w))" using assms(3) by blast
    then have "b \<in> set (thread_batches (s_threads s w))" by (simp add: thread_batches_def sent)
    then show "shares content (memos (s_hub s)) b" using c by (simp add: sys_shares_def list_all_iff)
  qed
  then show ?thesis using load_all_own [OF table_ok_empty] by blast
qed

text \<open>Two watches of one scope are sent the same transaction.\<close>

definition shared_run :: "action list" where
  "shared_run = snapshot_steps 0 3 @ snapshot_steps 1 3 @ [Deliver (txn_of 11 4 [])] @
     steps 0 [SendOk, Run, Run, Run, SendOk] @ steps 1 [SendOk, Run, Run, Run, SendOk]"

definition shared_sys :: sys where
  "shared_sys = (case run digit_lsn shared_run (start_sys small_hub) of Some s \<Rightarrow> s | None \<Rightarrow> start_sys small_hub)"

lemma shared_sys_reachable: "reachable digit_lsn small_hub shared_sys"
proof -
  have "case run digit_lsn shared_run (start_sys small_hub) of None \<Rightarrow> False | Some s \<Rightarrow> True" by code_simp
  then show ?thesis
    using run_reachable [OF reach_init, of digit_lsn shared_run small_hub] by (auto simp: shared_sys_def split: option.splits)
qed

definition shared_loads :: "batch list" where
  "shared_loads = sent_batches (th_sent (s_threads shared_sys 0) @ th_sent (s_threads shared_sys 1))"

lemma shared_loads_memos: "map bt_memo shared_loads = [Some 0, Some 0]"
  by code_simp

theorem shared_encoding_sound_witness:
  "map bt_memo shared_loads = [Some 0, Some 0] \<and>
   snd (load_all (\<lambda>_. []) (\<lambda>_. True) \<lparr>srv_sourceID = ''s'', srv_maxRowsMessageBytes = 8\<rparr> (\<lambda>_. None) shared_loads) =
     map (own_message (\<lambda>_. []) (\<lambda>_. True) \<lparr>srv_sourceID = ''s'', srv_maxRowsMessageBytes = 8\<rparr>) shared_loads"
proof -
  have "b \<in> set (sent_batches es) \<longleftrightarrow> Batch b \<in> set es" for b es
    by (induction es rule: sent_batches.induct) auto
  then have "\<forall>b \<in> set shared_loads. \<exists>w. Batch b \<in> set (th_sent (s_threads shared_sys w))"
    unfolding shared_loads_def by (metis UnE set_append)
  from shared_encoding_sound [OF small_hub_New shared_sys_reachable this] shared_loads_memos show ?thesis by blast
qed

end
