(* ===== verification/End_To_End.thy ===== *)
theory End_To_End
  imports Shared_Batches Server_Correct
begin

text \<open>
  The whole path of a change: the hub's history, a watch goroutine among others, the server's messages, the
  client's receive loop and its store. When a watch has nothing left to send, the store of the client behind it holds the source's rows.
\<close>

section \<open>Where a stream's events come from\<close>

fun live_event :: "event \<Rightarrow> bool" where
  "live_event (Batch b) = True"
| "live_event (Progress c) = True"
| "live_event _ = False"

text \<open>What a watch has sent by the time it is live: a whole snapshot first, or live events only.\<close>

fun begun :: "mode \<Rightarrow> event list \<Rightarrow> bool" where
  "begun (Resumed c) es = list_all live_event es"
| "begun (Snapshotted s) es =
     (\<exists>rss lives. es = SnapshotBegin # map SnapshotRows rss @ SnapshotEnd # lives \<and> list_all live_event lives)"

lemma begun_snoc: "begun m es \<Longrightarrow> live_event e \<Longrightarrow> begun m (es @ [e])"
  by (cases m) fastforce+

definition reading :: "event list \<Rightarrow> bool" where
  "reading es \<longleftrightarrow> (\<exists>rss. es = SnapshotBegin # map SnapshotRows rss)"

lemma reading_rows: "reading es \<Longrightarrow> reading (es @ [SnapshotRows rs])"
  by (auto simp: reading_def) (metis append_Cons list.simps(8,9) map_append)

lemma reading_begin [simp]: "reading [SnapshotBegin]"
  by (simp add: reading_def)

lemma reading_end:
  assumes "reading es"
  shows "begun (Snapshotted s) (es @ [SnapshotEnd])"
proof -
  obtain rss where "es = SnapshotBegin # map SnapshotRows rss" using assms by (auto simp: reading_def)
  then have "es @ [SnapshotEnd] = SnapshotBegin # map SnapshotRows rss @ SnapshotEnd # [] \<and> list_all live_event []" by simp
  then show ?thesis unfolding begun.simps by (intro exI)
qed

fun origin_ok :: "pc \<Rightarrow> event list \<Rightarrow> bool" where
  "origin_ok (SnapRead ts) es = reading es"
| "origin_ok (SnapCheck ts s) es = reading es"
| "origin_ok (SnapStale ts s) es = reading es"
| "origin_ok (SnapRecord bs s) es = reading es"
| "origin_ok (SnapEnd bs s) es = reading es"
| "origin_ok (Backlog bs m) es = begun m es"
| "origin_ok (LivePosition m first progressed) es = begun m es"
| "origin_ok (LiveDrain m first progressed pos rcv tk) es = begun m es"
| "origin_ok (LiveSend item m first progressed pos rcv tk) es = begun m es"
| "origin_ok (LiveProgress m first progressed pos rcv tk) es = begun m es"
| "origin_ok (LiveSelect m progressed tk) es = begun m es"
| "origin_ok (Refusing e) es = True"
| "origin_ok (Ending e) es = True"
| "origin_ok (Leaving r) es = True"
| "origin_ok (Done r) es = True"
| "origin_ok _ es = (es = [])"

lemma origin_step:
  assumes "origin_ok (th_pc th) (th_sent th)" "thread_step parse_lsn ch h w th = Some (h', th')"
  shows "origin_ok (th_pc th') (th_sent th')"
proof (cases "th_pc th")
  case (Backlog bs m)
  then show ?thesis
    using assms by (cases bs) (auto simp: at_def send_def begun_snoc simp del: begun.simps split: if_splits choice.splits)
qed (use assms in \<open>auto simp: step_defs begun_snoc reading_rows reading_end simp del: begun.simps(2) split: step_cases\<close>)

lemma reachable_origin:
  assumes "reachable parse_lsn h s"
  shows "origin_ok (th_pc (s_threads s w)) (th_sent (s_threads s w))"
  using assms
proof (induction arbitrary: w rule: reachable.induct)
  case reach_init
  show ?case by (simp add: start_sys_def idle_thread_def)
next
  case (reach_step s a s')
  show ?case
  proof (cases a)
    case (Step x ch)
    then obtain hb th where st: "thread_step parse_lsn ch (s_hub s) x (s_threads s x) = Some (hb, th)"
      and s': "s_threads s' = (s_threads s)(x := th)"
      using reach_step.hyps(3) by (auto split: option.splits)
    show ?thesis using origin_step [OF reach_step.IH st] reach_step.IH unfolding s' by simp
  next
    case (Call x req)
    have "th_sent (s_threads s x) = []" if "th_pc (s_threads s x) = Idle" using reach_step.IH [of x] that by simp
    then show ?thesis using reach_step Call by (auto split: if_splits)
  qed (use reach_step in \<open>auto split: if_splits sum.splits\<close>)
qed

lemma reachable_begun:
  assumes "reachable parse_lsn h s" "holds_none (th_pc (s_threads s w))" "mode_of (th_pc (s_threads s w)) = Some m"
  shows "begun m (th_sent (s_threads s w))"
  using reachable_origin [OF assms(1), of w] assms(2,3) by (cases "th_pc (s_threads s w)") auto

section \<open>A stream of events on the wire\<close>

text \<open>The callback of \<open>Watch\<close> in \<open>internal/server/server.go\<close>, event after event.\<close>

fun send_events ::
    "(lsn \<Rightarrow> string) \<Rightarrow> (wire_row \<Rightarrow> int) \<Rightarrow> (wire_event \<Rightarrow> bool) \<Rightarrow> (wire_event list \<Rightarrow> goerror option) \<Rightarrow> server
      \<Rightarrow> memo_table \<Rightarrow> wire_event list \<Rightarrow> event list \<Rightarrow> memo_table \<times> wire_event list \<times> goerror option" where
  "send_events lsn_string row_size marshal_ok fails srv table sent [] = (table, sent, None)"
| "send_events lsn_string row_size marshal_ok fails srv table sent (e # es) =
     (case send_event lsn_string row_size marshal_ok fails srv table sent e of
        (table1, sent1, None) \<Rightarrow> send_events lsn_string row_size marshal_ok fails srv table1 sent1 es
      | (table1, sent1, Some err) \<Rightarrow> (table1, sent1, Some err))"

text \<open>What the client reads from a change and from a snapshot row.\<close>

definition client_change :: "change \<Rightarrow> sdk_change" where
  "client_change ch = \<lparr>c_Operation = sdk_operation_of (Operation ch), c_Table = Table ch, c_Key = fmap_of_list (Key ch),
     c_Values = fmap_of_list (map (\<lambda>(c, v). (c, sdk_of v)) (zip (Columns ch) (Values ch)))\<rparr>"

definition client_row :: "row \<Rightarrow> sdk_row" where
  "client_row r = convertValues (convertRow r)"

fun carries :: "(lsn \<Rightarrow> string) \<Rightarrow> server \<Rightarrow> event \<Rightarrow> wire_event list \<Rightarrow> bool" where
  "carries lsn_string srv SnapshotBegin ms = (ms = [WSnapshotBegin])"
| "carries lsn_string srv (SnapshotRows rs) ms = (\<exists>pieces. ms = map WSnapshotRows pieces \<and> concat pieces = map convertRow rs)"
| "carries lsn_string srv SnapshotEnd ms = (ms = [WSnapshotEnd])"
| "carries lsn_string srv (Batch b) ms =
     (\<exists>wb. ms = [WBatch wb] \<and> b_Changes (sdk_convertBatch wb) = map client_change (bt_changes b))"
| "carries lsn_string srv (Progress c) ms = (ms = [WProgress (encodeCursor lsn_string srv c)])"
| "carries lsn_string srv (Resync r) ms = (ms = [WResync (resyncReasons r)])"

definition good_change :: "int \<Rightarrow> change \<Rightarrow> bool" where
  "good_change maxv ch \<longleftrightarrow> wf_change maxv ch \<and> distinct (Columns ch)"

lemma convertChange_client:
  assumes "good_change maxv ch"
  shows "\<exists>wc. convertChange ch = Inr wc \<and> sdk_convertChange wc = client_change ch"
proof -
  have len: "length (Values ch) = length (Columns ch)" "list_all (wf_value maxv) (Values ch)"
    "Operation ch \<in> {OperationInsert, OperationUpdate, OperationDelete}" "distinct (Columns ch)"
    using assms by (auto simp: good_change_def wf_change_def)
  obtain m where m: "convertChangeValues (Columns ch) (Values ch) = Inr m"
    "\<forall>c. fmlookup (convertValues m) c = map_option sdk_of (map_of (zip (Columns ch) (Values ch)) c)"
    using convertChange_values [OF len(1,2,4)] by blast
  obtain oper where oper: "operations (Operation ch) = Some oper" "sdk_operations oper = sdk_operation_of (Operation ch)"
    using len(3) by (auto simp: operations_def sdk_operation_of_def OperationInsert_def OperationUpdate_def OperationDelete_def)
  have "map_of (map (\<lambda>(c, v). (c, sdk_of v)) cvs) c = map_option sdk_of (map_of cvs c)"
    for cvs :: "(string \<times> val) list" and c by (induction cvs) auto
  then have "convertValues m = fmap_of_list (map (\<lambda>(c, v). (c, sdk_of v)) (zip (Columns ch) (Values ch)))"
    by (intro fmap_ext) (metis m(2) fmap_of_list.rep_eq)
  then show ?thesis
    using m(1) oper by (simp add: convertChange_def sdk_convertChange_def client_change_def)
qed

lemma convertBatch_client:
  assumes "list_all (good_change maxv) (bt_changes b)"
  shows "\<exists>wb. convertBatch lsn_string srv b = Inr (WBatch wb) \<and>
    b_Changes (sdk_convertBatch wb) = map client_change (bt_changes b)"
proof -
  have "\<exists>wcs. rmap convertChange chs = Inr wcs \<and> map sdk_convertChange wcs = map client_change chs"
    if "list_all (good_change maxv) chs" for chs
    using that
  proof (induction chs)
    case (Cons ch chs)
    then show ?case using convertChange_client [of maxv ch] by auto
  qed simp
  from this [OF assms] show ?thesis by (auto simp: convertBatch_def sdk_convertBatch_def)
qed

lemma send_event_carries:
  assumes "\<And>sent. fails sent = None" "\<And>r. 0 \<le> row_size r" "\<And>m. marshal_ok m"
    and "table_ok lsn_string marshal_ok srv content table"
    and "list_all (shares content n) (sent_batches [e])"
    and "list_all (\<lambda>b. list_all (good_change maxv) (bt_changes b)) (sent_batches [e])"
  shows "\<exists>table' ms. send_event lsn_string row_size marshal_ok fails srv table sent e = (table', sent @ ms, None) \<and>
    carries lsn_string srv e ms \<and> table_ok lsn_string marshal_ok srv content table'"
proof (cases e)
  case (SnapshotRows rs)
  then show ?thesis
    using send_rows_spec [OF assms(1,2), where messageBytes = 0 and message = "[]"
        and maxBytes = "srv_maxRowsMessageBytes srv" and rs = rs and sent = sent] assms(4)
    by (fastforce simp: send_event_def sendRows_def)
next
  case (Batch b)
  obtain table' m where b: "batchMessage lsn_string marshal_ok srv table b = (table', m)"
    by (cases "batchMessage lsn_string marshal_ok srv table b")
  have s: "shares content n b" "list_all (good_change maxv) (bt_changes b)" using assms(5,6) Batch by simp_all
  note own = batchMessage_own [OF assms(4) s(1) b]
  obtain wb where wb: "convertBatch lsn_string srv b = Inr (WBatch wb)"
      "b_Changes (sdk_convertBatch wb) = map client_change (bt_changes b)"
    using convertBatch_client [OF s(2)] by blast
  have "m = Inr (WBatch wb)" using own(1) wb(1) by (simp add: own_message_def encodedMessage_def assms(3))
  then show ?thesis
    using own(2) wb(2) by (simp add: Batch send_event_def b sendMessage_def assms(1))
qed (use assms in \<open>simp_all add: send_event_def sendMessage_def\<close>)

lemma send_events_carry:
  assumes "\<And>sent. fails sent = None" "\<And>r. 0 \<le> row_size r" "\<And>m. marshal_ok m"
    and "table_ok lsn_string marshal_ok srv content table"
    and "list_all (shares content n) (sent_batches es)"
    and "list_all (\<lambda>b. list_all (good_change maxv) (bt_changes b)) (sent_batches es)"
  shows "\<exists>table' mss. send_events lsn_string row_size marshal_ok fails srv table sent es = (table', sent @ concat mss, None) \<and>
    list_all2 (carries lsn_string srv) es mss"
  using assms(4-6)
proof (induction es arbitrary: table sent)
  case Nil
  then show ?case by (intro exI [of _ table] exI [of _ "[]"]) simp
next
  case (Cons e es)
  have split: "sent_batches (e # es) = sent_batches [e] @ sent_batches es" using sent_batches_append [of "[e]" es] by simp
  obtain table1 ms where one: "send_event lsn_string row_size marshal_ok fails srv table sent e = (table1, sent @ ms, None)"
      "carries lsn_string srv e ms" "table_ok lsn_string marshal_ok srv content table1"
    using send_event_carries [where fails = fails and row_size = row_size and marshal_ok = marshal_ok and n = n and e = e
        and maxv = maxv and sent = sent, OF assms(1-3) Cons.prems(1)] Cons.prems(2,3) unfolding split by auto
  obtain table2 mss where "send_events lsn_string row_size marshal_ok fails srv table1 (sent @ ms) es =
      (table2, (sent @ ms) @ concat mss, None)" "list_all2 (carries lsn_string srv) es mss"
    using Cons.IH [OF one(3), of "sent @ ms"] Cons.prems(2,3) unfolding split by auto
  then show ?case using one(1,2) by (intro exI [of _ table2] exI [of _ "ms # mss"]) simp
qed

section \<open>The client behind a stream\<close>

lemma describes_all_append:
  "describes_all pk (xs @ ys) src src' \<longleftrightarrow> (\<exists>mid. describes_all pk xs src mid \<and> describes_all pk ys mid src')"
  by (induction xs arbitrary: src) auto

definition live_changes :: "event list \<Rightarrow> change list" where
  "live_changes es = concat (map bt_changes (sent_batches es))"

lemma live_changes_simps [simp]:
  "live_changes [] = []" "live_changes (Batch b # es) = bt_changes b @ live_changes es"
  "live_changes (Progress c # es) = live_changes es"
  by (simp_all add: live_changes_def)

text \<open>\<open>tracks\<close>: the client holds the source's rows \<open>src\<close>.\<close>

definition tracks :: "string list \<Rightarrow> source_rows \<Rightarrow> memoryStore syncer \<Rightarrow> bool" where
  "tracks pk src sy \<longleftrightarrow> primaryKey (sy_store sy) = pk \<and> holds pk (rows (sy_store sy)) src"

lemma receive_batch:
  assumes "tracks pk src sy" "describes_all pk (b_Changes (sdk_convertBatch wb)) src src'"
  shows "\<exists>sy'. handle memory_ops sy None (Received (WBatch wb)) = (sy', None, None) \<and> tracks pk src' sy' \<and>
    sy_state sy' = sy_state sy"
proof -
  let ?chs = "b_Changes (sdk_convertBatch wb)" and ?st = "sy_store sy"
  have t: "list_all (valid_change pk) ?chs" "holds pk (effects pk ?chs (rows ?st)) src'"
    using effects_track [of pk "rows ?st" src ?chs src'] assms by (auto simp: tracks_def)
  have "Apply ?st (sdk_convertBatch wb) =
      (?st\<lparr>rows := effects pk ?chs (rows ?st), stored_cursor := b_Cursor (sdk_convertBatch wb)\<rparr>, None)"
    using Apply_valid [of ?st "sdk_convertBatch wb"] t(1) assms(1) by (simp add: valid_batch_def tracks_def)
  then show ?thesis using t(2) assms(1) by (simp add: handle_def memory_ops_def tracks_def)
qed

lemma receive_progress:
  assumes "tracks pk src sy"
  shows "\<exists>sy'. handle memory_ops sy None (Received (WProgress c)) = (sy', None, None) \<and> tracks pk src sy' \<and>
    sy_state sy' = \<lparr>st_Fresh = True, st_Cursor = c\<rparr>"
  using assms by (simp add: handle_def memory_ops_def tracks_def SaveCursor_def)

text \<open>The state the client shows after the events of a stream.\<close>

fun shown :: "(lsn \<Rightarrow> string) \<Rightarrow> server \<Rightarrow> state \<Rightarrow> event list \<Rightarrow> state" where
  "shown lsn_string srv st [] = st"
| "shown lsn_string srv st (Progress c # es) =
     shown lsn_string srv \<lparr>st_Fresh = True, st_Cursor = encodeCursor lsn_string srv c\<rparr> es"
| "shown lsn_string srv st (e # es) = shown lsn_string srv st es"

lemma shown_eq:
  "shown lsn_string srv st es =
     (if positions es = [] then st else \<lparr>st_Fresh = True, st_Cursor = encodeCursor lsn_string srv (last (positions es))\<rparr>)"
  by (induction es arbitrary: st rule: positions.induct) auto

lemma client_live:
  assumes "list_all live_event es" "list_all2 (carries lsn_string srv) es mss" "tracks pk src sy"
    and "describes_all pk (map client_change (live_changes es)) src src'"
  shows "\<exists>sy'. receive_loop memory_ops sy None (map Received (concat mss)) = (sy', None, None) \<and> tracks pk src' sy' \<and>
    sy_state sy' = shown lsn_string srv (sy_state sy) es"
  using assms
proof (induction es arbitrary: mss src sy)
  case (Cons e es)
  obtain ms mss' where mss: "mss = ms # mss'" "carries lsn_string srv e ms" "list_all2 (carries lsn_string srv) es mss'"
    using Cons.prems(2) by (auto simp: list_all2_Cons1)
  have live: "list_all live_event es" "live_event e" using Cons.prems(1) by simp_all
  show ?case
  proof (cases e)
    case (Batch b)
    then obtain wb where wb: "ms = [WBatch wb]" "b_Changes (sdk_convertBatch wb) = map client_change (bt_changes b)"
      using mss(2) by auto
    obtain mid where mid: "describes_all pk (map client_change (bt_changes b)) src mid"
        "describes_all pk (map client_change (live_changes es)) mid src'"
      using Cons.prems(4) Batch by (auto simp: describes_all_append)
    obtain sy1 where sy1: "handle memory_ops sy None (Received (WBatch wb)) = (sy1, None, None)" "tracks pk mid sy1"
        "sy_state sy1 = sy_state sy"
      using receive_batch [OF Cons.prems(3), of wb mid] mid(1) wb(2) by auto
    from Cons.IH [OF live(1) mss(3) sy1(2) mid(2)] show ?thesis using sy1 wb(1) by (simp add: mss(1) Batch)
  next
    case (Progress c)
    obtain sy1 where sy1: "handle memory_ops sy None (Received (WProgress (encodeCursor lsn_string srv c))) = (sy1, None, None)"
        "tracks pk src sy1" "sy_state sy1 = \<lparr>st_Fresh = True, st_Cursor = encodeCursor lsn_string srv c\<rparr>"
      using receive_progress [OF Cons.prems(3)] by blast
    have "describes_all pk (map client_change (live_changes es)) src src'" using Cons.prems(4) Progress by simp
    from Cons.IH [OF live(1) mss(3) sy1(2) this] show ?thesis using sy1 mss(2) by (simp add: mss(1) Progress)
  qed (use live(2) in simp_all)
qed auto

lemma carried_rows:
  assumes "list_all2 (carries lsn_string srv) (map SnapshotRows rss) mss"
  shows "\<exists>pieces. concat mss = map WSnapshotRows pieces \<and> concat pieces = map convertRow (concat rss)"
  using assms
proof (induction rss arbitrary: mss)
  case Nil
  then show ?case by (intro exI [of _ "[]"]) simp
next
  case (Cons rs rss)
  obtain ms mss' where mss: "mss = ms # mss'" "carries lsn_string srv (SnapshotRows rs) ms"
      "list_all2 (carries lsn_string srv) (map SnapshotRows rss) mss'"
    using Cons.prems by (auto simp: list_all2_Cons1)
  obtain p ps where "ms = map WSnapshotRows p" "concat p = map convertRow rs"
      "concat mss' = map WSnapshotRows ps" "concat ps = map convertRow (concat rss)"
    using Cons.IH [OF mss(3)] mss(2) by auto
  then show ?case by (intro exI [of _ "p @ ps"]) (simp add: mss(1))
qed

lemma client_snapshot:
  assumes "list_all2 (carries lsn_string srv) (SnapshotBegin # map SnapshotRows rss @ [SnapshotEnd]) mss"
    and "list_all (keyed_row (primaryKey (sy_store sy))) (map client_row (concat rss))"
  shows "\<exists>sy'. receive_loop memory_ops sy None (map Received (concat mss)) = (sy', None, None) \<and>
    tracks (primaryKey (sy_store sy)) (table_rows (primaryKey (sy_store sy)) (map client_row (concat rss))) sy' \<and>
    \<not> st_Fresh (sy_state sy')"
proof -
  let ?pk = "primaryKey (sy_store sy)" and ?sy1 = "setState False [] sy"
  obtain mss' where mss: "mss = [WSnapshotBegin] # mss' @ [[WSnapshotEnd]]"
      "list_all2 (carries lsn_string srv) (map SnapshotRows rss) mss'"
    using assms(1) by (auto simp: list_all2_Cons1 list_all2_append1)
  obtain pieces where p: "concat mss' = map WSnapshotRows pieces" "concat pieces = map convertRow (concat rss)"
    using carried_rows [OF mss(2)] by blast
  have rs: "concat (map (map convertValues) pieces) = map client_row (concat rss)"
    using p(2) by (simp add: map_concat [symmetric] client_row_def comp_def)
  have "holds ?pk BeginSnapshot fmempty" by (simp add: holds_def BeginSnapshot_def)
  then obtain w where w: "Put ?pk BeginSnapshot (map client_row (concat rss)) = (w, None)"
      "holds ?pk w (table_rows ?pk (map client_row (concat rss)))"
    using Put_ok [OF assms(2)] unfolding table_rows_def by blast
  have start: "handle memory_ops sy None (Received WSnapshotBegin) = (?sy1, Some BeginSnapshot, None)"
    by (simp add: handle_def memory_ops_def Let_def setState_def)
  have put: "receive_loop memory_ops ?sy1 (Some BeginSnapshot) (map (\<lambda>p. Received (WSnapshotRows p)) pieces) = (?sy1, Some w, None)"
    by (rule receive_rows) (use w(1) rs in simp)
  have commit: "handle memory_ops ?sy1 (Some w) (Received WSnapshotEnd) = (?sy1\<lparr>sy_store := Commit (sy_store sy) w\<rparr>, None, None)"
    by (simp add: handle_def memory_ops_def)
  show ?thesis
    by (rule exI [of _ "?sy1\<lparr>sy_store := Commit (sy_store sy) w\<rparr>"])
      (use w(2) put in \<open>simp add: mss(1) p(1) start receive_loop_append comp_def commit tracks_def Commit_def\<close>)
qed

section \<open>From the hub's history to the store\<close>

fun sent_rows :: "event list \<Rightarrow> row list" where
  "sent_rows [] = []"
| "sent_rows (SnapshotRows rs # es) = rs @ sent_rows es"
| "sent_rows (_ # es) = sent_rows es"

lemma sent_rows_append [simp]: "sent_rows (es @ es') = sent_rows es @ sent_rows es'"
  by (induction es rule: sent_rows.induct) simp_all

lemma sent_rows_snapshot [simp]: "sent_rows (map SnapshotRows rss) = concat rss"
  by (induction rss) simp_all

lemma sent_rows_live [simp]: "list_all live_event es \<Longrightarrow> sent_rows es = []"
  by (induction es rule: sent_rows.induct) simp_all

lemma sent_batches_snapshot [simp]: "sent_batches (map SnapshotRows rss) = []"
  by (induction rss) simp_all

lemma positions_snapshot [simp]: "positions (map SnapshotRows rss) = []"
  by (induction rss) simp_all

text \<open>What a stream starts from: the rows the client holds, when it resumes; or else the snapshot's rows.\<close>

fun starts_from :: "mode \<Rightarrow> event list \<Rightarrow> memoryStore \<Rightarrow> source_rows \<Rightarrow> bool" where
  "starts_from (Resumed c) es st src = holds (primaryKey st) (rows st) src"
| "starts_from (Snapshotted snap) es st src \<longleftrightarrow>
     list_all (keyed_row (primaryKey st)) (map client_row (sent_rows es)) \<and>
     src = table_rows (primaryKey st) (map client_row (sent_rows es))"

definition needed_changes :: "watcher \<Rightarrow> mode \<Rightarrow> transaction list \<Rightarrow> change list" where
  "needed_changes v m ts =
     concat (map (projection_changes (w_projection v) (w_scope v)) (filter (\<lambda>t. need m t = Inr True) ts))"

lemma expected_changes: "concat (map bt_changes (expected v m ts)) = needed_changes v m ts"
proof (induction ts)
  case (Cons t ts)
  then show ?case
    by (auto simp: needed_changes_def needed_def relevant_def batch_for_def simp del: need.simps)
qed (simp add: needed_changes_def)

lemma batches_changes: "concat (map bt_changes (batches es)) = live_changes es"
  by (simp add: batches_sent live_changes_def unshared_def comp_def)

lemma client_follows:
  assumes "begun m es" "list_all2 (carries lsn_string srv) es mss" "starts_from m es (sy_store sy) src"
    and "describes_all (primaryKey (sy_store sy)) (map client_change (live_changes es)) src src'"
  shows "\<exists>sy'. receive_loop memory_ops sy None (map Received (concat mss)) = (sy', None, None) \<and>
    tracks (primaryKey (sy_store sy)) src' sy' \<and> (positions es = [] \<or> sy_state sy' = shown lsn_string srv (sy_state sy) es)"
proof (cases m)
  case (Resumed c)
  then have "tracks (primaryKey (sy_store sy)) src sy" using assms(3) by (simp add: tracks_def)
  from client_live [OF _ assms(2) this assms(4)] show ?thesis using assms(1) Resumed by auto
next
  case (Snapshotted snap)
  then obtain rss lives where es: "es = (SnapshotBegin # map SnapshotRows rss @ [SnapshotEnd]) @ lives" "list_all live_event lives"
    using assms(1) by auto
  have rows: "sent_rows es = concat rss" "live_changes es = live_changes lives" "positions es = positions lives"
    using es by (simp_all add: live_changes_def)
  obtain mss1 mss2 where mss: "mss = mss1 @ mss2" "list_all2 (carries lsn_string srv) lives mss2"
      "list_all2 (carries lsn_string srv) (SnapshotBegin # map SnapshotRows rss @ [SnapshotEnd]) mss1"
    using assms(2) unfolding es(1) list_all2_append1 by blast
  obtain sy1 where sy1: "receive_loop memory_ops sy None (map Received (concat mss1)) = (sy1, None, None)"
      "tracks (primaryKey (sy_store sy)) src sy1"
    using client_snapshot [OF mss(3), of sy] assms(3) Snapshotted rows(1) by auto
  obtain sy2 where "receive_loop memory_ops sy1 None (map Received (concat mss2)) = (sy2, None, None)"
      "tracks (primaryKey (sy_store sy)) src' sy2" "sy_state sy2 = shown lsn_string srv (sy_state sy1) lives"
    using client_live [OF es(2) mss(2) sy1(2), of src'] assms(4) rows(2) by auto
  then show ?thesis
    using sy1(1) by (intro exI [of _ sy2]) (simp add: mss(1) receive_loop_append shown_eq rows(3))
qed

text \<open>C1: From the source's transactions to the client's rows. Take any interleaving of the stream with the watches,
  and a registered watch that has nothing left to send; let the server send its events, sharing encodings with
  whatever the other watches were sent, and let the client receive the messages. Then every event is converted and
  sent, the client takes every message, and its store holds, under each primary key, exactly the row that the
  source's own steps lead to: the rows the client started from - those it held at the cursor it resumed from, or those of
  the snapshot - with the steps of every transaction offered to the watch that they did not include. Offered is the
  hub's whole history to a watch that resumed, and all but what had been evicted before it registered to one that took
  a snapshot. Once the watch reported a position, the client is fresh at it.\<close>

theorem watch_keeps_projection:
  assumes "New cfg b = Inr h" and "reachable parse_lsn h s"
    and "mode_of (th_pc (s_threads s w)) = Some m" and "holds_none (th_pc (s_threads s w))"
    and "w \<in> set (watchers (s_hub s))" and "w_queue (heap (s_hub s) w) = []"
    and "\<And>sent. fails sent = None" and "\<And>r. 0 \<le> row_size r" and "\<And>message. marshal_ok message"
    and "\<forall>t \<in> set (s_hist s). list_all (good_change maxv) (Changes t)"
    and "\<forall>b \<in> set loads. \<exists>x. Batch b \<in> set (th_sent (s_threads s x))"
    and "starts_from m (th_sent (s_threads s w)) (sy_store sy) src"
    and "describes_all (primaryKey (sy_store sy))
      (map client_change (needed_changes (heap (s_hub s) w) m (offered s w m (length (s_hist s))))) src src'"
  shows "\<exists>table ms sy'.
    send_events lsn_string row_size marshal_ok fails srv (fst (load_all lsn_string marshal_ok srv (\<lambda>_. None) loads)) []
      (th_sent (s_threads s w)) = (table, ms, None) \<and>
    receive_loop memory_ops sy None (map Received ms) = (sy', None, None) \<and>
    (\<forall>k. clean_key (primaryKey (sy_store sy)) k \<longrightarrow> fmlookup (rows (sy_store sy')) (join_nul k) = fmlookup src' k) \<and>
    (positions (th_sent (s_threads s w)) = [] \<or>
     sy_state sy' = \<lparr>st_Fresh = True, st_Cursor = encodeCursor lsn_string srv (last (positions (th_sent (s_threads s w))))\<rparr>)"
proof -
  let ?es = "th_sent (s_threads s w)" and ?v = "heap (s_hub s) w"
  let ?ts = "offered s w m (length (s_hist s))"
  have all: "batches ?es = expected ?v m ?ts"
    using watch_accounted [OF assms(1-3)] assms(4-6) by auto
  have "set ?ts \<subseteq> set (s_hist s)" by (auto simp: offered_def dest: in_set_dropD)
  obtain content where c: "sys_shares content s" using reachable_shares [OF assms(1,2)] by blast
  have "list_all (shares content (memos (s_hub s))) (sent_batches (th_sent (s_threads s x)))" for x
    using c by (simp add: sys_shares_def thread_batches_def)
  moreover have "b \<in> set (sent_batches es)" if "Batch b \<in> set es" for b es
    using that by (induction es rule: sent_batches.induct) auto
  ultimately have loads: "list_all (shares content (memos (s_hub s))) loads"
    and own: "list_all (shares content (memos (s_hub s))) (sent_batches ?es)"
    using assms(11) by (auto simp: list_all_iff) blast
  have "list_all (\<lambda>b. list_all (good_change maxv) (bt_changes b)) (batches ?es)"
    using assms(10) \<open>set ?ts \<subseteq> set (s_hist s)\<close> unfolding all
    by (auto simp: list_all_iff expected_def batch_for_def projection_changes_def)
  then have good: "list_all (\<lambda>b. list_all (good_change maxv) (bt_changes b)) (sent_batches ?es)"
    by (simp add: batches_sent list_all_iff unshared_def)
  obtain table mss where sent: "send_events lsn_string row_size marshal_ok fails srv
      (fst (load_all lsn_string marshal_ok srv (\<lambda>_. None) loads)) [] ?es = (table, [] @ concat mss, None)"
      "list_all2 (carries lsn_string srv) ?es mss"
    using send_events_carry [where fails = fails and row_size = row_size and marshal_ok = marshal_ok and sent = "[]",
        OF assms(7-9) conjunct2 [OF load_all_own [OF table_ok_empty loads]] own good] by blast
  have changes: "live_changes ?es = needed_changes ?v m ?ts"
    using batches_changes [of ?es] expected_changes [of ?v m ?ts] by (simp add: all)
  obtain sy' where "receive_loop memory_ops sy None (map Received (concat mss)) = (sy', None, None)"
      "tracks (primaryKey (sy_store sy)) src' sy'" "positions ?es = [] \<or> sy_state sy' = shown lsn_string srv (sy_state sy) ?es"
    using client_follows [OF reachable_begun [OF assms(2,4,3)] sent(2) assms(12)] assms(13) unfolding changes by blast
  then show ?thesis
    using sent(1) by (intro exI [of _ table] exI [of _ "concat mss"] exI [of _ sy']) (auto simp: tracks_def holds_def shown_eq split: if_splits)
qed

text \<open>A watch that reads an empty snapshot, is sent one insert and reports the position.\<close>

definition synced_run :: "action list" where
  "synced_run = good_run @ steps 0 [SendOk]"

definition synced_sys :: sys where
  "synced_sys = (case run digit_lsn synced_run (start_sys small_hub) of Some s \<Rightarrow> s | None \<Rightarrow> start_sys small_hub)"

lemma synced_sys_reachable: "reachable digit_lsn small_hub synced_sys"
proof -
  have "case run digit_lsn synced_run (start_sys small_hub) of None \<Rightarrow> False | Some s \<Rightarrow> True" by code_simp
  then show ?thesis
    using run_reachable [OF reach_init, of digit_lsn synced_run small_hub] by (auto simp: synced_sys_def split: option.splits)
qed

lemma synced_sys_simps:
  "mode_of (th_pc (s_threads synced_sys 0)) = Some (Snapshotted (snapshot_at 3))" "holds_none (th_pc (s_threads synced_sys 0))"
  "0 \<in> set (watchers (s_hub synced_sys))" "w_queue (heap (s_hub synced_sys) 0) = []"
  "s_start synced_sys 0 = 0" "s_hist synced_sys = [txn_of 11 4 []]" "sent_rows (th_sent (s_threads synced_sys 0)) = []"
  "positions (th_sent (s_threads synced_sys 0)) = [at_lsn 5]"
  "needed_changes (heap (s_hub synced_sys) 0) (Snapshotted (snapshot_at 3)) [txn_of 11 4 []] = [item_change ''acme'' ''1'']"
  by code_simp+

lemma offered_synced:
  "offered synced_sys 0 (Snapshotted (snapshot_at 3)) (length (s_hist synced_sys)) = [txn_of 11 4 []]"
  by (simp add: offered_def synced_sys_simps)

definition item_row :: sdk_row where
  "item_row = c_Values (client_change (item_change ''acme'' ''1''))"

lemma item_row_lookup:
  "fmlookup item_row c = (if c = ''tenant'' then Some (text_cell ''acme'') else if c = ''id'' then Some (text_cell ''1'') else None)"
  by (simp add: item_row_def client_change_def item_change_def fmap_of_list.rep_eq sdk_of_def text_cell_def TextValue_def)

theorem watch_keeps_projection_witness:
  "\<exists>table ms sy'.
    send_events unary (\<lambda>_. 1) (\<lambda>_. True) (\<lambda>_. None) \<lparr>srv_sourceID = ''s'', srv_maxRowsMessageBytes = 8\<rparr> (\<lambda>_. None) []
      (th_sent (s_threads synced_sys 0)) = (table, ms, None) \<and>
    receive_loop memory_ops (new_syncer (NewMemoryStore [''id''])) None (map Received ms) = (sy', None, None) \<and>
    fmlookup (rows (sy_store sy')) ''1'' = Some item_row \<and> st_Fresh (sy_state sy')"
proof -
  let ?sy = "new_syncer (NewMemoryStore [''id''])" and ?ch = "client_change (item_change ''acme'' ''1'')"
  let ?src = "fmupd [''1''] item_row fmempty :: source_rows"
  have pk: "primaryKey (sy_store ?sy) = [''id'']" by (simp add: new_syncer_def NewMemoryStore_def)
  have wf: "\<forall>t \<in> set (s_hist synced_sys). list_all (good_change 10) (Changes t)"
    by (simp add: synced_sys_simps txn_of_def item_txn_def good_change_def wf_change_def wf_key_def wf_value_def item_change_def TextValue_def)
  have start: "starts_from (Snapshotted (snapshot_at 3)) (th_sent (s_threads synced_sys 0)) (sy_store ?sy) fmempty"
    by (simp add: synced_sys_simps table_rows_def)
  have "row_described None (c_Values ?ch) item_row"
    by (simp add: row_described_def item_row_lookup text_cell_def flip: item_row_def)
  moreover have "key_parts [''id''] (c_Key ?ch) = Inr [''1'']" "c_Operation ?ch = Insert"
    by (simp_all add: client_change_def item_change_def fmap_of_list.rep_eq sdk_operation_of_def)
  ultimately have step: "describes_all (primaryKey (sy_store ?sy))
      (map client_change (needed_changes (heap (s_hub synced_sys) 0) (Snapshotted (snapshot_at 3))
        (offered synced_sys 0 (Snapshotted (snapshot_at 3)) (length (s_hist synced_sys))))) fmempty ?src"
    unfolding pk offered_synced synced_sys_simps(9) by (auto simp: describes_def clean_key_def NUL_def)
  from watch_keeps_projection [where loads = "[]" and fails = "\<lambda>_. None" and row_size = "\<lambda>_. 1" and marshal_ok = "\<lambda>_. True"
      and lsn_string = unary and srv = "\<lparr>srv_sourceID = ''s'', srv_maxRowsMessageBytes = 8\<rparr>",
      OF small_hub_New synced_sys_reachable synced_sys_simps(1-4) _ _ _ wf _ start step]
  obtain table ms sy' where run: "send_events unary (\<lambda>_. 1) (\<lambda>_. True) (\<lambda>_. None) \<lparr>srv_sourceID = ''s'', srv_maxRowsMessageBytes = 8\<rparr>
      (\<lambda>_. None) [] (th_sent (s_threads synced_sys 0)) = (table, ms, None)"
    "receive_loop memory_ops ?sy None (map Received ms) = (sy', None, None)"
    and store: "\<forall>k. clean_key (primaryKey (sy_store ?sy)) k \<longrightarrow> fmlookup (rows (sy_store sy')) (join_nul k) = fmlookup ?src k"
    and fresh: "positions (th_sent (s_threads synced_sys 0)) = [] \<or>
      sy_state sy' = \<lparr>st_Fresh = True, st_Cursor = encodeCursor unary \<lparr>srv_sourceID = ''s'', srv_maxRowsMessageBytes = 8\<rparr>
        (last (positions (th_sent (s_threads synced_sys 0))))\<rparr>"
    by auto
  have "fmlookup (rows (sy_store sy')) ''1'' = Some item_row"
    using store [rule_format, of "[''1'']"] by (simp add: pk clean_key_def NUL_def)
  moreover have "st_Fresh (sy_state sy')" using fresh by (simp add: synced_sys_simps(8))
  ultimately show ?thesis using run by blast
qed

end
