(* ===== verification/Telemetry.thy ===== *)
theory Telemetry
  imports Errors Float64
begin

text \<open>
  The metrics pipeline (\<open>internal/telemetry/telemetry.go\<close>, \<open>attrs.go\<close>, \<open>runtime.go\<close>): what the environment
  enables, the resource's defaults, the limit on logged export errors, the allowlist of attribute keys, and
  the re-bucketing of the Go runtime's histograms.

  The OpenTelemetry and Prometheus libraries are arguments: the outcome of each constructor, and \<open>detect\<close>, which
  merges the environment's resource attributes over the defaults. Random bytes and times are arguments too. The
  environment's texts are taken to be ASCII, so that \<open>strings.TrimSpace\<close> only meets ASCII white space.
\<close>

section \<open>Attributes\<close>

definition KeySource :: string where "KeySource = ''source''"
definition KeyProjection :: string where "KeyProjection = ''projection''"
definition KeyReason :: string where "KeyReason = ''reason''"
definition KeyErrorClass :: string where "KeyErrorClass = ''error_class''"
definition KeyState :: string where "KeyState = ''state''"
definition KeyMode :: string where "KeyMode = ''mode''"

definition MetricPrefix :: string where "MetricPrefix = ''watchd.''"

definition allowedKeys :: "string list" where
  "allowedKeys = [KeySource, KeyProjection, KeyReason, KeyErrorClass, KeyState, KeyMode]"

definition Allowed :: "string \<Rightarrow> bool" where
  "Allowed key \<longleftrightarrow> key \<in> set allowedKeys"

text \<open>An attribute set is kept as the list it is built from; a key outside the allowlist panics.\<close>

type_synonym attributes = "(string \<times> string) list"

definition Attributes :: "attributes \<Rightarrow> goerror + attributes" where
  "Attributes kvs = (if list_all (\<lambda>(k, v). Allowed k) kvs then Inr kvs else Inl (Sentinel RuntimePanic))"

definition IsWatchdMetric :: "string \<Rightarrow> bool" where
  "IsWatchdMetric name = has_prefix name MetricPrefix"

section \<open>The environment\<close>

definition is_space :: "char \<Rightarrow> bool" where
  "is_space c \<longleftrightarrow> (let n = of_char c :: nat in n = 32 \<or> 9 \<le> n \<and> n \<le> 13)"

definition TrimSpace :: "string \<Rightarrow> string" where
  "TrimSpace s = rev (dropWhile is_space (rev (dropWhile is_space s)))"

definition invalidEnvironment :: goerror where
  "invalidEnvironment = Errorf [Sentinel ErrInvalidEnvironment]"

fun otlp_loop :: "bool \<Rightarrow> string list \<Rightarrow> goerror + bool" where
  "otlp_loop otlp [] = Inr otlp"
| "otlp_loop otlp (name # names) =
     (if TrimSpace name \<in> {[], ''prometheus'', ''none''} then otlp_loop otlp names
      else if TrimSpace name = ''otlp'' then otlp_loop True names
      else Inl invalidEnvironment)"

definition otlpEnabled :: "string \<Rightarrow> goerror + bool" where
  "otlpEnabled value = otlp_loop False (split_on (CHR '','') value)"

datatype transport = OTLPHTTP | OTLPGRPC

text \<open>\<open>http\<close> and \<open>grpc\<close> are the errors of the exporters' constructors, if any.\<close>

definition newOTLPExporter :: "(string \<Rightarrow> string) \<Rightarrow> goerror option \<Rightarrow> goerror option \<Rightarrow> goerror + transport" where
  "newOTLPExporter getenv http grpc =
     (let p = getenv ''OTEL_EXPORTER_OTLP_METRICS_PROTOCOL'';
          protocol = (if p = [] then getenv ''OTEL_EXPORTER_OTLP_PROTOCOL'' else p);
          created = (\<lambda>err t. case err of Some e \<Rightarrow> Inl (Errorf [e]) | None \<Rightarrow> Inr t)
      in if protocol = [] \<or> protocol = ''http/protobuf'' then created http OTLPHTTP
         else if protocol = ''grpc'' then created grpc OTLPGRPC
         else Inl invalidEnvironment)"

section \<open>The resource\<close>

text \<open>\<open>info\<close> is the main module's version in the build information, if there is any.\<close>

definition version :: "string option \<Rightarrow> string" where
  "version info =
     (case info of
        Some v \<Rightarrow> if v \<noteq> [] \<and> v \<noteq> ''(devel)'' then v else ''dev''
      | None \<Rightarrow> ''dev'')"

type_synonym byte = "8 word"

definition hex_digit :: "nat \<Rightarrow> char" where
  "hex_digit n = (if n < 10 then char_of (48 + n) else char_of (87 + n))"

text \<open>\<open>%x\<close> on a slice of bytes.\<close>

definition hex_bytes :: "byte list \<Rightarrow> string" where
  "hex_bytes bs = concat (map (\<lambda>b. [hex_digit (unat b div 16), hex_digit (unat b mod 16)]) bs)"

unbundle bit_operations_syntax

definition stamp_version :: "byte list \<Rightarrow> byte list" where
  "stamp_version b =
     (let b1 = b[6 := (b ! 6 AND 0x0f) OR 0x40]
      in b1[8 := (b1 ! 8 AND 0x3f) OR 0x80])"

text \<open>\<open>random\<close> is the array of 16 bytes that \<open>rand.Read\<close> filled.\<close>

definition instanceID :: "byte list \<Rightarrow> string" where
  "instanceID random =
     (let b = stamp_version random; part = (\<lambda>i j. hex_bytes (drop i (take j b)))
      in join_on (CHR ''-'') [part 0 4, part 4 6, part 6 8, part 8 10, part 10 16])"

definition default_attributes :: "string \<Rightarrow> string option \<Rightarrow> byte list \<Rightarrow> attributes" where
  "default_attributes sourceID info random =
     [(''service.name'', ''watchd''), (''service.version'', version info), (''service.instance.id'', instanceID random),
      (''watchd.source.id'', sourceID)]"

definition newResource ::
    "(attributes \<Rightarrow> goerror + attributes) \<Rightarrow> string \<Rightarrow> string option \<Rightarrow> byte list \<Rightarrow> goerror + attributes" where
  "newResource detect sourceID info random =
     (case detect (default_attributes sourceID info random) of
        Inl err \<Rightarrow> Inl invalidEnvironment
      | Inr res \<Rightarrow> Inr res)"

section \<open>Setup\<close>

datatype metric_reader = PrometheusReader | PeriodicReader transport

record telemetry =
  tel_resource :: attributes
  tel_readers :: "metric_reader list"
  tel_handler :: bool

record setup_env =
  su_getenv :: "string \<Rightarrow> string"
  su_detect :: "attributes \<Rightarrow> goerror + attributes"
  su_info :: "string option"
  su_random :: "byte list"
  su_prometheus :: "goerror option"
  su_http :: "goerror option"
  su_grpc :: "goerror option"
  su_runtime :: "goerror option"

text \<open>\<open>Setup\<close>; the provider that was already made is shut down when the runtime instrumentation fails.\<close>

definition Setup :: "setup_env \<Rightarrow> string \<Rightarrow> bool \<Rightarrow> goerror + telemetry" where
  "Setup env sourceID prometheus =
     rbind (otlpEnabled (su_getenv env ''OTEL_METRICS_EXPORTER'')) (\<lambda>otlp.
     rbind (newResource (su_detect env) sourceID (su_info env) (su_random env)) (\<lambda>res.
     rbind (if prometheus then (case su_prometheus env of Some e \<Rightarrow> Inl (Errorf [e]) | None \<Rightarrow> Inr [PrometheusReader])
            else Inr []) (\<lambda>pull.
     rbind (if otlp then rbind (newOTLPExporter (su_getenv env) (su_http env) (su_grpc env)) (\<lambda>t. Inr [PeriodicReader t])
            else Inr []) (\<lambda>push.
       case su_runtime env of
         Some e \<Rightarrow> Inl (Errorf [e])
       | None \<Rightarrow> Inr \<lparr>tel_resource = res, tel_readers = pull @ push, tel_handler = prometheus\<rparr>))))"

section \<open>Logging export errors\<close>

definition errorLogInterval :: int where
  "errorLogInterval = 30 * 1000000000"

text \<open>The zero time, before anything was logged, is \<open>None\<close>.\<close>

record errorHandler =
  eh_last :: "int option"
  eh_suppressed :: int

definition newErrorHandler :: errorHandler where
  "newErrorHandler = \<lparr>eh_last = None, eh_suppressed = 0\<rparr>"

text \<open>\<open>Handle\<close> at the time \<open>now\<close>: the number of suppressed errors the line reports, if one is logged.\<close>

definition Handle :: "int \<Rightarrow> errorHandler \<Rightarrow> errorHandler \<times> int option" where
  "Handle now h =
     (if (case eh_last h of None \<Rightarrow> False | Some t \<Rightarrow> now - t < errorLogInterval)
      then (h\<lparr>eh_suppressed := eh_suppressed h + 1\<rparr>, None)
      else (\<lparr>eh_last = Some now, eh_suppressed = 0\<rparr>, Some (eh_suppressed h)))"

section \<open>Runtime histograms\<close>

text \<open>The edges of a runtime histogram's buckets: \<open>float64\<close> values, the first possibly \<open>-Inf\<close> and the last \<open>+Inf\<close>.\<close>

datatype edge = NegInf | Edge rat | PosInf

fun below :: "rat \<Rightarrow> edge \<Rightarrow> bool" where
  "below b NegInf = False"
| "below b (Edge x) = (b < x)"
| "below b PosInf = True"

record histogram =
  h_Counts :: "64 word list"
  h_Buckets :: "edge list"

record dataPoint =
  dp_Count :: "64 word"
  dp_Sum :: "rat option"
  dp_Bounds :: "rat list"
  dp_BucketCounts :: "64 word list"

text \<open>\<open>for target < len(bounds) && bounds[target] < hi \{ target++ \}\<close>.\<close>

function next_target :: "rat list \<Rightarrow> edge \<Rightarrow> nat \<Rightarrow> nat" where
  "next_target bounds hi target =
     (if target < length bounds \<and> below (bounds ! target) hi then next_target bounds hi (Suc target) else target)"
  by pat_completeness auto
termination
  by (relation "measure (\<lambda>(bounds, hi, target). length bounds - target)") auto

declare next_target.simps [simp del]

text \<open>The part of the sum that one bucket adds; \<open>None\<close> is \<open>+Inf\<close>.\<close>

fun add_sum :: "edge \<Rightarrow> 64 word \<Rightarrow> rat option \<Rightarrow> rat option" where
  "add_sum NegInf c s = s"
| "add_sum (Edge lo) c s =
     (if lo > 0 then (case s of None \<Rightarrow> None | Some x \<Rightarrow> Some (float64 (x + float64 (lo * float64 (of_int (uint c)))))) else s)"
| "add_sum PosInf c s = None"

fun rebucket_loop ::
    "rat list \<Rightarrow> edge list \<Rightarrow> 64 word list \<Rightarrow> nat \<Rightarrow> nat \<Rightarrow> dataPoint \<Rightarrow> goerror + dataPoint" where
  "rebucket_loop bounds edges [] i target dp = Inr dp"
| "rebucket_loop bounds edges (c # cs) i target dp =
     rbind (at_index edges (i + 1)) (\<lambda>hi.
       let target' = next_target bounds hi target
       in if c = 0 then rebucket_loop bounds edges cs (i + 1) target' dp
          else rbind (at_index (dp_BucketCounts dp) target') (\<lambda>old.
               rbind (at_index edges i) (\<lambda>lo.
                 rebucket_loop bounds edges cs (i + 1) target'
                   (dp\<lparr>dp_BucketCounts := (dp_BucketCounts dp)[target' := old + c],
                       dp_Count := dp_Count dp + c, dp_Sum := add_sum lo c (dp_Sum dp)\<rparr>))))"

definition rebucket :: "histogram \<Rightarrow> rat list \<Rightarrow> goerror + dataPoint" where
  "rebucket h bounds =
     rebucket_loop bounds (h_Buckets h) (h_Counts h) 0 0
       \<lparr>dp_Count = 0, dp_Sum = Some 0, dp_Bounds = bounds, dp_BucketCounts = replicate (length bounds + 1) 0\<rparr>"

definition runtimeLatencyBounds :: "rat list" where
  "runtimeLatencyBounds =
     map float64 [1/10^6, 5/10^6, 1/10^5, 5/10^5, 1/10^4, 25/10^5, 5/10^4, 1/10^3, 25/10^4, 5/10^3, 1/10^2, 1/10, 1]"

definition runtimeHistograms :: "(string \<times> string) list" where
  "runtimeHistograms =
     [(''/sched/latencies:seconds'', ''go.schedule.duration''), (''/sched/pauses/total/gc:seconds'', ''go.gc.pause.duration'')]"

text \<open>\<open>Produce\<close>: \<open>read\<close> gives the sample of a runtime metric, \<open>None\<close> when it is no histogram.\<close>

fun produce_loop :: "(string \<Rightarrow> histogram option) \<Rightarrow> (string \<times> string) list \<Rightarrow> goerror + (string \<times> dataPoint) list" where
  "produce_loop sample [] = Inr []"
| "produce_loop sample ((runtimeName, name) # hs) =
     (case sample runtimeName of
        None \<Rightarrow> produce_loop sample hs
      | Some h \<Rightarrow>
          rbind (rebucket h runtimeLatencyBounds) (\<lambda>dp.
          rbind (produce_loop sample hs) (\<lambda>out. Inr ((name, dp) # out))))"

definition Produce :: "(string \<Rightarrow> histogram option) \<Rightarrow> goerror + (string \<times> dataPoint) list" where
  "Produce sample = produce_loop sample runtimeHistograms"

end
