(* ===== verification/Reader_Metrics.thy ===== *)
theory Reader_Metrics
  imports Telemetry Snapshots
begin

text \<open>
  The reader's metrics (\<open>internal/cdc/metrics.go\<close>): the attribute sets and instruments that \<open>NewReader\<close> creates, the
  gauges a scrape observes, and the measuring of scope reads. The setters of the reader write a statistic and the atomic
  beside it (\<open>readerAtomics\<close>); the atomics of the retention monitor are the fields of \<open>retention\<close>.

  The meter is an argument: \<open>create\<close> gives the error of creating an instrument, if any. Of an instrument the name is
  kept, and of a histogram the boundaries that are computed; units, descriptions and constant boundaries are only handed to
  the library. What a histogram records is the list of its values, in nanoseconds.
\<close>

section \<open>Names and boundaries\<close>

definition connectionStates :: "string list" where
  "connectionStates = [stateIdle, stateConnecting, stateStreaming, stateBackingOff, stateStopped, stateFailed]"

definition modeBootstrap :: string where "modeBootstrap = ''bootstrap''"
definition modeSnapshot :: string where "modeSnapshot = ''snapshot''"

text \<open>\<open>powersOf4\<close>; \<open>None\<close> is a loop that never ends, as for a base that is not positive.\<close>

partial_function (option) powers_loop :: "rat \<Rightarrow> rat \<Rightarrow> rat list \<Rightarrow> rat list option" where
  "powers_loop limit bound bounds =
     (if bound < limit then powers_loop limit (float64 (bound * 4)) (bounds @ [bound]) else Some (bounds @ [limit]))"

definition powersOf4 :: "rat \<Rightarrow> rat \<Rightarrow> rat list option" where
  "powersOf4 base limit = powers_loop limit base []"

section \<open>Creating the instruments\<close>

record gaugeOpts =
  go_stateOpts :: "attributes list"
  go_walStatusOpts :: "attributes list"
  go_retentionOpts :: "attributes list"

record readerMetrics =
  rm_errorClassOpts :: "(string, attributes) gomap"
  rm_snapshotErrOpts :: "(string \<times> string, attributes) gomap"
  rm_modeOpts :: "(string, attributes) gomap"
  rm_retentionStateOpts :: "attributes list"
  rm_txChangesBounds :: "rat list"
  rm_txBytesBounds :: "rat list"
  rm_gauges :: gaugeOpts

text \<open>The instruments in the order the code creates them, the gauges apart.\<close>

definition reader_instruments :: "string list" where
  "reader_instruments =
     [''watchd.cdc.reconnects'', ''watchd.cdc.stream.errors'', ''watchd.cdc.standby_status.duration'',
      ''watchd.cdc.standby_status.interval'', ''watchd.cdc.messages'', ''watchd.cdc.wal.bytes'', ''watchd.cdc.transactions'',
      ''watchd.cdc.transaction.duration'', ''watchd.cdc.transaction.changes'', ''watchd.cdc.transaction.size'',
      ''watchd.cdc.decode.errors'', ''watchd.cdc.relation.incompatible'', ''watchd.cdc.sink.duration'',
      ''watchd.cdc.commit_to_accept'', ''watchd.cdc.retention.transitions'', ''watchd.cdc.snapshot.duration'',
      ''watchd.cdc.snapshot.page.duration'', ''watchd.cdc.snapshot.rows'', ''watchd.cdc.snapshot.bytes'',
      ''watchd.cdc.snapshot.active'', ''watchd.cdc.snapshot.errors'']"

datatype gauge =
    GState | GReceived | GAcked | GServerEnd | GWalLag | GAckLag | GRetained | GSafe | GWalStatus | GBudget | GRetentionState

primrec gauge_name :: "gauge \<Rightarrow> string" where
  "gauge_name GState = ''watchd.cdc.stream.state''"
| "gauge_name GReceived = ''watchd.cdc.lsn.received''"
| "gauge_name GAcked = ''watchd.cdc.lsn.acknowledged''"
| "gauge_name GServerEnd = ''watchd.cdc.lsn.server_wal_end''"
| "gauge_name GWalLag = ''watchd.cdc.wal_lag''"
| "gauge_name GAckLag = ''watchd.cdc.ack_lag''"
| "gauge_name GRetained = ''watchd.cdc.slot.retained_wal''"
| "gauge_name GSafe = ''watchd.cdc.slot.safe_wal_size''"
| "gauge_name GWalStatus = ''watchd.cdc.slot.wal_status''"
| "gauge_name GBudget = ''watchd.cdc.retention.budget''"
| "gauge_name GRetentionState = ''watchd.cdc.retention.state''"

definition reader_gauges :: "gauge list" where
  "reader_gauges = [GState, GReceived, GAcked, GServerEnd, GWalLag, GAckLag, GRetained, GSafe, GWalStatus, GBudget, GRetentionState]"

text \<open>The errors among the outcomes of \<open>create\<close>, and \<open>errors.Join\<close>.\<close>

definition create_errors :: "(string \<Rightarrow> goerror option) \<Rightarrow> string list \<Rightarrow> goerror list" where
  "create_errors create names = List.map_filter create names"

definition errors_Join :: "goerror list \<Rightarrow> goerror option" where
  "errors_Join errs = (if errs = [] then None else Some (Errorf errs))"

definition state_opts :: "string list \<Rightarrow> goerror + attributes list" where
  "state_opts names = rmap (\<lambda>name. Attributes [(KeyState, name)]) names"

definition retention_names :: "string list" where
  "retention_names = map retentionStateNames [retentionOK, retentionWarn, retentionDegrade, retentionTerminal]"

text \<open>\<open>callback\<close> is the error of registering the gauges' callback. The outer sum is a panic of \<open>Attributes\<close>,
  the inner one the error the function returns.\<close>

definition registerGauges :: "(string \<Rightarrow> goerror option) \<Rightarrow> goerror option \<Rightarrow> goerror + (goerror + gaugeOpts)" where
  "registerGauges create callback =
     (case errors_Join (create_errors create (map gauge_name reader_gauges)) of
        Some err \<Rightarrow> Inr (Inl err)
      | None \<Rightarrow>
          rbind (state_opts connectionStates) (\<lambda>stateOpts.
          rbind (state_opts walStatuses) (\<lambda>walStatusOpts.
          rbind (state_opts retention_names) (\<lambda>retentionOpts.
            Inr (case callback of
                   Some err \<Rightarrow> Inl err
                 | None \<Rightarrow> Inr \<lparr>go_stateOpts = stateOpts, go_walStatusOpts = walStatusOpts, go_retentionOpts = retentionOpts\<rparr>)))))"

text \<open>A map filled in a loop over distinct keys.\<close>

definition keyed :: "('k \<Rightarrow> goerror + 'v) \<Rightarrow> 'k list \<Rightarrow> goerror + ('k, 'v) gomap" where
  "keyed f ks = rmap (\<lambda>k. rbind (f k) (\<lambda>v. Inr (k, v))) ks"

definition error_keys :: "(string \<times> string) list" where
  "error_keys = concat (map (\<lambda>class. [(modeBootstrap, class), (modeSnapshot, class)]) errorClassNames)"

text \<open>The part of \<open>newReaderMetrics\<close> after the boundaries of the two size histograms are computed.\<close>

definition create_metrics ::
    "(string \<Rightarrow> goerror option) \<Rightarrow> goerror option \<Rightarrow> rat list \<Rightarrow> rat list \<Rightarrow> goerror + readerMetrics" where
  "create_metrics create callback changesBounds bytesBounds =
     rbind (keyed (\<lambda>class. Attributes [(KeyErrorClass, class)]) errorClassNames) (\<lambda>errorOpts.
     rbind (keyed (\<lambda>(mode, class). Attributes [(KeyMode, mode), (KeyErrorClass, class)]) error_keys) (\<lambda>snapshotOpts.
     rbind (keyed (\<lambda>mode. Attributes [(KeyMode, mode)]) [modeBootstrap, modeSnapshot]) (\<lambda>modeOpts.
     rbind (state_opts retention_names) (\<lambda>retentionOpts.
     rbind (registerGauges create callback) (\<lambda>registered.
       let errs = create_errors create reader_instruments @ (case registered of Inl err \<Rightarrow> [err] | Inr _ \<Rightarrow> [])
       in case registered of
            Inr gauges \<Rightarrow>
              if errs \<noteq> [] then Inl (Errorf errs)
              else Inr \<lparr>rm_errorClassOpts = errorOpts, rm_snapshotErrOpts = snapshotOpts, rm_modeOpts = modeOpts,
                rm_retentionStateOpts = retentionOpts, rm_txChangesBounds = changesBounds,
                rm_txBytesBounds = bytesBounds, rm_gauges = gauges\<rparr>
          | Inl _ \<Rightarrow> Inl (Errorf errs))))))"

definition newReaderMetrics ::
    "(string \<Rightarrow> goerror option) \<Rightarrow> goerror option \<Rightarrow> readerConfig \<Rightarrow> (goerror + readerMetrics) option" where
  "newReaderMetrics create callback c =
     Option.bind (powersOf4 1 (float64 (of_int (MaxTransactionChanges c)))) (\<lambda>changesBounds.
     Option.bind (powersOf4 256 (float64 (of_int (MaxTransactionBytes c)))) (\<lambda>bytesBounds.
       Some (create_metrics create callback changesBounds bytesBounds)))"

section \<open>The atomics behind the gauges\<close>

record readerAtomics =
  ra_state :: int
  ra_receivedLSN :: lsn
  ra_ackedLSN :: lsn
  ra_serverWALEnd :: lsn

definition zero_atomics :: readerAtomics where
  "zero_atomics = \<lparr>ra_state = 0, ra_receivedLSN = 0, ra_ackedLSN = 0, ra_serverWALEnd = 0\<rparr>"

definition metrics_setState :: "string \<Rightarrow> readerAtomics \<Rightarrow> readerAtomics" where
  "metrics_setState state a =
     (let i = index_of state connectionStates 0 in if i < 0 then a else a\<lparr>ra_state := i\<rparr>)"

definition store_state :: "string \<Rightarrow> reader \<times> readerAtomics \<Rightarrow> reader \<times> readerAtomics" where
  "store_state state = (\<lambda>(r, a). (setConnectionState state r, metrics_setState state a))"

definition store_received :: "lsn \<Rightarrow> reader \<times> readerAtomics \<Rightarrow> reader \<times> readerAtomics" where
  "store_received l = (\<lambda>(r, a). (setLastReceivedLSN l r, a\<lparr>ra_receivedLSN := l\<rparr>))"

definition store_acknowledged :: "lsn \<Rightarrow> reader \<times> readerAtomics \<Rightarrow> reader \<times> readerAtomics" where
  "store_acknowledged l = (\<lambda>(r, a). (setLastAcknowledgedLSN l r, a\<lparr>ra_ackedLSN := l\<rparr>))"

definition store_serverWALEnd :: "lsn \<Rightarrow> reader \<times> readerAtomics \<Rightarrow> reader \<times> readerAtomics" where
  "store_serverWALEnd l = (\<lambda>(r, a).
     (observeServerWALEnd l r, if l \<le> ra_serverWALEnd a then a else a\<lparr>ra_serverWALEnd := l\<rparr>))"

section \<open>What a scrape observes\<close>

definition boolValue :: "bool \<Rightarrow> int" where
  "boolValue b = (if b then 1 else 0)"

text \<open>\<open>int64(a - b)\<close> keeps the bits of the unsigned difference.\<close>

definition lsnDistance :: "lsn \<Rightarrow> lsn \<Rightarrow> int" where
  "lsnDistance a b = (if a \<le> b then 0 else sint (a - b))"

type_synonym observation = "gauge \<times> attributes \<times> int"

text \<open>One observation per name, \<open>1\<close> for the current one.\<close>

definition one_of :: "gauge \<Rightarrow> attributes list \<Rightarrow> int \<Rightarrow> observation list" where
  "one_of g opts current = map (\<lambda>(i, opt). (g, opt, boolValue (int i = current))) (enumerate 0 opts)"

definition observe_stream :: "gaugeOpts \<Rightarrow> readerAtomics \<Rightarrow> observation list" where
  "observe_stream g a =
     (let received = ra_receivedLSN a; acked = ra_ackedLSN a; serverEnd = ra_serverWALEnd a
      in one_of GState (go_stateOpts g) (ra_state a) @
         (if received > 0 then [(GReceived, [], sint received), (GAckLag, [], lsnDistance received acked)] else []) @
         (if acked > 0 then [(GAcked, [], sint acked)] else []) @
         (if serverEnd > 0 then [(GServerEnd, [], sint serverEnd), (GWalLag, [], lsnDistance serverEnd received)] else []))"

definition observe_retention :: "gaugeOpts \<Rightarrow> retention \<Rightarrow> observation list" where
  "observe_retention g rt =
     (if rt_known rt then
        (if rt_retained rt \<ge> 0 then [(GRetained, [], rt_retained rt)] else []) @
        (if rt_safe rt \<ge> 0 then [(GSafe, [], rt_safe rt)] else []) @
        [(GBudget, [], rt_budget rt)] @
        one_of GWalStatus (go_walStatusOpts g) (rt_walStatus rt) @
        one_of GRetentionState (go_retentionOpts g) (int (retention_rank (rt_state rt)))
      else [])"

definition observe :: "readerMetrics \<Rightarrow> readerAtomics \<Rightarrow> retention \<Rightarrow> observation list" where
  "observe m a rt = observe_stream (rm_gauges m) a @ observe_retention (rm_gauges m) rt"

section \<open>Recording\<close>

text \<open>What the instruments of scope reads, stream errors and status updates have recorded.\<close>

record recorded =
  rec_active :: "attributes \<Rightarrow> int"
  rec_rows :: "attributes \<Rightarrow> int"
  rec_bytes :: "attributes \<Rightarrow> int"
  rec_snapshotErrors :: "attributes \<Rightarrow> int"
  rec_snapshotDurations :: "attributes \<Rightarrow> int list"
  rec_pages :: "attributes \<Rightarrow> int list"
  rec_streamErrors :: "attributes \<Rightarrow> int"
  rec_statusDurations :: "int list"
  rec_statusIntervals :: "int list"
  rec_lastStatus :: "int option"

definition nothing_recorded :: recorded where
  "nothing_recorded = \<lparr>rec_active = (\<lambda>_. 0), rec_rows = (\<lambda>_. 0), rec_bytes = (\<lambda>_. 0), rec_snapshotErrors = (\<lambda>_. 0),
     rec_snapshotDurations = (\<lambda>_. []), rec_pages = (\<lambda>_. []), rec_streamErrors = (\<lambda>_. 0), rec_statusDurations = [],
     rec_statusIntervals = [], rec_lastStatus = None\<rparr>"

definition add_count :: "attributes \<Rightarrow> int \<Rightarrow> (attributes \<Rightarrow> int) \<Rightarrow> attributes \<Rightarrow> int" where
  "add_count opt n counts = counts(opt := counts opt + n)"

text \<open>A map lookup that misses gives the zero value of the option; here it would be the empty set.\<close>

definition mode_opt :: "readerMetrics \<Rightarrow> string \<Rightarrow> attributes" where
  "mode_opt m mode = gm_get (rm_modeOpts m) mode []"

definition streamError :: "readerMetrics \<Rightarrow> goerror \<Rightarrow> recorded \<Rightarrow> recorded" where
  "streamError m err rc =
     rc\<lparr>rec_streamErrors := add_count (gm_get (rm_errorClassOpts m) (errorClass err) []) 1 (rec_streamErrors rc)\<rparr>"

definition statusSent :: "int \<Rightarrow> int \<Rightarrow> recorded \<Rightarrow> recorded" where
  "statusSent now duration rc =
     rc\<lparr>rec_statusDurations := rec_statusDurations rc @ [duration],
        rec_statusIntervals := rec_statusIntervals rc @ (case rec_lastStatus rc of None \<Rightarrow> [] | Some t \<Rightarrow> [now - t]),
        rec_lastStatus := Some now\<rparr>"

definition startSnapshot :: "readerMetrics \<Rightarrow> string \<Rightarrow> recorded \<Rightarrow> recorded" where
  "startSnapshot m mode rc = rc\<lparr>rec_active := add_count (mode_opt m mode) 1 (rec_active rc)\<rparr>"

definition row_bytes :: "scan_row \<Rightarrow> int" where
  "row_bytes r =
     sum_list (map (\<lambda>(column, v). int (length column) + (case v of Some t \<Rightarrow> int (length t) | None \<Rightarrow> 0)) r)"

text \<open>The wrapped row sink counts what it is given, and passes it on.\<close>

definition observer_sink ::
    "readerMetrics \<Rightarrow> string \<Rightarrow> 's row_sink \<Rightarrow> recorded \<times> 's \<Rightarrow> scan_row list \<Rightarrow> recorded \<times> (goerror + 's)" where
  "observer_sink m mode next = (\<lambda>(rc, s) rs.
     (rc\<lparr>rec_rows := add_count (mode_opt m mode) (int (length rs)) (rec_rows rc),
         rec_bytes := add_count (mode_opt m mode) (sum_list (map row_bytes rs)) (rec_bytes rc)\<rparr>, next s rs))"

definition observer_page :: "readerMetrics \<Rightarrow> string \<Rightarrow> int \<Rightarrow> recorded \<Rightarrow> recorded" where
  "observer_page m mode duration rc =
     (let opt = mode_opt m mode in rc\<lparr>rec_pages := (rec_pages rc)(opt := rec_pages rc opt @ [duration])\<rparr>)"

definition observer_finish :: "readerMetrics \<Rightarrow> string \<Rightarrow> int \<Rightarrow> goerror option \<Rightarrow> recorded \<Rightarrow> recorded" where
  "observer_finish m mode elapsed err rc =
     (let opt = mode_opt m mode; rc1 = rc\<lparr>rec_active := add_count opt (- 1) (rec_active rc)\<rparr>
      in case err of
           Some e \<Rightarrow>
             rc1\<lparr>rec_snapshotErrors := add_count (gm_get (rm_snapshotErrOpts m) (mode, errorClass e) []) 1 (rec_snapshotErrors rc1)\<rparr>
         | None \<Rightarrow>
             rc1\<lparr>rec_snapshotDurations := (rec_snapshotDurations rc1)(opt := rec_snapshotDurations rc1 opt @ [elapsed])\<rparr>)"

text \<open>The page loop of \<open>scanScopedRows\<close> with its observer; \<open>took\<close> is the time to fetch the page after a key. What was
  recorded survives an error.\<close>

partial_function (option) observed_pages ::
    "(string list option \<Rightarrow> goerror + scan_row list) \<Rightarrow> string list \<Rightarrow> int \<Rightarrow> readerMetrics \<Rightarrow> string \<Rightarrow> (string list option \<Rightarrow> int)
      \<Rightarrow> 's row_sink \<Rightarrow> string list option \<Rightarrow> 's \<Rightarrow> recorded \<Rightarrow> (recorded \<times> (goerror + 's)) option" where
  "observed_pages fetch key batchRows m mode took sink lastKey s rc =
     (case fetch lastKey of
        Inl err \<Rightarrow> Some (rc, Inl err)
      | Inr batch \<Rightarrow>
          if batch = [] then Some (observer_page m mode (took lastKey) rc, Inr s)
          else case observer_sink m mode sink (observer_page m mode (took lastKey) rc, s) batch of
            (rc1, Inl err) \<Rightarrow> Some (rc1, Inl err)
          | (rc1, Inr s1) \<Rightarrow>
              (case nextKey key (last batch) of
                 Inl err \<Rightarrow> Some (rc1, Inl err)
               | Inr k \<Rightarrow>
                   if int (length batch) < batchRows then Some (rc1, Inr s1)
                   else observed_pages fetch key batchRows m mode took sink (Some k) s1 rc1))"

declare observed_pages.simps [code]

definition error_of :: "'e + 'a \<Rightarrow> 'e option" where
  "error_of res = (case res of Inl err \<Rightarrow> Some err | Inr _ \<Rightarrow> None)"

text \<open>A scope read between \<open>startSnapshot\<close> and the deferred \<open>finish\<close>.\<close>

definition observed_scan ::
    "readerMetrics \<Rightarrow> string \<Rightarrow> (string list option \<Rightarrow> int) \<Rightarrow> int \<Rightarrow> (scan_query \<Rightarrow> scan_answer) \<Rightarrow> projectionSpec \<Rightarrow> string \<Rightarrow> int
      \<Rightarrow> 's row_sink \<Rightarrow> 's \<Rightarrow> recorded \<Rightarrow> (recorded \<times> (goerror + 's)) option" where
  "observed_scan m mode took elapsed pg_select spec scope batchRows sink s rc =
     map_option (\<lambda>(rc1, res). (observer_finish m mode elapsed (error_of res) rc1, res))
       (observed_pages (fetchBatch pg_select spec scope batchRows) (PrimaryKey spec) batchRows m mode took sink None s
         (startSnapshot m mode rc))"

end
