(* ===== verification/Instruments.thy ===== *)
theory Instruments
  imports Reader_Metrics_Correct Hub_Correct Client
begin

text \<open>
  The instruments of the hub (\<open>internal/watch/metrics.go\<close>), the server (\<open>internal/server/metrics.go\<close>) and the SDK
  (\<open>sdk/go/watchd/metrics.go\<close>): their creation, what a scrape of the hub observes, the counting of the events a watch
  sends, and the SDK's counter of fresh projections. As in the reader, the meter is an argument: \<open>create\<close> gives the error
  of creating an instrument.
\<close>

section \<open>The hub\<close>

primrec resyncReasonNames :: "resyncReason \<Rightarrow> string" where
  "resyncReasonNames ResyncCursorUnavailable = ''cursor_unavailable''"
| "resyncReasonNames ResyncSlowWatcher = ''slow_watcher''"
| "resyncReasonNames ResyncSnapshotWindowClosed = ''snapshot_window_closed''"
| "resyncReasonNames ResyncSourceStopped = ''source_stopped''"
| "resyncReasonNames ResyncSchemaChanged = ''schema_changed''"

definition resync_reasons :: "resyncReason list" where
  "resync_reasons = [ResyncCursorUnavailable, ResyncSlowWatcher, ResyncSnapshotWindowClosed, ResyncSourceStopped, ResyncSchemaChanged]"

definition hub_instruments :: "string list" where
  "hub_instruments =
     [''watchd.hub.accept.duration'', ''watchd.hub.lock.wait'', ''watchd.hub.replay.evictions'',
      ''watchd.hub.watcher.queue_depth'', ''watchd.hub.watcher.lag'', ''watchd.hub.progress'', ''watchd.hub.resyncs'',
      ''watchd.hub.replay.occupancy'', ''watchd.hub.replay.capacity'', ''watchd.hub.replay.oldest_age'', ''watchd.hub.watchers'']"

text \<open>\<open>newHubMetrics\<close> gives the attribute sets of the resync counter; \<open>callback\<close> is the error of registering the gauges.\<close>

definition newHubMetrics ::
    "(string \<Rightarrow> goerror option) \<Rightarrow> goerror option \<Rightarrow> goerror + (resyncReason, attributes) gomap" where
  "newHubMetrics create callback =
     rbind (keyed (\<lambda>reason. Attributes [(KeyReason, resyncReasonNames reason)]) resync_reasons) (\<lambda>resyncOpts.
       let errs = create_errors create hub_instruments
       in if errs \<noteq> [] then Inl (Errorf errs)
          else case callback of Some err \<Rightarrow> Inl err | None \<Rightarrow> Inr resyncOpts)"

record hub_scrape =
  hs_occupancy :: int
  hs_capacity :: int
  hs_watchers :: int
  hs_oldestAge :: "int option"

text \<open>The callback, at time \<open>now\<close>.\<close>

definition observe_hub :: "gotime \<Rightarrow> hub \<Rightarrow> hub_scrape" where
  "observe_hub now h =
     (let oldest = (case ring h of [] \<Rightarrow> 0 | t # _ \<Rightarrow> CommitTime t)
      in \<lparr>hs_occupancy = int (length (ring h)), hs_capacity = maxReplay h, hs_watchers = int (length (watchers h)),
          hs_oldestAge = (if oldest \<noteq> 0 then Some (now - oldest) else None)\<rparr>)"

record send_counts =
  sc_progress :: int
  sc_resyncs :: "attributes \<Rightarrow> int"

definition countingSend ::
    "(resyncReason, attributes) gomap \<Rightarrow> (event \<Rightarrow> goerror option) \<Rightarrow> send_counts \<Rightarrow> event \<Rightarrow> send_counts \<times> goerror option" where
  "countingSend resyncOpts send n ev =
     ((case ev of
         Progress _ \<Rightarrow> n\<lparr>sc_progress := sc_progress n + 1\<rparr>
       | Resync reason \<Rightarrow>
           (case map_of resyncOpts reason of
              Some opt \<Rightarrow> n\<lparr>sc_resyncs := add_count opt 1 (sc_resyncs n)\<rparr>
            | None \<Rightarrow> n)
       | _ \<Rightarrow> n), send ev)"

section \<open>The server\<close>

definition server_instruments :: "string list" where
  "server_instruments =
     [''watchd.server.streams.active'', ''watchd.server.send.duration'', ''watchd.server.snapshot.bytes'',
      ''watchd.server.batch.commit_to_send'']"

definition newServerMetrics :: "(string \<Rightarrow> goerror option) \<Rightarrow> goerror + unit" where
  "newServerMetrics create =
     (case errors_Join (create_errors create server_instruments) of Some err \<Rightarrow> Inl err | None \<Rightarrow> Inr ())"

section \<open>The SDK\<close>

primrec sdk_resyncReasonNames :: "wire_reason \<Rightarrow> string" where
  "sdk_resyncReasonNames RESYNC_REASON_UNSPECIFIED = ''unspecified''"
| "sdk_resyncReasonNames RESYNC_REASON_CURSOR_UNAVAILABLE = ''cursor_unavailable''"
| "sdk_resyncReasonNames RESYNC_REASON_SLOW_WATCHER = ''slow_watcher''"
| "sdk_resyncReasonNames RESYNC_REASON_SNAPSHOT_WINDOW_CLOSED = ''snapshot_window_closed''"
| "sdk_resyncReasonNames RESYNC_REASON_SOURCE_STOPPED = ''source_stopped''"
| "sdk_resyncReasonNames RESYNC_REASON_SCHEMA_CHANGED = ''schema_changed''"

definition sdk_reasons :: "wire_reason list" where
  "sdk_reasons =
     [RESYNC_REASON_CURSOR_UNAVAILABLE, RESYNC_REASON_SLOW_WATCHER, RESYNC_REASON_SNAPSHOT_WINDOW_CLOSED,
      RESYNC_REASON_SOURCE_STOPPED, RESYNC_REASON_SCHEMA_CHANGED, RESYNC_REASON_UNSPECIFIED]"

definition sdk_instruments :: "string list" where
  "sdk_instruments =
     [''watchd.sdk.apply.duration'', ''watchd.sdk.snapshot.install.duration'', ''watchd.sdk.commit_to_apply'',
      ''watchd.sdk.time_to_fresh'', ''watchd.sdk.syncs'', ''watchd.sdk.fresh'', ''watchd.sdk.resyncs'', ''watchd.sdk.stream.errors'']"

record syncMetrics =
  sm_projection :: string
  sm_resyncOpts :: "(wire_reason, attributes) gomap"

definition newSyncMetrics :: "(string \<Rightarrow> goerror option) \<Rightarrow> string \<Rightarrow> goerror + syncMetrics" where
  "newSyncMetrics create projection =
     (let errs = create_errors create sdk_instruments
      in if errs \<noteq> [] then Inl (Errorf errs)
         else Inr \<lparr>sm_projection = projection,
           sm_resyncOpts = map (\<lambda>reason. (reason, [(''projection'', projection), (''reason'', sdk_resyncReasonNames reason)])) sdk_reasons\<rparr>)"

definition sdk_resync :: "syncMetrics \<Rightarrow> wire_reason \<Rightarrow> (attributes \<Rightarrow> int) \<Rightarrow> attributes \<Rightarrow> int" where
  "sdk_resync m reason counts =
     (let opt = (case map_of (sm_resyncOpts m) reason of
                   Some opt \<Rightarrow> opt
                 | None \<Rightarrow> gm_get (sm_resyncOpts m) RESYNC_REASON_UNSPECIFIED [])
      in add_count opt 1 counts)"

text \<open>The name of a gRPC code, in lower case as the attribute has it.\<close>

fun code_name :: "code \<Rightarrow> string" where
  "code_name OK = ''OK''"
| "code_name Canceled = ''Canceled''"
| "code_name Unknown = ''Unknown''"
| "code_name InvalidArgument = ''InvalidArgument''"
| "code_name DeadlineExceeded = ''DeadlineExceeded''"
| "code_name NotFound = ''NotFound''"
| "code_name AlreadyExists = ''AlreadyExists''"
| "code_name PermissionDenied = ''PermissionDenied''"
| "code_name ResourceExhausted = ''ResourceExhausted''"
| "code_name FailedPrecondition = ''FailedPrecondition''"
| "code_name Aborted = ''Aborted''"
| "code_name OutOfRange = ''OutOfRange''"
| "code_name Unimplemented = ''Unimplemented''"
| "code_name Internal = ''Internal''"
| "code_name Unavailable = ''Unavailable''"
| "code_name DataLoss = ''DataLoss''"
| "code_name Unauthenticated = ''Unauthenticated''"

definition sdk_streamError :: "syncMetrics \<Rightarrow> stream_end \<Rightarrow> (attributes \<Rightarrow> int) \<Rightarrow> attributes \<Rightarrow> int" where
  "sdk_streamError m err counts =
     add_count [(''projection'', sm_projection m), (''error_class'', to_lower (code_name (status_code err)))] 1 counts"

text \<open>What \<open>setState\<close> adds to the counter of fresh projections.\<close>

definition fresh_delta :: "bool \<Rightarrow> string \<Rightarrow> 's syncer \<Rightarrow> int" where
  "fresh_delta fresh cursor sy =
     (if sy_reported sy \<and> \<lparr>st_Fresh = fresh, st_Cursor = cursor\<rparr> = sy_state sy then 0
      else if (sy_reported sy \<and> st_Fresh (sy_state sy)) \<noteq> fresh then (if fresh then 1 else - 1)
      else 0)"

section \<open>Correctness\<close>

lemma newHubMetrics_Inr:
  "newHubMetrics create callback = Inr opts \<Longrightarrow> map_of opts reason = Some [(KeyReason, resyncReasonNames reason)]"
  by (cases reason)
    (auto simp: newHubMetrics_def rbind_Inr_iff keyed_def resync_reasons_def Attributes_def Allowed_def allowedKeys_def
      Let_def split: if_splits option.splits)

text \<open>A watch counts every event it hands to \<open>send\<close>, whether the send succeeds or not.\<close>

fun count_sends ::
    "(resyncReason, attributes) gomap \<Rightarrow> (event \<Rightarrow> goerror option) \<Rightarrow> send_counts \<Rightarrow> event list \<Rightarrow> send_counts" where
  "count_sends opts send n [] = n"
| "count_sends opts send n (ev # evs) = count_sends opts send (fst (countingSend opts send n ev)) evs"

lemma resync_names_inject: "resyncReasonNames a = resyncReasonNames b \<longleftrightarrow> a = b"
  by (cases a; cases b) simp_all

theorem watch_counts:
  assumes "newHubMetrics create callback = Inr opts"
  shows "sc_progress (count_sends opts send n evs) = sc_progress n + int (length (filter (\<lambda>e. \<exists>c. e = Progress c) evs)) \<and>
    sc_resyncs (count_sends opts send n evs) [(KeyReason, resyncReasonNames reason)] =
      sc_resyncs n [(KeyReason, resyncReasonNames reason)] + int (length (filter (\<lambda>e. e = Resync reason) evs))"
proof (induction evs arbitrary: n)
  case (Cons ev evs)
  then show ?case
    by (cases ev) (auto simp: countingSend_def newHubMetrics_Inr [OF assms] add_count_def resync_names_inject)
qed simp

text \<open>The counter follows the state that was reported: it is 1 exactly while the projection is reported fresh.\<close>

definition fresh_count :: "'s syncer \<Rightarrow> int" where
  "fresh_count sy = boolValue (sy_reported sy \<and> st_Fresh (sy_state sy))"

lemma fresh_delta_follows: "fresh_count sy + fresh_delta fresh cursor sy = fresh_count (setState fresh cursor sy)"
  by (auto simp: fresh_count_def fresh_delta_def setState_def boolValue_def Let_def)

lemma sync_loop_ends_stale:
  "sync_loop ops bounds sy v attempts = (sy', v', Returned r) \<Longrightarrow> fresh_count sy' = 0"
proof (induction ops bounds sy v attempts rule: sync_loop.induct)
  case (2 ops bounds sy v a as)
  have stale: "fresh_count (setState False c x) = 0" for c and x :: "'a syncer"
    by (cases "sy_state x") (auto simp: fresh_count_def setState_def boolValue_def Let_def)
  from 2 show ?case by (auto simp: Let_def stale split: prod.splits option.splits decision.splits if_splits)
qed simp

text \<open>A call of \<open>Sync\<close> that returned is counted as fresh by nobody.\<close>

theorem Sync_ends_stale:
  assumes "Sync ops projection minB maxB store attempts = (sy, v, Returned r)"
  shows "fresh_count sy = 0"
  using assms sync_loop_ends_stale
  by (fastforce simp: Sync_def Let_def fresh_count_def boolValue_def split: if_splits)

text \<open>Every instrument is named with the prefix that the views keep.\<close>

lemma instruments_prefixed:
  "list_all IsWatchdMetric (reader_instruments @ map gauge_name reader_gauges @ hub_instruments @ server_instruments @ sdk_instruments)"
  by code_simp

lemma occupancy_bounded: "window_ok src hist h \<Longrightarrow> hs_occupancy (observe_hub now h) \<le> hs_capacity (observe_hub now h)"
  by (simp add: window_ok_def observe_hub_def Let_def)

end
