(* ===== verification/Telemetry_Correct.thy ===== *)
theory Telemetry_Correct
  imports Telemetry
begin

text \<open>
  What the pipeline guarantees: re-bucketing a runtime histogram loses no observation and reports none
  below its value, export errors are logged at a bounded rate and none is forgotten, the environment enables exactly
  the exporters it names, and an instance id is a version 4 UUID.
\<close>

section \<open>Re-bucketing\<close>

fun edge_less :: "edge \<Rightarrow> edge \<Rightarrow> bool" where
  "edge_less NegInf e = (e \<noteq> NegInf)"
| "edge_less (Edge x) (Edge y) = (x < y)"
| "edge_less (Edge x) PosInf = True"
| "edge_less _ _ = False"

lemma below_less: "below b d \<Longrightarrow> edge_less d e \<Longrightarrow> below b e"
  by (cases d; cases e) auto

lemma below_sorted: "b \<le> c \<Longrightarrow> below c e \<Longrightarrow> below b e"
  by (cases e) auto

text \<open>The first bound at or above \<open>hi\<close>.\<close>

definition first_bound :: "rat list \<Rightarrow> edge \<Rightarrow> nat" where
  "first_bound bounds hi = length (takeWhile (\<lambda>b. below b hi) bounds)"

lemma first_bound_le: "first_bound bounds hi \<le> length bounds"
  by (simp add: first_bound_def length_takeWhile_le)

lemma first_bound_below: "i < first_bound bounds hi \<Longrightarrow> below (bounds ! i) hi"
  unfolding first_bound_def by (metis nth_mem set_takeWhileD takeWhile_nth)

lemma first_bound_above: "first_bound bounds hi < length bounds \<Longrightarrow> \<not> below (bounds ! first_bound bounds hi) hi"
  unfolding first_bound_def by (rule nth_length_takeWhile)

lemma first_bound_mono: "edge_less d e \<Longrightarrow> first_bound bounds d \<le> first_bound bounds e"
proof (rule ccontr)
  assume "edge_less d e" and less: "\<not> first_bound bounds d \<le> first_bound bounds e"
  then have "below (bounds ! first_bound bounds e) d" by (intro first_bound_below) simp
  then have "below (bounds ! first_bound bounds e) e" using \<open>edge_less d e\<close> by (rule below_less)
  moreover have "first_bound bounds e < length bounds" using less first_bound_le [of bounds d] by simp
  ultimately show False using first_bound_above by blast
qed

lemma next_target_first: "target \<le> first_bound bounds hi \<Longrightarrow> next_target bounds hi target = first_bound bounds hi"
proof (induction bounds hi target rule: next_target.induct)
  case (1 bounds hi target)
  show ?case
  proof (cases "target = first_bound bounds hi")
    case True
    then show ?thesis using first_bound_above [of bounds hi] by (subst next_target.simps) auto
  next
    case False
    then have "target < first_bound bounds hi" using "1.prems" by simp
    then have "target < length bounds" "below (bounds ! target) hi" "Suc target \<le> first_bound bounds hi"
      using first_bound_le [of bounds hi] first_bound_below [of target bounds hi] by simp_all
    then show ?thesis using "1.IH" by (subst next_target.simps) simp
  qed
qed

text \<open>The observations of the runtime buckets that belong under the bound with index \<open>j\<close>.\<close>

definition bucket_total :: "rat list \<Rightarrow> (64 word \<times> edge) list \<Rightarrow> nat \<Rightarrow> 64 word" where
  "bucket_total bounds cs j = sum_list (map fst (filter (\<lambda>(c, hi). first_bound bounds hi = j) cs))"

lemma bucket_total_simps [simp]:
  "bucket_total bounds [] j = 0"
  "bucket_total bounds ((c, hi) # cs) j = (if first_bound bounds hi = j then c else 0) + bucket_total bounds cs j"
  by (simp_all add: bucket_total_def)

lemma rebucket_loop_exact:
  assumes "i + length cs < length edges" "sorted_wrt edge_less edges"
    and "length (dp_BucketCounts dp) = Suc (length bounds)"
    and "cs \<noteq> [] \<Longrightarrow> target \<le> first_bound bounds (edges ! Suc i)"
  shows "\<exists>dp'. rebucket_loop bounds edges cs i target dp = Inr dp' \<and> dp_Count dp' = dp_Count dp + sum_list cs \<and>
    dp_Bounds dp' = dp_Bounds dp \<and> length (dp_BucketCounts dp') = Suc (length bounds) \<and>
    (\<forall>j \<le> length bounds. dp_BucketCounts dp' ! j =
       dp_BucketCounts dp ! j + bucket_total bounds (zip cs (drop (Suc i) edges)) j)"
  using assms(1,3,4)
proof (induction cs arbitrary: i target dp)
  case (Cons c cs)
  let ?hi = "edges ! Suc i"
  let ?t = "first_bound bounds ?hi"
  have hi: "at_index edges (Suc i) = Inr ?hi" "at_index edges i = Inr (edges ! i)" using Cons.prems(1) by simp_all
  have t: "next_target bounds ?hi target = ?t" using Cons.prems(3) by (intro next_target_first) simp
  have drop: "drop (Suc i) edges = ?hi # drop (Suc (Suc i)) edges"
    using Cons.prems(1) by (intro Cons_nth_drop_Suc [symmetric]) simp
  have len: "?t < length (dp_BucketCounts dp)" using Cons.prems(2) first_bound_le [of bounds ?hi] by simp
  have next_edge: "?t \<le> first_bound bounds (edges ! Suc (Suc i))" if "cs \<noteq> []"
  proof (rule first_bound_mono)
    have "Suc (Suc i) < length edges" using Cons.prems(1) that by (cases cs) simp_all
    then show "edge_less ?hi (edges ! Suc (Suc i))" using assms(2) by (simp add: sorted_wrt_iff_nth_less)
  qed
  show ?case
  proof (cases "c = 0")
    case True
    from Cons.IH [of "Suc i" dp ?t] Cons.prems(1,2) next_edge show ?thesis by (auto simp: True hi t drop Let_def)
  next
    case False
    let ?dp = "dp\<lparr>dp_BucketCounts := (dp_BucketCounts dp)[?t := dp_BucketCounts dp ! ?t + c],
      dp_Count := dp_Count dp + c, dp_Sum := add_sum (edges ! i) c (dp_Sum dp)\<rparr>"
    obtain dp' where dp': "rebucket_loop bounds edges cs (Suc i) ?t ?dp = Inr dp'" "dp_Count dp' = dp_Count ?dp + sum_list cs"
        "dp_Bounds dp' = dp_Bounds ?dp" "length (dp_BucketCounts dp') = Suc (length bounds)"
        "\<forall>j \<le> length bounds. dp_BucketCounts dp' ! j =
           dp_BucketCounts ?dp ! j + bucket_total bounds (zip cs (drop (Suc (Suc i)) edges)) j"
      using Cons.IH [of "Suc i" ?dp ?t] Cons.prems(1,2) next_edge by auto
    show ?thesis
      using dp' len False Cons.prems(2) by (auto simp: hi t drop Let_def nth_list_update add_ac)
  qed
qed simp

lemma sum_bucket_totals:
  "sum_list (map (bucket_total bounds cs) [0..<Suc (length bounds)]) = sum_list (map fst cs)"
proof (induction cs)
  case (Cons a cs)
  obtain c hi where a: "a = (c, hi)" by (cases a)
  have one: "sum_list (map (\<lambda>j. if k = j then c else 0) [0..<n]) = (if k < n then c else 0)" for k n
    by (induction n) auto
  have "sum_list (map (bucket_total bounds (a # cs)) [0..<Suc (length bounds)]) =
      sum_list (map (\<lambda>j. if first_bound bounds hi = j then c else 0) [0..<Suc (length bounds)]) +
      sum_list (map (bucket_total bounds cs) [0..<Suc (length bounds)])"
    unfolding a sum_list_addf [symmetric] by (intro arg_cong [where f = sum_list] map_cong refl) (rule bucket_total_simps(2))
  then show ?case using Cons.IH first_bound_le [of bounds hi] by (simp only: one) (simp add: a)
qed (simp add: bucket_total_def)

lemma rebucket_counts:
  assumes "length (h_Buckets h) = Suc (length (h_Counts h))" "sorted_wrt edge_less (h_Buckets h)"
  shows "\<exists>dp. rebucket h bounds = Inr dp \<and> dp_Count dp = sum_list (h_Counts h) \<and> dp_Bounds dp = bounds \<and>
    length (dp_BucketCounts dp) = Suc (length bounds) \<and>
    (\<forall>j \<le> length bounds. dp_BucketCounts dp ! j = bucket_total bounds (zip (h_Counts h) (tl (h_Buckets h))) j)"
proof -
  let ?dp = "\<lparr>dp_Count = 0, dp_Sum = Some 0, dp_Bounds = bounds, dp_BucketCounts = replicate (length bounds + 1) 0\<rparr>"
  have tl: "drop (Suc 0) (h_Buckets h) = tl (h_Buckets h)" by (simp add: drop_Suc)
  obtain dp where dp: "rebucket_loop bounds (h_Buckets h) (h_Counts h) 0 0 ?dp = Inr dp"
      "dp_Count dp = sum_list (h_Counts h)" "dp_Bounds dp = bounds" "length (dp_BucketCounts dp) = Suc (length bounds)"
      "\<forall>j \<le> length bounds. dp_BucketCounts dp ! j = bucket_total bounds (zip (h_Counts h) (tl (h_Buckets h))) j"
    using rebucket_loop_exact [of 0 "h_Counts h" "h_Buckets h" ?dp bounds 0] assms(1,2)
    by (auto simp: tl nth_Cons split: nat.splits simp flip: replicate_Suc)
  then show ?thesis by (auto simp: rebucket_def)
qed

text \<open>C37: Re-bucketing a runtime histogram is exact. For a histogram as \<open>runtime/metrics\<close> documents it - one more edge than
  counts, the edges increasing - and sorted bounds, \<open>rebucket\<close> returns without a panic; each of its counts is the
  sum of the runtime buckets whose upper edge lies at or below its bound and above the one before, so no observation is reported
  below its value; the last one takes what exceeds every bound; and no observation is lost or
  counted twice, even as the 64-bit counters wrap.\<close>

theorem rebucket_exact:
  assumes "length (h_Buckets h) = Suc (length (h_Counts h))" "sorted_wrt edge_less (h_Buckets h)" "sorted bounds"
  shows "\<exists>dp. rebucket h bounds = Inr dp \<and> dp_Bounds dp = bounds \<and>
    dp_BucketCounts dp = map (bucket_total bounds (zip (h_Counts h) (tl (h_Buckets h)))) [0..<Suc (length bounds)] \<and>
    dp_Count dp = sum_list (h_Counts h) \<and> sum_list (dp_BucketCounts dp) = dp_Count dp \<and>
    (\<forall>hi j. j < length bounds \<longrightarrow> (j < first_bound bounds hi \<longleftrightarrow> below (bounds ! j) hi))"
proof -
  obtain dp where dp: "rebucket h bounds = Inr dp" "dp_Count dp = sum_list (h_Counts h)" "dp_Bounds dp = bounds"
      "length (dp_BucketCounts dp) = Suc (length bounds)"
      "\<forall>j \<le> length bounds. dp_BucketCounts dp ! j = bucket_total bounds (zip (h_Counts h) (tl (h_Buckets h))) j"
    using rebucket_counts [OF assms(1,2)] by blast
  have counts: "dp_BucketCounts dp = map (bucket_total bounds (zip (h_Counts h) (tl (h_Buckets h)))) [0..<Suc (length bounds)]"
    using dp(4,5) by (intro nth_equalityI) (simp_all del: upt_Suc)
  have "map fst (zip (h_Counts h) (tl (h_Buckets h))) = h_Counts h" using assms(1) by (intro map_fst_zip) simp
  then have "sum_list (dp_BucketCounts dp) = dp_Count dp" by (simp only: counts sum_bucket_totals dp(2))
  moreover have "j < first_bound bounds hi" if "j < length bounds" "below (bounds ! j) hi" for j hi
  proof (rule ccontr)
    assume "\<not> j < first_bound bounds hi"
    then have "bounds ! first_bound bounds hi \<le> bounds ! j" "first_bound bounds hi < length bounds"
      using assms(3) that(1) by (auto simp: sorted_iff_nth_mono)
    then show False using below_sorted that(2) first_bound_above by blast
  qed
  ultimately show ?thesis
    using dp(1,2,3) counts first_bound_below by (intro exI [of _ dp]) (auto simp del: upt_Suc)
qed

theorem rebucket_exact_witness:
  "\<exists>dp. rebucket \<lparr>h_Counts = [3, 0, 5], h_Buckets = [NegInf, Edge 1, Edge 2, PosInf]\<rparr> [1, 5] = Inr dp \<and>
     dp_BucketCounts dp = [3, 0, 5] \<and> dp_Count dp = 8"
proof -
  let ?h = "\<lparr>h_Counts = [3, 0, 5], h_Buckets = [NegInf, Edge 1, Edge 2, PosInf]\<rparr>"
  have "length (h_Buckets ?h) = Suc (length (h_Counts ?h))" "sorted_wrt edge_less (h_Buckets ?h)" "sorted [1, 5 :: rat]"
    by simp_all
  from rebucket_exact [OF this] obtain dp where dp: "rebucket ?h [1, 5] = Inr dp"
      "dp_BucketCounts dp = map (bucket_total [1, 5] (zip [3, 0, 5] [Edge 1, Edge 2, PosInf])) [0..<3]" "dp_Count dp = 8"
    by (auto simp: numeral_3_eq_3 simp del: upt_Suc)
  have "dp_BucketCounts dp = [3, 0, 5]"
    by (simp add: dp(2) upt_rec first_bound_def)
  with dp(1,3) show ?thesis by blast
qed

lemma runtimeLatencyBounds_sorted: "sorted runtimeLatencyBounds"
proof -
  have mono: "sorted (map float64 xs)" if "sorted xs" for xs using that by (induction xs) (auto intro: float64_mono)
  show ?thesis unfolding runtimeLatencyBounds_def by (rule mono) simp
qed

text \<open>\<open>Produce\<close> gives every histogram the runtime supports, under its metric's name.\<close>

theorem Produce_complete:
  assumes "\<And>name h. sample name = Some h \<Longrightarrow>
    length (h_Buckets h) = Suc (length (h_Counts h)) \<and> sorted_wrt edge_less (h_Buckets h)"
  shows "\<exists>out. Produce sample = Inr out \<and>
    map fst out = map snd (filter (\<lambda>(runtimeName, name). sample runtimeName \<noteq> None) runtimeHistograms)"
proof -
  have "\<exists>out. produce_loop sample hs = Inr out \<and>
      map fst out = map snd (filter (\<lambda>(runtimeName, name). sample runtimeName \<noteq> None) hs)" for hs
  proof (induction hs)
    case (Cons a hs)
    obtain runtimeName name where a: "a = (runtimeName, name)" by (cases a)
    show ?case
    proof (cases "sample runtimeName")
      case (Some h)
      then obtain dp where "rebucket h runtimeLatencyBounds = Inr dp"
        using rebucket_counts [of h] assms [OF Some] by blast
      then show ?thesis using Cons.IH by (auto simp: a Some)
    qed (use Cons.IH in \<open>auto simp: a\<close>)
  qed simp
  then show ?thesis by (simp add: Produce_def)
qed

section \<open>Export errors\<close>

text \<open>The errors arriving at the given times: the handler that is left, and the lines logged, each with its time and
  the number of errors it says were suppressed.\<close>

fun handle_all :: "errorHandler \<Rightarrow> int list \<Rightarrow> errorHandler \<times> (int \<times> int) list" where
  "handle_all h [] = (h, [])"
| "handle_all h (now # ts) =
     (case Handle now h of
        (h1, None) \<Rightarrow> handle_all h1 ts
      | (h1, Some n) \<Rightarrow> (case handle_all h1 ts of (h2, ls) \<Rightarrow> (h2, (now, n) # ls)))"

lemma handle_all_lines:
  assumes "handle_all h ts = (h', ls)"
  shows "sorted_wrt (\<lambda>a b. errorLogInterval \<le> fst b - fst a) ls"
    and "\<And>t l. eh_last h = Some t \<Longrightarrow> l \<in> set ls \<Longrightarrow> errorLogInterval \<le> fst l - t"
    and "eh_suppressed h + int (length ts) = sum_list (map (\<lambda>l. snd l + 1) ls) + eh_suppressed h'"
proof -
  have pos: "0 < errorLogInterval" by (simp add: errorLogInterval_def)
  have "sorted_wrt (\<lambda>a b. errorLogInterval \<le> fst b - fst a) ls \<and>
      (\<forall>t l. eh_last h = Some t \<longrightarrow> l \<in> set ls \<longrightarrow> errorLogInterval \<le> fst l - t) \<and>
      eh_suppressed h + int (length ts) = sum_list (map (\<lambda>l. snd l + 1) ls) + eh_suppressed h'"
    using assms
  proof (induction ts arbitrary: h ls)
    case (Cons now ts)
    obtain h1 r where h1: "Handle now h = (h1, r)" by (cases "Handle now h")
    show ?case
    proof (cases r)
      case None
      then have "eh_last h1 = eh_last h" "eh_suppressed h1 = eh_suppressed h + 1" using h1 by (auto simp: Handle_def split: if_splits)
      then show ?thesis using Cons.IH [of h1 ls] Cons.prems h1 None by auto
    next
      case (Some n)
      obtain ls1 where ls: "handle_all h1 ts = (h', ls1)" "ls = (now, n) # ls1"
        using Cons.prems h1 Some by (auto split: prod.splits)
      have "eh_last h1 = Some now" "eh_suppressed h1 = 0" "n = eh_suppressed h"
        "\<And>t. eh_last h = Some t \<Longrightarrow> errorLogInterval \<le> now - t"
        using h1 Some by (auto simp: Handle_def split: if_splits option.splits)
      then show ?thesis using Cons.IH [OF ls(1)] pos by (fastforce simp: ls(2))
    qed
  qed simp
  then show "sorted_wrt (\<lambda>a b. errorLogInterval \<le> fst b - fst a) ls"
    "\<And>t l. eh_last h = Some t \<Longrightarrow> l \<in> set ls \<Longrightarrow> errorLogInterval \<le> fst l - t"
    "eh_suppressed h + int (length ts) = sum_list (map (\<lambda>l. snd l + 1) ls) + eh_suppressed h'" by blast+
qed

text \<open>Export errors never flood the log and none is forgotten. Whenever errors arrive, any two lines logged are at
  least \<open>errorLogInterval\<close> apart, and the errors handled are exactly those logged, those the lines
  report as suppressed, and those that wait to be reported.\<close>

theorem export_errors_bounded:
  assumes "handle_all newErrorHandler ts = (h, ls)"
  shows "sorted_wrt (\<lambda>a b. errorLogInterval \<le> fst b - fst a) ls \<and>
    int (length ts) = sum_list (map (\<lambda>l. snd l + 1) ls) + eh_suppressed h \<and> (ts = [] \<or> ls \<noteq> [] \<and> fst (hd ls) = hd ts)"
proof -
  have "ts = [] \<or> ls \<noteq> [] \<and> fst (hd ls) = hd ts"
    using assms by (cases ts) (auto simp: newErrorHandler_def Handle_def split: prod.splits)
  then show ?thesis using handle_all_lines [OF assms] by (simp add: newErrorHandler_def)
qed

theorem export_errors_bounded_witness:
  "int (length [0, 1, 2, 40 * 1000000000]) =
     sum_list (map (\<lambda>l. snd l + 1) (snd (handle_all newErrorHandler [0, 1, 2, 40 * 1000000000]))) \<and>
   snd (handle_all newErrorHandler [0, 1, 2, 40 * 1000000000]) = [(0, 0), (40 * 1000000000, 2)]"
proof -
  have "handle_all newErrorHandler [0, 1, 2, 40 * 1000000000] =
      (\<lparr>eh_last = Some (40 * 1000000000), eh_suppressed = 0\<rparr>, [(0, 0), (40 * 1000000000, 2)])"
    by (simp add: newErrorHandler_def Handle_def errorLogInterval_def)
  from export_errors_bounded [OF this] this show ?thesis by simp
qed

section \<open>What the environment enables\<close>

definition exporter_names :: "string \<Rightarrow> string list" where
  "exporter_names value = map TrimSpace (split_on (CHR '','') value)"

lemma otlpEnabled_iff:
  "otlpEnabled value = Inr b \<longleftrightarrow>
     set (exporter_names value) \<subseteq> {[], ''prometheus'', ''none'', ''otlp''} \<and> b = (''otlp'' \<in> set (exporter_names value))"
proof -
  have "otlp_loop o' ns = Inr b \<longleftrightarrow> set (map TrimSpace ns) \<subseteq> {[], ''prometheus'', ''none'', ''otlp''} \<and>
      b = (o' \<or> ''otlp'' \<in> set (map TrimSpace ns))" for o' ns
    by (induction ns arbitrary: o') auto
  then show ?thesis by (simp add: otlpEnabled_def exporter_names_def)
qed

text \<open>The pipeline has exactly the readers asked for: the pull exporter when there is an ops listener, the push exporter
  when the environment lists \<open>otlp\<close>, over the transport it names; and a name or protocol that is not known is refused as an
  invalid environment.\<close>

theorem Setup_readers:
  assumes "Setup env sourceID prometheus = Inr t"
  shows "tel_handler t = prometheus \<and> (PrometheusReader \<in> set (tel_readers t) \<longleftrightarrow> prometheus) \<and>
    ((\<exists>tr. PeriodicReader tr \<in> set (tel_readers t)) \<longleftrightarrow> ''otlp'' \<in> set (exporter_names (su_getenv env ''OTEL_METRICS_EXPORTER''))) \<and>
    set (exporter_names (su_getenv env ''OTEL_METRICS_EXPORTER'')) \<subseteq> {[], ''prometheus'', ''none'', ''otlp''}"
proof -
  obtain otlp pull push where s: "otlpEnabled (su_getenv env ''OTEL_METRICS_EXPORTER'') = Inr otlp"
      "tel_readers t = pull @ push" "tel_handler t = prometheus" "pull = (if prometheus then [PrometheusReader] else [])"
      "if otlp then \<exists>tr. push = [PeriodicReader tr] else push = []"
    using assms by (auto simp: Setup_def rbind_Inr_iff split: if_splits option.splits)
  then show ?thesis by (auto simp: otlpEnabled_iff split: if_splits)
qed

section \<open>Instance identifiers\<close>

lemma hex_bytes_length [simp]: "length (hex_bytes bs) = 2 * length bs"
  by (induction bs) (simp_all add: hex_bytes_def)

lemma high_digit:
  fixes w :: byte
  shows "unat w div 16 = unat (drop_bit 4 w)"
  unfolding unat_drop_bit_eq by (simp add: drop_bit_eq_div)

lemma version_digit:
  fixes b :: byte
  shows "unat ((b AND 0x0f) OR 0x40) div 16 = 4"
  by (simp add: high_digit drop_bit_or drop_bit_and)

lemma variant_digit:
  fixes b :: byte
  shows "unat ((b AND 0x3f) OR 0x80) div 16 \<in> {8, 9, 10, 11}"
proof -
  let ?x = "drop_bit 4 b AND 3"
  have "drop_bit 4 ((b AND 0x3f) OR 0x80) = ?x OR 8" by (simp add: drop_bit_or drop_bit_and)
  moreover have "y = 0 \<or> y = 1 \<or> y = 2 \<or> y = 3" if "y \<le> 3" for y :: byte
    using that by (simp add: word_le_nat_alt word_unat_eq_iff) linarith
  then have "?x \<in> {0, 1, 2, 3}" using word_and_le1 by blast
  ultimately show ?thesis by (auto simp: high_digit)
qed

lemma hex_digits:
  "hex_digit 4 = CHR ''4''" "hex_digit 8 = CHR ''8''" "hex_digit 9 = CHR ''9''" "hex_digit 10 = CHR ''a''" "hex_digit 11 = CHR ''b''"
  by code_simp+

text \<open>An instance id has the form of a version 4 UUID.\<close>

theorem instanceID_uuid4:
  assumes "length random = 16"
  shows "length (instanceID random) = 36 \<and> map (\<lambda>i. instanceID random ! i) [8, 13, 18, 23] = ''----'' \<and>
    instanceID random ! 14 = CHR ''4'' \<and> instanceID random ! 19 \<in> set ''89ab''"
proof -
  obtain b0 b1 b2 b3 b4 b5 b6 b7 b8 b9 ba bb bc bd be bf where r: "random = [b0,b1,b2,b3,b4,b5,b6,b7,b8,b9,ba,bb,bc,bd,be,bf]"
    using assms by (auto simp: numeral_eq_Suc length_Suc_conv)
  have v: "hex_digit (unat ((b6 AND 0x0f) OR 0x40) div 16) = CHR ''4''"
    unfolding version_digit by (rule hex_digits(1))
  have w: "hex_digit (unat ((b8 AND 0x3f) OR 0x80) div 16) \<in> set ''89ab''"
    using variant_digit [of b8] by (auto simp: hex_digits)
  show ?thesis using v w by (simp add: instanceID_def stamp_version_def r hex_bytes_def)
qed

theorem instanceID_uuid4_witness:
  "instanceID (replicate 16 0) ! 14 = CHR ''4''"
  using instanceID_uuid4 [of "replicate 16 0"] by simp

end
