(* ===== verification/Ops.thy ===== *)
theory Ops
  imports Daemon Telemetry_Correct
begin

text \<open>
  The ops endpoint (\<open>internal/ops/ops.go\<close>), the health service of the API server (\<open>internal/server/server.go\<close>,
  \<open>SetServing\<close>) and how \<open>Serve\<close> drives them (\<open>internal/daemon/daemon.go\<close>: \<open>setServing\<close>, \<open>registerServingGauge\<close>,
  \<open>startOps\<close>, \<open>stopOps\<close>, \<open>newGRPCServer\<close>).

  \<open>http.ServeMux\<close> is modelled as far as these patterns use it: methods, exact paths and one subtree, redirection of
  paths that are not clean or lack the slash of a subtree, \<open>405\<close> and \<open>404\<close>. The handlers of the Prometheus and
  \<open>pprof\<close> packages are answers of their own (\<open>Exposition\<close>, \<open>Profile\<close>).
\<close>

section \<open>The mux\<close>

datatype target = Exposition | Healthz | Readyz | Profile string

record mux_route =
  mx_method :: "string option"
  mx_path :: string
  mx_target :: target

definition method_ok :: "string \<Rightarrow> mux_route \<Rightarrow> bool" where
  "method_ok verb r = (case mx_method r of None \<Rightarrow> True | Some m \<Rightarrow> verb = m \<or> m = ''GET'' \<and> verb = ''HEAD'')"

definition path_ok :: "string \<Rightarrow> mux_route \<Rightarrow> bool" where
  "path_ok path r =
     (if mx_path r \<noteq> [] \<and> last (mx_path r) = CHR ''/'' then has_prefix path (mx_path r) else path = mx_path r)"

text \<open>The most specific pattern: an exact path before a subtree.\<close>

definition mux_match :: "mux_route list \<Rightarrow> string \<Rightarrow> string \<Rightarrow> mux_route option" where
  "mux_match rs verb path =
     (let found = filter (\<lambda>r. method_ok verb r \<and> path_ok path r) rs
      in case find (\<lambda>r. mx_path r = path) found of Some r \<Rightarrow> Some r | None \<Rightarrow> (case found of [] \<Rightarrow> None | r # _ \<Rightarrow> Some r))"

definition clean_path :: "string \<Rightarrow> bool" where
  "clean_path path \<longleftrightarrow>
     (let parts = split_on (CHR ''/'') path
      in 2 \<le> length parts \<and> hd parts = [] \<and> list_all (\<lambda>p. p \<notin> {[], ''.'', ''..''}) (butlast (tl parts)) \<and>
         last parts \<notin> {''.'', ''..''})"

definition exact_match :: "string \<Rightarrow> mux_route option \<Rightarrow> bool" where
  "exact_match path found = (case found of None \<Rightarrow> False | Some r \<Rightarrow> mx_path r = path)"

datatype routed = Routed target | Redirected | MethodNotAllowed | NotFound

definition mux_serve :: "mux_route list \<Rightarrow> string \<Rightarrow> string \<Rightarrow> routed" where
  "mux_serve rs verb path =
     (let found = mux_match rs verb path; slashed = path @ ''/''
      in if \<not> exact_match path found \<and> path \<noteq> [] \<and> last path \<noteq> CHR ''/'' \<and> exact_match slashed (mux_match rs verb slashed)
         then Redirected
         else if verb \<noteq> ''CONNECT'' \<and> \<not> clean_path path then Redirected
         else case found of
           Some r \<Rightarrow> Routed (mx_target r)
         | None \<Rightarrow> if list_ex (path_ok path) rs then MethodNotAllowed else NotFound)"

section \<open>The endpoint\<close>

record ops_handler =
  oh_metrics :: bool
  oh_ready :: "(unit \<Rightarrow> bool) option"
  oh_pprof :: bool

record http_answer =
  ha_code :: int
  ha_headers :: "(string \<times> string) list"
  ha_body :: string

definition writeStatus :: "int \<Rightarrow> string \<Rightarrow> http_answer" where
  "writeStatus code body = \<lparr>ha_code = code,
     ha_headers = [(''Content-Type'', ''text/plain; charset=utf-8''), (''Cache-Control'', ''no-store'')],
     ha_body = body @ [CHR 0x0A]\<rparr>"

definition ops_routes :: "ops_handler \<Rightarrow> mux_route list" where
  "ops_routes cfg =
     (if oh_metrics cfg then [\<lparr>mx_method = Some ''GET'', mx_path = ''/metrics'', mx_target = Exposition\<rparr>] else []) @
     [\<lparr>mx_method = Some ''GET'', mx_path = ''/healthz'', mx_target = Healthz\<rparr>,
      \<lparr>mx_method = Some ''GET'', mx_path = ''/readyz'', mx_target = Readyz\<rparr>] @
     (if oh_pprof cfg then
        [\<lparr>mx_method = None, mx_path = ''/debug/pprof/'', mx_target = Profile ''index''\<rparr>,
         \<lparr>mx_method = None, mx_path = ''/debug/pprof/cmdline'', mx_target = Profile ''cmdline''\<rparr>,
         \<lparr>mx_method = None, mx_path = ''/debug/pprof/profile'', mx_target = Profile ''profile''\<rparr>,
         \<lparr>mx_method = None, mx_path = ''/debug/pprof/symbol'', mx_target = Profile ''symbol''\<rparr>,
         \<lparr>mx_method = None, mx_path = ''/debug/pprof/trace'', mx_target = Profile ''trace''\<rparr>]
      else [])"

text \<open>\<open>Inl\<close> is what the mux or a library handler answers.\<close>

definition OpsHandler :: "ops_handler \<Rightarrow> string \<Rightarrow> string \<Rightarrow> routed + http_answer" where
  "OpsHandler cfg verb path =
     (case mux_serve (ops_routes cfg) verb path of
        Routed Healthz \<Rightarrow> Inr (writeStatus 200 ''ok'')
      | Routed Readyz \<Rightarrow>
          (case oh_ready cfg of
             Some ready \<Rightarrow> if ready () then Inr (writeStatus 200 ''ready'') else Inr (writeStatus 503 ''not ready'')
           | None \<Rightarrow> Inr (writeStatus 503 ''not ready''))
      | other \<Rightarrow> Inl other)"

section \<open>Health and the serving state\<close>

definition watch_service :: string where "watch_service = ''watch.v1.WatchService''"

datatype health = SERVING | NOT_SERVING

definition health_of :: "bool \<Rightarrow> health" where
  "health_of serving = (if serving then SERVING else NOT_SERVING)"

text \<open>What the process does to itself, one observable store at a time, and what may happen to it at any moment: the
  source's stream ends, serving the API fails, the ops server fails.\<close>

datatype serve_step =
    Effect serve_effect
  | StoreServing bool
  | StoreHealth string health
  | SourceEnded | APIFailed | OpsFailed

definition own_step :: "serve_step \<Rightarrow> bool" where
  "own_step s \<longleftrightarrow> s \<notin> {SourceEnded, APIFailed, OpsFailed}"

text \<open>\<open>SetServing\<close> of the server, and \<open>setServing\<close> of the daemon, store by store: nothing holds them together.\<close>

definition SetServingStatuses :: "bool \<Rightarrow> serve_step list" where
  "SetServingStatuses serving =
     (let state = health_of serving in [StoreHealth [] state, StoreHealth watch_service state])"

definition setServing :: "bool \<Rightarrow> serve_step list" where
  "setServing v = StoreServing v # SetServingStatuses v"

fun effect_steps :: "serve_effect \<Rightarrow> serve_step list" where
  "effect_steps (Daemon.SetServing v) = setServing v"
| "effect_steps e = [Effect e]"

definition serve_steps :: "serve_effect list \<Rightarrow> serve_step list" where
  "serve_steps effs = concat (map effect_steps effs)"

record process =
  proc_serving :: bool
  proc_health :: "(string, health) gomap"
  proc_ops :: "ops_handler option"
  proc_profiling :: "(int \<times> int) option"
  proc_source :: bool
  proc_api :: bool
  proc_watches :: bool
  proc_sourceEnded :: bool
  proc_apiFailed :: bool

text \<open>Before \<open>Serve\<close> runs; \<open>server.New\<close> reports NOT_SERVING. \<open>proc_source\<close> and \<open>proc_api\<close> tell whether \<open>Serve\<close> has
  started the source and the API server and not yet stopped them, \<open>proc_watches\<close> whether the hub takes watches.\<close>

definition new_process :: process where
  "new_process = \<lparr>proc_serving = False, proc_health = [([], NOT_SERVING), (watch_service, NOT_SERVING)], proc_ops = None,
     proc_profiling = None, proc_source = False, proc_api = False, proc_watches = True,
     proc_sourceEnded = False, proc_apiFailed = False\<rparr>"

definition serving_gauge :: "process \<Rightarrow> int" where
  "serving_gauge p = (if proc_serving p then 1 else 0)"

text \<open>\<open>registerServingGauge\<close>: the errors of creating the gauge and of registering its callback.\<close>

definition registerServingGauge :: "goerror option \<Rightarrow> goerror option \<Rightarrow> goerror + (process \<Rightarrow> int)" where
  "registerServingGauge created registered =
     (case created of
        Some err \<Rightarrow> Inl err
      | None \<Rightarrow> (case registered of Some err \<Rightarrow> Inl err | None \<Rightarrow> Inr serving_gauge))"

text \<open>\<open>startOps\<close>: the handler reads the serving state when it is asked, so it is kept without it.\<close>

definition startOps :: "opsConfig \<Rightarrow> bool \<Rightarrow> telemetry \<Rightarrow> process \<Rightarrow> process" where
  "startOps cfg has_listener tel p =
     (if \<not> has_listener then p
      else p\<lparr>proc_profiling := (if ops_pprof cfg then Some (ops_mutex_profile_fraction cfg, ops_block_profile_rate cfg)
                                 else proc_profiling p),
             proc_ops := Some \<lparr>oh_metrics = tel_handler tel, oh_ready = None, oh_pprof = ops_pprof cfg\<rparr>\<rparr>)"

datatype ops_stop = OpsShutdown | OpsClose

text \<open>What \<open>stopOps\<close> calls; \<open>shutdown\<close> is the error of \<open>Shutdown\<close>.\<close>

definition stopOps :: "bool \<Rightarrow> goerror option \<Rightarrow> ops_stop list" where
  "stopOps has_server shutdown =
     (if \<not> has_server then [] else OpsShutdown # (case shutdown of Some err \<Rightarrow> [OpsClose] | None \<Rightarrow> []))"

text \<open>A request to the ops endpoint of a process: \<open>None\<close> when nothing listens.\<close>

definition ops_request :: "process \<Rightarrow> string \<Rightarrow> string \<Rightarrow> (routed + http_answer) option" where
  "ops_request p verb path =
     map_option (\<lambda>h. OpsHandler (h\<lparr>oh_ready := Some (\<lambda>_. proc_serving p)\<rparr>) verb path) (proc_ops p)"

definition apply_effect :: "opsConfig \<Rightarrow> telemetry \<Rightarrow> serve_effect \<Rightarrow> process \<Rightarrow> process" where
  "apply_effect cfg tel e p =
     (case e of
        OpsUp \<Rightarrow> startOps cfg True tel p
      | OpsDown \<Rightarrow> p\<lparr>proc_ops := None\<rparr>
      | SourceStarted \<Rightarrow> p\<lparr>proc_source := True\<rparr>
      | ServeAPI \<Rightarrow> p\<lparr>proc_api := True\<rparr>
      | HubStop \<Rightarrow> p\<lparr>proc_watches := False\<rparr>
      | ServerStopped _ \<Rightarrow> p\<lparr>proc_api := False\<rparr>
      | StopSource \<Rightarrow> p\<lparr>proc_source := False\<rparr>
      | _ \<Rightarrow> p)"

fun apply_step :: "opsConfig \<Rightarrow> telemetry \<Rightarrow> serve_step \<Rightarrow> process \<Rightarrow> process" where
  "apply_step cfg tel (Effect e) p = apply_effect cfg tel e p"
| "apply_step cfg tel (StoreServing v) p = p\<lparr>proc_serving := v\<rparr>"
| "apply_step cfg tel (StoreHealth service h) p = p\<lparr>proc_health := AList.update service h (proc_health p)\<rparr>"
| "apply_step cfg tel SourceEnded p = p\<lparr>proc_sourceEnded := True\<rparr>"
| "apply_step cfg tel APIFailed p = p\<lparr>proc_apiFailed := True\<rparr>"
| "apply_step cfg tel OpsFailed p = p\<lparr>proc_ops := None\<rparr>"

section \<open>Instrumented methods\<close>

text \<open>\<open>newGRPCServer\<close>: the methods whose calls are recorded, from what \<open>GetServiceInfo\<close> gives for the registered services.\<close>

definition known_methods :: "(string \<times> string list) list \<Rightarrow> string list" where
  "known_methods info = concat (map (\<lambda>(service, methods). map (\<lambda>m. ''/'' @ service @ ''/'' @ m) methods) info)"

definition method_filter :: "(string \<times> string list) list \<Rightarrow> string \<Rightarrow> bool" where
  "method_filter info fullMethod = (fullMethod \<in> set (known_methods info))"

section \<open>What the endpoint answers\<close>

lemma readyz_answer:
  "OpsHandler (h\<lparr>oh_ready := Some (\<lambda>_. ready)\<rparr>) ''GET'' ''/readyz'' =
    Inr (if ready then writeStatus 200 ''ready'' else writeStatus 503 ''not ready'')"
  by (simp add: OpsHandler_def mux_serve_def mux_match_def ops_routes_def method_ok_def path_ok_def exact_match_def
      clean_path_def Let_def)

lemma healthz_answer: "OpsHandler h ''GET'' ''/healthz'' = Inr (writeStatus 200 ''ok'')"
  by (simp add: OpsHandler_def mux_serve_def mux_match_def ops_routes_def method_ok_def path_ok_def exact_match_def
      clean_path_def Let_def)

lemma find_in_set: "find P xs = Some x \<Longrightarrow> x \<in> set xs"
  by (metis find_Some_iff nth_mem)

lemma mux_match_route:
  assumes "mux_match rs verb path = Some r"
  shows "r \<in> set rs \<and> method_ok verb r \<and> path_ok path r"
proof -
  let ?found = "filter (\<lambda>r. method_ok verb r \<and> path_ok path r) rs"
  have "r \<in> set ?found"
  proof (cases "find (\<lambda>r. mx_path r = path) ?found")
    case (Some r')
    with assms show ?thesis using find_in_set [OF Some] by (simp add: mux_match_def Let_def)
  next
    case None
    with assms show ?thesis by (cases ?found) (simp_all add: mux_match_def Let_def)
  qed
  then show ?thesis by simp
qed

lemma mux_serve_route:
  "mux_serve rs verb path = Routed t \<Longrightarrow> \<exists>r \<in> set rs. mx_target r = t \<and> method_ok verb r \<and> path_ok path r"
  by (auto simp: mux_serve_def Let_def split: if_splits option.splits dest!: mux_match_route)

lemma profile_needs_pprof: "OpsHandler h verb path = Inl (Routed (Profile x)) \<Longrightarrow> oh_pprof h"
  using mux_serve_route [of "ops_routes h" verb path "Profile x"]
  by (auto simp: OpsHandler_def ops_routes_def split: routed.splits target.splits option.splits if_splits)

section \<open>Readiness\<close>

text \<open>The services whose health status is still to be stored after the process's latest step.\<close>

fun lagging :: "serve_step option \<Rightarrow> string list" where
  "lagging (Some (StoreServing v)) = [[], watch_service]"
| "lagging (Some (StoreHealth [] h)) = [watch_service]"
| "lagging _ = []"

definition status_agrees :: "serve_step option \<Rightarrow> process \<Rightarrow> string \<Rightarrow> bool" where
  "status_agrees latest p service \<longleftrightarrow>
     map_of (proc_health p) service = Some (health_of (proc_serving p \<noteq> (service \<in> set (lagging latest))))"

definition said_ready :: "process \<Rightarrow> bool" where
  "said_ready p \<longleftrightarrow> proc_serving p \<or> map_of (proc_health p) [] = Some SERVING \<or> map_of (proc_health p) watch_service = Some SERVING"

definition consistent :: "opsConfig \<Rightarrow> bool \<Rightarrow> serve_step option \<Rightarrow> process \<Rightarrow> bool" where
  "consistent cfg has_ops latest p \<longleftrightarrow> status_agrees latest p [] \<and> status_agrees latest p watch_service \<and>
     (said_ready p \<longrightarrow> proc_source p \<and> proc_api p \<and> proc_watches p \<and> (has_ops \<longrightarrow> proc_ops p \<noteq> None)) \<and>
     (\<forall>h. proc_ops p = Some h \<longrightarrow> oh_pprof h = ops_pprof cfg)"

text \<open>Every prefix of a list of steps leads to a consistent process.\<close>

fun walk :: "opsConfig \<Rightarrow> telemetry \<Rightarrow> bool \<Rightarrow> serve_step option \<Rightarrow> process \<Rightarrow> serve_step list \<Rightarrow> bool" where
  "walk cfg tel has_ops latest p [] = consistent cfg has_ops latest p"
| "walk cfg tel has_ops latest p (s # ss) =
     (consistent cfg has_ops latest p \<and> walk cfg tel has_ops (Some s) (apply_step cfg tel s p) ss)"

definition latest_of :: "serve_step option \<Rightarrow> serve_step list \<Rightarrow> serve_step option" where
  "latest_of latest ss = (if ss = [] then latest else Some (last ss))"

lemma walk_prefix:
  "walk cfg tel has_ops latest p (pre @ post) \<Longrightarrow> consistent cfg has_ops (latest_of latest pre) (fold (apply_step cfg tel) pre p)"
proof (induction pre arbitrary: latest p)
  case Nil
  then show ?case by (cases post) (simp_all add: latest_of_def)
next
  case (Cons s pre)
  then have "walk cfg tel has_ops (Some s) (apply_step cfg tel s p) (pre @ post)" by simp
  from Cons.IH [OF this] show ?case by (simp add: latest_of_def split: if_splits)
qed

lemmas walk_defs = consistent_def status_agrees_def said_ready_def health_of_def new_process_def apply_effect_def startOps_def
  watch_service_def setServing_def SetServingStatuses_def serve_steps_def Let_def

lemma closing_walk:
  "walk cfg tel has_ops None new_process (serve_steps (closeListeners has_ops))"
  "walk cfg tel has_ops None new_process (serve_steps (TelemetryUp # closeListeners has_ops @ [TelemetryDown]))"
  by (simp_all add: closeListeners_def walk_defs)

lemma body_walk:
  "walk cfg tel has_ops None new_process (serve_steps (TelemetryUp # fst (serve_body has_ops env) @ [TelemetryDown]))"
  by (cases "sv_start env"; cases has_ops) (simp_all add: serve_body_def walk_defs)

lemma Serve_walk: "walk ocfg tel has_ops None new_process (serve_steps (fst (Serve cfg has_ops env)))"
proof -
  have "Serve cfg has_ops env = (fst (Serve cfg has_ops env), snd (Serve cfg has_ops env))" by simp
  from Serve_cases [OF this] show ?thesis using closing_walk body_walk by (elim disjE conjE) simp_all
qed

text \<open>What happens to the process from outside changes only whether the source and the API are still there, and the
  ops endpoint.\<close>

definition core :: "process \<Rightarrow> bool \<times> (string, health) gomap \<times> bool \<times> bool \<times> bool" where
  "core p = (proc_serving p, proc_health p, proc_source p, proc_api p, proc_watches p)"

lemma core_step: "core p = core q \<Longrightarrow> core (apply_step cfg tel s p) = core (apply_step cfg tel s q)"
  by (cases "(cfg, tel, s, p)" rule: apply_step.cases)
    (auto simp: core_def apply_effect_def startOps_def split: serve_effect.splits)

lemma core_outside: "\<not> own_step s \<Longrightarrow> core (apply_step cfg tel s p) = core p"
  by (auto simp: own_step_def core_def)

lemma core_fold:
  "core p = core q \<Longrightarrow> core (fold (apply_step cfg tel) ss p) = core (fold (apply_step cfg tel) (filter own_step ss) q)"
proof (induction ss arbitrary: p q)
  case (Cons s ss)
  show ?case
  proof (cases "own_step s")
    case True
    then show ?thesis using Cons.IH [OF core_step [OF Cons.prems]] by simp
  next
    case False
    have "core (apply_step cfg tel s p) = core q" using core_outside [OF False] Cons.prems by simp
    then show ?thesis using Cons.IH False by simp
  qed
qed simp

lemma ops_step:
  assumes "proc_ops p = None \<or> proc_ops p = proc_ops q"
  shows "proc_ops (apply_step cfg tel s p) = None \<or> proc_ops (apply_step cfg tel s p) = proc_ops (apply_step cfg tel s q)"
    "\<not> own_step s \<Longrightarrow> proc_ops (apply_step cfg tel s p) = None \<or> proc_ops (apply_step cfg tel s p) = proc_ops q"
  using assms
  by (cases s; auto simp: own_step_def apply_effect_def startOps_def split: serve_effect.splits)+

lemma ops_fold:
  "proc_ops p = None \<or> proc_ops p = proc_ops q \<Longrightarrow>
   proc_ops (fold (apply_step cfg tel) ss p) = None \<or>
   proc_ops (fold (apply_step cfg tel) ss p) = proc_ops (fold (apply_step cfg tel) (filter own_step ss) q)"
  by (induction ss arbitrary: p q) (use ops_step in \<open>auto simp del: apply_step.simps\<close>)

lemma ops_kept:
  "OpsFailed \<notin> set ss \<Longrightarrow> proc_ops p = proc_ops q \<Longrightarrow>
   proc_ops (fold (apply_step cfg tel) ss p) = proc_ops (fold (apply_step cfg tel) (filter own_step ss) q)"
proof (induction ss arbitrary: p q)
  case (Cons s ss)
  show ?case
  proof (cases "own_step s")
    case True
    have "proc_ops (apply_step cfg tel s p) = proc_ops (apply_step cfg tel s q)"
      using Cons.prems by (cases s) (auto simp: apply_effect_def startOps_def split: serve_effect.splits)
    then show ?thesis using Cons True by simp
  next
    case False
    have "proc_ops (apply_step cfg tel s p) = proc_ops q" using Cons.prems False by (auto simp: own_step_def)
    then show ?thesis using Cons False by simp
  qed
qed simp

text \<open>C26: Readiness is withdrawn and given in the right order. At every moment of a run of \<open>Serve\<close>, whatever happens to the
  source, the API server and the ops server in between: \<open>/readyz\<close> and the gauge \<open>watchd.serving\<close> show the serving flag; gRPC health of the
  server and of the watch service shows it too, except that it still shows the opposite between the store of the flag and its own
  store; as long as any of them says ready, \<open>Serve\<close> has started the source and the API server, has stopped neither,
  and the hub takes watches (the source may have ended, or serving have failed, since); when ready, the ops endpoint, if there is
  a listener and it did not fail, answers so; \<open>/healthz\<close> answers whenever the endpoint does; and no request gets a profile
  unless the configuration enables profiling.\<close>

theorem readiness_truthful:
  assumes "filter own_step steps @ post = serve_steps (fst (Serve cfg has_ops env))"
    and "p = fold (apply_step (dc_ops cfg) tel) steps new_process"
  shows "serving_gauge p = (if proc_serving p then 1 else 0) \<and>
    ops_request p ''GET'' ''/readyz'' \<in> {None, Some (Inr (if proc_serving p then writeStatus 200 ''ready'' else writeStatus 503 ''not ready''))} \<and>
    status_agrees (latest_of None (filter own_step steps)) p [] \<and> status_agrees (latest_of None (filter own_step steps)) p watch_service \<and>
    (said_ready p \<longrightarrow> proc_source p \<and> proc_api p \<and> proc_watches p) \<and>
    (proc_serving p \<and> has_ops \<and> OpsFailed \<notin> set steps \<longrightarrow> ops_request p ''GET'' ''/readyz'' = Some (Inr (writeStatus 200 ''ready''))) \<and>
    ops_request p ''GET'' ''/healthz'' \<in> {None, Some (Inr (writeStatus 200 ''ok''))} \<and>
    (ops_request p verb path = Some (Inl (Routed (Profile x))) \<longrightarrow> ops_pprof (dc_ops cfg))"
proof -
  let ?own = "filter own_step steps"
  define q where "q = fold (apply_step (dc_ops cfg) tel) ?own new_process"
  have q: "consistent (dc_ops cfg) has_ops (latest_of None ?own) q"
    unfolding q_def by (rule walk_prefix [of _ _ _ _ _ _ post]) (use Serve_walk assms(1) in simp)
  have eq: "core p = core q" unfolding assms(2) q_def by (rule core_fold) (rule refl)
  then have fields: "proc_serving p = proc_serving q" "proc_health p = proc_health q" "proc_source p = proc_source q"
    "proc_api p = proc_api q" "proc_watches p = proc_watches q"
    by (simp_all add: core_def)
  have ops: "proc_ops p = None \<or> proc_ops p = proc_ops q" unfolding assms(2) q_def by (rule ops_fold) simp
  have kept: "OpsFailed \<notin> set steps \<Longrightarrow> proc_ops p = proc_ops q" unfolding assms(2) q_def by (rule ops_kept) simp_all
  have sr: "said_ready p = said_ready q" by (simp add: said_ready_def fields)
  have ready: "proc_serving q \<Longrightarrow> said_ready q" by (simp add: said_ready_def)
  have pp: "oh_pprof h = ops_pprof (dc_ops cfg)" if "proc_ops p = Some h" for h
    using q ops that by (auto simp: consistent_def)
  show ?thesis
    using q ready kept sr pp
    by (auto simp: consistent_def status_agrees_def ops_request_def serving_gauge_def readyz_answer healthz_answer fields
        dest: profile_needs_pprof)
qed

definition plain_telemetry :: telemetry where
  "plain_telemetry = \<lparr>tel_resource = [], tel_readers = [PrometheusReader], tel_handler = True\<rparr>"

text \<open>A run up to readiness, in whose middle the source's stream ends.\<close>

definition ready_steps :: "serve_step list" where
  "ready_steps = (let own = take 7 (serve_steps (fst (Serve (sample_loaded ''items'') True sample_serve))) in take 4 own @ SourceEnded # drop 4 own)"

theorem readiness_truthful_witness:
  "proc_serving (fold (apply_step (dc_ops (sample_loaded ''items'')) plain_telemetry) ready_steps new_process) \<and>
   proc_sourceEnded (fold (apply_step (dc_ops (sample_loaded ''items'')) plain_telemetry) ready_steps new_process) \<and>
   ops_request (fold (apply_step (dc_ops (sample_loaded ''items'')) plain_telemetry) ready_steps new_process) ''GET'' ''/readyz'' =
     Some (Inr (writeStatus 200 ''ready''))"
proof -
  let ?p = "fold (apply_step (dc_ops (sample_loaded ''items'')) plain_telemetry) ready_steps new_process"
  have split: "filter own_step ready_steps @ drop 7 (serve_steps (fst (Serve (sample_loaded ''items'') True sample_serve))) =
      serve_steps (fst (Serve (sample_loaded ''items'') True sample_serve))" by code_simp
  have p: "proc_serving ?p" "proc_sourceEnded ?p" "OpsFailed \<notin> set ready_steps" by code_simp+
  with readiness_truthful [OF split refl, of plain_telemetry] show ?thesis by blast
qed

text \<open>Only calls of registered methods are recorded.\<close>

lemma method_filter_iff:
  "method_filter info full \<longleftrightarrow> (\<exists>service methods m. (service, methods) \<in> set info \<and> m \<in> set methods \<and> full = ''/'' @ service @ ''/'' @ m)"
  by (auto simp: method_filter_def known_methods_def)

end
